(* ===== verification/Prelude.thy ===== *)
theory Prelude
  imports Main "HOL-Library.Word" "HOL-Library.Sublist"
begin

text \<open>
  Shared vocabulary of the development.

  A Rust \<open>str\<close> is modelled by the list of its UTF-8 bytes, one HOL \<open>char\<close> per byte, so
  \<open>length\<close> is Rust's \<open>len()\<close> and slices are byte slices.  This theory holds the functions of
  Rust's standard library the program uses on strings (\<open>find\<close>, \<open>split_once\<close>, \<open>replace\<close>, \<open>trim\<close>,
  \<open>lines\<close>, integer formatting and parsing) and the lemmas the components share.  They model
  \<open>core::str\<close> and \<open>core::fmt\<close>, not code of the repository, and therefore have no entry in the
  manifest's map.
\<close>

named_theorems text_simps \<open>rewriting of string operations on literals and appended strings\<close>
named_theorems frame_simps \<open>fields an operation does not touch\<close>
named_theorems step_defs \<open>definitions of the operations, unfolded when a branch is followed\<close>

type_synonym str = string
type_synonym byte = "8 word"
type_synonym u32 = "32 word"

subsection \<open>Results\<close>

text \<open>\<open>Inl\<close> carries the error, \<open>Inr\<close> the value; \<open>and_then\<close> is the \<open>?\<close> operator.\<close>

fun and_then :: "'e + 'a \<Rightarrow> ('a \<Rightarrow> 'e + 'b) \<Rightarrow> 'e + 'b" where
  "and_then (Inl e) f = Inl e"
| "and_then (Inr a) f = f a"

fun is_ok :: "'e + 'a \<Rightarrow> bool" where
  "is_ok (Inl e) = False"
| "is_ok (Inr a) = True"

lemma and_then_Inr_iff: "and_then x f = Inr b \<longleftrightarrow> (\<exists>a. x = Inr a \<and> f a = Inr b)"
  by (cases x) auto

lemma is_ok_iff: "is_ok x \<longleftrightarrow> (\<exists>a. x = Inr a)"
  by (cases x) auto

text \<open>\<open>Option::unwrap_or\<close> and \<open>Option::filter\<close>.\<close>

fun unwrap_or :: "'a option \<Rightarrow> 'a \<Rightarrow> 'a" where
  "unwrap_or None d = d"
| "unwrap_or (Some a) d = a"

fun or_else :: "'a option \<Rightarrow> 'a option \<Rightarrow> 'a option" where
  "or_else None y = y"
| "or_else (Some a) y = Some a"

definition opt_filter :: "('a \<Rightarrow> bool) \<Rightarrow> 'a option \<Rightarrow> 'a option" where
  "opt_filter P x = (case x of None \<Rightarrow> None | Some a \<Rightarrow> if P a then Some a else None)"

lemma opt_filter_Some_iff [simp]: "opt_filter P x = Some a \<longleftrightarrow> x = Some a \<and> P a"
  by (auto simp: opt_filter_def split: option.splits)

lemma opt_filter_None [simp]: "opt_filter P None = None"
  by (simp add: opt_filter_def)

subsection \<open>Prefixes and searching\<close>

fun strip_prefix :: "str \<Rightarrow> str \<Rightarrow> str option" where
  "strip_prefix [] s = Some s"
| "strip_prefix (x # p) [] = None"
| "strip_prefix (x # p) (y # s) = (if x = y then strip_prefix p s else None)"

definition starts_with :: "str \<Rightarrow> str \<Rightarrow> bool" where
  "starts_with p s \<longleftrightarrow> strip_prefix p s \<noteq> None"

lemma strip_prefix_Some_iff: "strip_prefix p s = Some r \<longleftrightarrow> s = p @ r"
  by (induction p s rule: strip_prefix.induct) auto

lemma strip_prefix_append [simp]: "strip_prefix p (p @ r) = Some r"
  by (simp add: strip_prefix_Some_iff)

lemma starts_with_iff: "starts_with p s \<longleftrightarrow> (\<exists>r. s = p @ r)"
  by (simp add: starts_with_def strip_prefix_Some_iff)

lemma starts_with_append [simp]: "starts_with p (p @ r)"
  by (auto simp: starts_with_iff)

lemma starts_with_Nil [simp]: "starts_with [] s"
  by (simp add: starts_with_def)

lemma starts_with_Cons_Nil [simp]: "starts_with (x # p) [] = False"
  by (simp add: starts_with_def)

lemma starts_with_Cons [simp]: "starts_with (x # p) (y # s) = (x = y \<and> starts_with p s)"
  by (simp add: starts_with_def)

lemma starts_with_length: "starts_with p s \<Longrightarrow> length p \<le> length s"
  by (auto simp: starts_with_iff)

lemma starts_with_take: "starts_with p s \<longleftrightarrow> take (length p) s = p"
  by (metis append_eq_conv_conj append_take_drop_id starts_with_iff)

text \<open>\<open>str::find\<close>: the byte offset of the first occurrence.\<close>

fun find_str :: "str \<Rightarrow> str \<Rightarrow> nat option" where
  "find_str p [] = (if p = [] then Some 0 else None)"
| "find_str p (c # s) =
     (if starts_with p (c # s) then Some 0 else map_option Suc (find_str p s))"

definition contains :: "str \<Rightarrow> str \<Rightarrow> bool" where
  "contains p s \<longleftrightarrow> find_str p s \<noteq> None"

lemma find_str_Some:
  "find_str p s = Some n \<Longrightarrow> s = take n s @ p @ drop (n + length p) s"
proof (induction p s arbitrary: n rule: find_str.induct)
  case (2 p c s)
  show ?case
  proof (cases "starts_with p (c # s)")
    case True
    with "2.prems" have "n = 0" by simp
    with True show ?thesis
      by (metis add_0 append_Nil append_eq_conv_conj starts_with_iff take0)
  next
    case False
    with "2.prems" obtain m where m: "find_str p s = Some m" and n: "n = Suc m" by auto
    from "2.IH" [OF False m] n show ?thesis by simp
  qed
qed (auto split: if_splits)

lemma find_str_bound: "find_str p s = Some n \<Longrightarrow> n + length p \<le> length s"
  by (induction p s arbitrary: n rule: find_str.induct)
    (auto split: if_splits dest: starts_with_length)

text \<open>The first occurrence is the one the search returns.\<close>

lemma find_str_first:
  assumes "\<And>k. k < length a \<Longrightarrow> \<not> starts_with p (drop k (a @ p @ b))"
  shows "find_str p (a @ p @ b) = Some (length a)"
  using assms
proof (induction a)
  case Nil
  have "starts_with p (p @ b)" by simp
  then show ?case by (cases "p @ b") auto
next
  case (Cons x a)
  have "\<not> starts_with p (drop k (a @ p @ b))" if "k < length a" for k
    using Cons.prems [of "Suc k"] that by simp
  then have "find_str p (a @ p @ b) = Some (length a)" by (rule Cons.IH)
  with Cons.prems [of 0] show ?case by simp
qed

lemma find_str_None:
  "find_str p s = None \<longleftrightarrow> (\<forall>k \<le> length s. \<not> starts_with p (drop k s))"
proof (induction p s rule: find_str.induct)
  case (1 p)
  then show ?case by (cases p) auto
next
  case (2 p c s)
  show ?case
  proof (cases "starts_with p (c # s)")
    case True
    then show ?thesis by auto
  next
    case False
    with "2.IH" have "find_str p (c # s) = None \<longleftrightarrow> (\<forall>k \<le> length s. \<not> starts_with p (drop k s))"
      by simp
    also have "\<dots> \<longleftrightarrow> (\<forall>k \<le> length (c # s). \<not> starts_with p (drop k (c # s)))"
      using False by (metis (no_types, lifting) Suc_le_mono drop_0 drop_Suc_Cons length_Cons
          not0_implies_Suc not_less_eq_eq zero_le)
    finally show ?thesis .
  qed
qed

lemma contains_iff: "contains p s \<longleftrightarrow> (\<exists>a b. s = a @ p @ b)"
proof
  assume "contains p s"
  then show "\<exists>a b. s = a @ p @ b"
    unfolding contains_def using find_str_Some by (metis not_None_eq)
next
  assume "\<exists>a b. s = a @ p @ b"
  then obtain a b where s: "s = a @ p @ b" by blast
  then have "starts_with p (drop (length a) s)" and "length a \<le> length s" by simp_all
  then show "contains p s"
    unfolding contains_def find_str_None by blast
qed

subsection \<open>Splitting\<close>

text \<open>\<open>split_once\<close> at the first occurrence, \<open>rsplit_once\<close> at the last.\<close>

definition split_once :: "str \<Rightarrow> str \<Rightarrow> (str \<times> str) option" where
  "split_once p s =
     (case find_str p s of None \<Rightarrow> None | Some n \<Rightarrow> Some (take n s, drop (n + length p) s))"

fun rsplit_once :: "char \<Rightarrow> str \<Rightarrow> (str \<times> str) option" where
  "rsplit_once c [] = None"
| "rsplit_once c (x # s) =
     (case rsplit_once c s of
        Some (a, b) \<Rightarrow> Some (x # a, b)
      | None \<Rightarrow> if x = c then Some ([], s) else None)"

lemma rsplit_once_None: "rsplit_once c s = None \<longleftrightarrow> c \<notin> set s"
  by (induction s) (auto split: option.splits)

lemma rsplit_once_SomeD: "rsplit_once c s = Some (a, b) \<Longrightarrow> s = a @ c # b \<and> c \<notin> set b"
proof (induction s arbitrary: a)
  case (Cons x s)
  show ?case
  proof (cases "rsplit_once c s")
    case None
    with Cons.prems show ?thesis by (simp add: rsplit_once_None split: if_splits)
  next
    case (Some p)
    then obtain a' b' where p: "rsplit_once c s = Some (a', b')" by (cases p) simp
    with Cons.prems have "a = x # a'" and "b = b'" by simp_all
    with Cons.IH [of a'] p show ?thesis by simp
  qed
qed simp

lemma rsplit_once_append: "c \<notin> set b \<Longrightarrow> rsplit_once c (a @ c # b) = Some (a, b)"
  by (induction a) (simp_all add: rsplit_once_None [THEN iffD2])

text \<open>\<open>s.split(chars).next()\<close>: everything before the first separator.\<close>

definition first_token :: "char set \<Rightarrow> str \<Rightarrow> str" where
  "first_token seps s = takeWhile (\<lambda>c. c \<notin> seps) s"

text \<open>\<open>s.split(c)\<close>.\<close>

fun split_on :: "char \<Rightarrow> str \<Rightarrow> str list" where
  "split_on c [] = [[]]"
| "split_on c (x # s) =
     (case split_on c s of
        [] \<Rightarrow> []
      | p # ps \<Rightarrow> if x = c then [] # p # ps else (x # p) # ps)"

subsection \<open>Replacing\<close>

definition replace_char :: "char \<Rightarrow> str \<Rightarrow> str \<Rightarrow> str" where
  "replace_char c r s = concat (map (\<lambda>x. if x = c then r else [x]) s)"

text \<open>\<open>str::replace\<close> with a string pattern: non-overlapping matches from the left.  The
  program's patterns are never empty.\<close>

function replace_str :: "str \<Rightarrow> str \<Rightarrow> str \<Rightarrow> str" where
  "replace_str p r [] = []"
| "replace_str p r (c # s) =
     (if p \<noteq> [] \<and> starts_with p (c # s)
      then r @ replace_str p r (drop (length p) (c # s))
      else c # replace_str p r s)"
  by pat_completeness auto
termination
  by (relation "measure (\<lambda>(p, r, s). length s)") auto

lemma replace_char_Nil [simp]: "replace_char c r [] = []"
  and replace_char_Cons [simp]:
    "replace_char c r (x # s) = (if x = c then r else [x]) @ replace_char c r s"
  and replace_char_append [simp]:
    "replace_char c r (s @ t) = replace_char c r s @ replace_char c r t"
  by (simp_all add: replace_char_def)

lemma replace_char_absent: "c \<notin> set s \<Longrightarrow> replace_char c r s = s"
  by (induction s) auto

lemma replace_str_char: "replace_str [c] r s = replace_char c r s"
  by (induction s) auto

lemma replace_str_absent: "\<not> contains p s \<Longrightarrow> replace_str p r s = s"
proof (induction s)
  case (Cons c s)
  have "\<not> starts_with p (c # s)"
    using Cons.prems unfolding contains_iff starts_with_iff by (metis append_Nil)
  moreover have "\<not> contains p s"
    using Cons.prems unfolding contains_iff by (metis append_Cons)
  ultimately show ?case using Cons.IH by simp
qed simp

subsection \<open>Whitespace\<close>

text \<open>
  \<open>char::is_whitespace\<close> on UTF-8 bytes: \<open>white_len s\<close> is the length of the encoding of a
  White_Space character at the front of \<open>s\<close>, 0 if there is none.  \<open>white_len_rev\<close> reads the
  reversed bytes; on valid UTF-8 a suffix of this form is always one character.
\<close>

definition ascii_white :: "char \<Rightarrow> bool" where
  "ascii_white c \<longleftrightarrow> c \<in> {CHR 0x09, CHR 0x0A, CHR 0x0B, CHR 0x0C, CHR 0x0D, CHR 0x20}"

definition white2 :: "char \<Rightarrow> char \<Rightarrow> bool" where
  "white2 a b \<longleftrightarrow> a = CHR 0xC2 \<and> (b = CHR 0x85 \<or> b = CHR 0xA0)"

definition white3 :: "char \<Rightarrow> char \<Rightarrow> char \<Rightarrow> bool" where
  "white3 a b c \<longleftrightarrow>
     a = CHR 0xE1 \<and> b = CHR 0x9A \<and> c = CHR 0x80 \<or>
     a = CHR 0xE2 \<and> b = CHR 0x80 \<and>
       c \<in> {CHR 0x80, CHR 0x81, CHR 0x82, CHR 0x83, CHR 0x84, CHR 0x85, CHR 0x86, CHR 0x87,
            CHR 0x88, CHR 0x89, CHR 0x8A, CHR 0xA8, CHR 0xA9, CHR 0xAF} \<or>
     a = CHR 0xE2 \<and> b = CHR 0x81 \<and> c = CHR 0x9F \<or>
     a = CHR 0xE3 \<and> b = CHR 0x80 \<and> c = CHR 0x80"

definition white_len :: "str \<Rightarrow> nat" where
  "white_len s =
     (case s of
        [] \<Rightarrow> 0
      | a # s1 \<Rightarrow> if ascii_white a then 1 else
     (case s1 of
        [] \<Rightarrow> 0
      | b # s2 \<Rightarrow> if white2 a b then 2 else
     (case s2 of
        [] \<Rightarrow> 0
      | c # s3 \<Rightarrow> if white3 a b c then 3 else 0)))"

definition white_len_rev :: "str \<Rightarrow> nat" where
  "white_len_rev s =
     (case s of
        [] \<Rightarrow> 0
      | a # s1 \<Rightarrow> if ascii_white a then 1 else
     (case s1 of
        [] \<Rightarrow> 0
      | b # s2 \<Rightarrow> if white2 b a then 2 else
     (case s2 of
        [] \<Rightarrow> 0
      | c # s3 \<Rightarrow> if white3 c b a then 3 else 0)))"

lemma white_len_le [simp]: "white_len s \<le> length s"
  by (auto simp: white_len_def split: list.splits)

lemma white_len_rev_le [simp]: "white_len_rev s \<le> length s"
  by (auto simp: white_len_rev_def split: list.splits)

function trim_start :: "str \<Rightarrow> str" where
  "trim_start s = (if white_len s = 0 then s else trim_start (drop (white_len s) s))"
  by pat_completeness auto
termination
  by (relation "measure length")
    (auto simp: white_len_def split: list.splits if_splits)

function trim_rev :: "str \<Rightarrow> str" where
  "trim_rev s = (if white_len_rev s = 0 then s else trim_rev (drop (white_len_rev s) s))"
  by pat_completeness auto
termination
  by (relation "measure length")
    (auto simp: white_len_rev_def split: list.splits if_splits)

declare trim_start.simps [simp del] trim_rev.simps [simp del]

definition trim_end :: "str \<Rightarrow> str" where
  "trim_end s = rev (trim_rev (rev s))"

definition trim :: "str \<Rightarrow> str" where
  "trim s = trim_end (trim_start s)"

lemma trim_start_id: "white_len s = 0 \<Longrightarrow> trim_start s = s"
  by (simp add: trim_start.simps)

lemma white_len_trim_start [simp]: "white_len (trim_start s) = 0"
proof (induction s rule: trim_start.induct)
  case (1 s)
  then show ?case by (cases "white_len s = 0") (simp_all add: trim_start.simps [of s])
qed

lemma trim_start_idem [simp]: "trim_start (trim_start s) = trim_start s"
  by (rule trim_start_id) simp

lemma trim_start_suffix: "\<exists>w. s = w @ trim_start s"
proof (induction s rule: trim_start.induct)
  case (1 s)
  show ?case
  proof (cases "white_len s = 0")
    case True
    then show ?thesis by (metis append_Nil trim_start_id)
  next
    case False
    with "1.IH" obtain w where "drop (white_len s) s = w @ trim_start (drop (white_len s) s)"
      by blast
    with False show ?thesis
      by (metis append_assoc append_take_drop_id trim_start.simps)
  qed
qed

lemma length_trim_start: "length (trim_start s) \<le> length s"
  using trim_start_suffix [of s] by (metis length_append le_add2)

lemma trim_rev_suffix: "\<exists>w. s = w @ trim_rev s"
proof (induction s rule: trim_rev.induct)
  case (1 s)
  show ?case
  proof (cases "white_len_rev s = 0")
    case True
    then show ?thesis by (metis append_Nil trim_rev.simps)
  next
    case False
    with "1.IH" obtain w where "drop (white_len_rev s) s = w @ trim_rev (drop (white_len_rev s) s)"
      by blast
    with False show ?thesis
      by (metis append_assoc append_take_drop_id trim_rev.simps)
  qed
qed

lemma trim_end_prefix: "\<exists>w. s = trim_end s @ w"
  using trim_rev_suffix [of "rev s"] unfolding trim_end_def
  by (metis rev_append rev_rev_ident)

lemma trim_infix: "\<exists>a b. s = a @ trim s @ b"
  using trim_start_suffix [of s] trim_end_prefix [of "trim_start s"] unfolding trim_def
  by metis

lemma white_len_rev_trim_rev [simp]: "white_len_rev (trim_rev s) = 0"
proof (induction s rule: trim_rev.induct)
  case (1 s)
  then show ?case by (cases "white_len_rev s = 0") (simp_all add: trim_rev.simps [of s])
qed

lemma trim_end_id: "white_len_rev (rev s) = 0 \<Longrightarrow> trim_end s = s"
  by (simp add: trim_end_def trim_rev.simps)

lemma trim_id: "white_len s = 0 \<Longrightarrow> white_len_rev (rev s) = 0 \<Longrightarrow> trim s = s"
  by (simp add: trim_def trim_start_id trim_end_id)

text \<open>An ASCII character that is not a space starts or ends no whitespace.\<close>

definition plain_char :: "char \<Rightarrow> bool" where
  "plain_char c \<longleftrightarrow> of_char c < (128::nat) \<and> \<not> ascii_white c"

lemma plain_not_white:
  assumes "plain_char c"
  shows "\<not> ascii_white c" "\<not> white2 c b" "\<not> white2 b c" "\<not> white3 c a b" "\<not> white3 a c b"
    "\<not> white3 a b c"
  using assms by (auto simp: plain_char_def white2_def white3_def)

lemma white_len_plain [simp]: "plain_char c \<Longrightarrow> white_len (c # s) = 0"
  by (auto simp: white_len_def plain_not_white split: list.splits)

lemma white_len_rev_plain [simp]: "plain_char c \<Longrightarrow> white_len_rev (c # s) = 0"
  by (auto simp: white_len_rev_def plain_not_white split: list.splits)

lemma trim_start_plain [simp]: "plain_char c \<Longrightarrow> trim_start (c # s) = c # s"
  by (simp add: trim_start_id)

lemma trim_start_space [simp]: "trim_start (CHR '' '' # s) = trim_start s"
  by (simp add: trim_start.simps [of "CHR '' '' # s"] white_len_def ascii_white_def)

lemma trim_start_Nil [simp]: "trim_start [] = []"
  by (simp add: trim_start_id white_len_def)

lemma trim_end_plain [simp]: "plain_char c \<Longrightarrow> trim_end (s @ [c]) = s @ [c]"
  by (simp add: trim_end_id)

lemma trim_end_Nil [simp]: "trim_end [] = []"
  by (simp add: trim_end_id white_len_rev_def)

lemma trim_Nil [simp]: "trim [] = []"
  by (simp add: trim_def)

subsection \<open>Lines\<close>

definition newline :: char where "newline = CHR 0x0A"
definition creturn :: char where "creturn = CHR 0x0D"

lemma white_newline [simp]: "ascii_white newline" "\<not> white2 a newline" "\<not> white3 a b newline"
  by (auto simp: ascii_white_def white2_def white3_def newline_def)

lemma trim_start_newline [simp]: "trim_start (newline # s) = trim_start s"
  by (simp add: trim_start.simps [of "newline # s"] white_len_def)

text \<open>\<open>str::lines\<close>: pieces ending at each newline, with the newline and one carriage return
  before it dropped; a last piece without newline is kept as it is.\<close>

fun split_incl :: "str \<Rightarrow> str list" where
  "split_incl [] = []"
| "split_incl (c # s) =
     (if c = newline then [c] # split_incl s
      else case split_incl s of [] \<Rightarrow> [[c]] | p # ps \<Rightarrow> (c # p) # ps)"

definition chop_line :: "str \<Rightarrow> str" where
  "chop_line l =
     (if l \<noteq> [] \<and> last l = newline
      then (let m = butlast l in if m \<noteq> [] \<and> last m = creturn then butlast m else m)
      else l)"

definition lines_of :: "str \<Rightarrow> str list" where
  "lines_of s = map chop_line (split_incl s)"

lemma concat_split_incl [simp]: "concat (split_incl s) = s"
  by (induction s) (auto split: list.splits)

lemma split_incl_nonempty: "p \<in> set (split_incl s) \<Longrightarrow> p \<noteq> []"
  by (induction s arbitrary: p) (auto split: list.splits if_splits)

lemma split_incl_newline:
  "newline \<notin> set a \<Longrightarrow> split_incl (a @ newline # s) = (a @ [newline]) # split_incl s"
  by (induction a) auto

lemma split_incl_last: "newline \<notin> set a \<Longrightarrow> a \<noteq> [] \<Longrightarrow> split_incl a = [a]"
proof (induction a)
  case (Cons x a)
  then show ?case by (cases "a = []") auto
qed simp

lemma split_incl_inside: "p \<in> set (split_incl s) \<Longrightarrow> newline \<notin> set (butlast p)"
  by (induction s arbitrary: p)
    (auto split: list.splits if_splits dest: split_incl_nonempty)

subsection \<open>Integers as text\<close>

definition digit_char :: "nat \<Rightarrow> char" where
  "digit_char d = char_of (48 + d)"

fun nat_to_dec :: "nat \<Rightarrow> str" where
  "nat_to_dec n =
     (if n < 10 then [digit_char n] else nat_to_dec (n div 10) @ [digit_char (n mod 10)])"

declare nat_to_dec.simps [simp del]

definition int_to_dec :: "int \<Rightarrow> str" where
  "int_to_dec i = (if i < 0 then CHR ''-'' # nat_to_dec (nat (- i)) else nat_to_dec (nat i))"

text \<open>Zero padding to a minimal width, the sign counted in the width: \<open>{:04}\<close>.\<close>

definition pad_zero :: "nat \<Rightarrow> str \<Rightarrow> str" where
  "pad_zero w s = replicate (w - length s) (CHR ''0'') @ s"

definition pad_int :: "nat \<Rightarrow> int \<Rightarrow> str" where
  "pad_int w i =
     (if i < 0 then CHR ''-'' # pad_zero (w - 1) (nat_to_dec (nat (- i)))
      else pad_zero w (nat_to_dec (nat i)))"

definition hex_char :: "nat \<Rightarrow> char" where
  "hex_char d = (if d < 10 then char_of (48 + d) else char_of (87 + d))"

fun nat_to_hex :: "nat \<Rightarrow> str" where
  "nat_to_hex n =
     (if n < 16 then [hex_char n] else nat_to_hex (n div 16) @ [hex_char (n mod 16)])"

declare nat_to_hex.simps [simp del]

text \<open>\<open>from_str_radix\<close> of an unsigned type with largest value \<open>mx\<close>: an optional plus sign,
  at least one digit, no other character, no overflow.\<close>

definition digit_val :: "nat \<Rightarrow> char \<Rightarrow> nat option" where
  "digit_val radix c =
     (let n = of_char c;
          v = (if 48 \<le> n \<and> n \<le> 57 then n - 48
               else if 97 \<le> n \<and> n \<le> 122 then n - 87
               else if 65 \<le> n \<and> n \<le> 90 then n - 55 else radix)
      in if v < radix then Some v else None)"

fun digits_val :: "nat \<Rightarrow> nat \<Rightarrow> str \<Rightarrow> nat option" where
  "digits_val radix acc [] = Some acc"
| "digits_val radix acc (c # s) =
     (case digit_val radix c of
        None \<Rightarrow> None
      | Some v \<Rightarrow> digits_val radix (acc * radix + v) s)"

definition parse_uint :: "nat \<Rightarrow> nat \<Rightarrow> str \<Rightarrow> nat option" where
  "parse_uint radix mx s =
     (let d = (case s of c # t \<Rightarrow> if c = CHR ''+'' \<and> t \<noteq> [] then t else s | [] \<Rightarrow> s)
      in if d = [] then None
         else case digits_val radix 0 d of
                None \<Rightarrow> None
              | Some v \<Rightarrow> if v \<le> mx then Some v else None)"

lemma digits_val_append:
  "digits_val radix acc (s @ t) =
     (case digits_val radix acc s of None \<Rightarrow> None | Some v \<Rightarrow> digits_val radix v t)"
  by (induction s arbitrary: acc) (auto split: option.splits)

lemma of_char_digit: "d < 10 \<Longrightarrow> of_char (digit_char d) = (48 + d :: nat)"
  by (simp add: digit_char_def)

lemma digit_val_digit_char: "d < 10 \<Longrightarrow> digit_val 10 (digit_char d) = Some d"
  by (simp add: digit_val_def of_char_digit)

lemma nat_to_dec_nonempty [simp]: "nat_to_dec n \<noteq> []"
  by (subst nat_to_dec.simps) simp

lemma digits_val_nat_to_dec: "digits_val 10 0 (nat_to_dec n) = Some n"
proof (induction n rule: nat_to_dec.induct)
  case (1 n)
  show ?case
  proof (cases "n < 10")
    case True
    then show ?thesis by (subst nat_to_dec.simps) (simp add: digit_val_digit_char)
  next
    case False
    with "1.IH" have "digits_val 10 0 (nat_to_dec (n div 10)) = Some (n div 10)" by simp
    with False show ?thesis
      by (subst nat_to_dec.simps) (simp add: digits_val_append digit_val_digit_char)
  qed
qed

definition is_digit :: "char \<Rightarrow> bool" where
  "is_digit c \<longleftrightarrow> 48 \<le> (of_char c :: nat) \<and> of_char c \<le> (57 :: nat)"

lemma nat_to_dec_digits: "c \<in> set (nat_to_dec n) \<Longrightarrow> is_digit c"
proof (induction n rule: nat_to_dec.induct)
  case (1 n)
  have "is_digit (digit_char d)" if "d < 10" for d
    using that by (simp add: is_digit_def of_char_digit)
  with "1" show ?case
    by (subst (asm) nat_to_dec.simps) (auto split: if_splits)
qed

lemma is_digit_simps:
  assumes "is_digit c"
  shows "c \<noteq> CHR ''+''" "c \<noteq> CHR 0x22" "c \<noteq> CHR 0x5C"
    "c \<noteq> CHR 0x0A" "c \<noteq> CHR 0x0D" "c \<noteq> CHR '' ''"
  using assms by (auto simp: is_digit_def)

lemma parse_uint_nat_to_dec:
  assumes n: "n \<le> mx"
  shows "parse_uint 10 mx (nat_to_dec n) = Some n"
proof -
  obtain c t where d: "nat_to_dec n = c # t"
    using nat_to_dec_nonempty [of n] by (meson list.exhaust)
  then have "c \<noteq> CHR ''+''"
    using nat_to_dec_digits [of c n] by (auto dest: is_digit_simps(1))
  moreover from d have "digits_val 10 0 (c # t) = Some n"
    using digits_val_nat_to_dec [of n] by simp
  ultimately show ?thesis using n by (simp add: parse_uint_def d del: digits_val.simps)
qed

lemma parse_uint_bound: "parse_uint radix mx s = Some v \<Longrightarrow> v \<le> mx"
  by (auto simp: parse_uint_def Let_def split: list.splits if_splits option.splits)

end
