(* ===== verification/Utf8.thy ===== *)
theory Utf8
  imports Prelude
begin

text \<open>
  UTF-8 as Rust's standard library treats it: validity (\<open>str::from_utf8\<close>), the lossy decoding
  that puts U+FFFD for every maximal ill-formed sequence (\<open>String::from_utf8_lossy\<close>), the
  iteration by characters (\<open>Chars::take\<close>) and the encoding of one scalar value
  (\<open>char::from_u32\<close> and \<open>String::push\<close>).  Byte strings and Rust strings are both HOL strings; a
  Rust \<open>str\<close> is one that is valid.
\<close>

definition bv :: "char \<Rightarrow> nat" where
  "bv c = of_char c"

definition cont_byte :: "char \<Rightarrow> bool" where
  "cont_byte c \<longleftrightarrow> 128 \<le> bv c \<and> bv c < 192"

text \<open>The second byte of a three or four byte sequence, given the first.\<close>

definition second3 :: "nat \<Rightarrow> char \<Rightarrow> bool" where
  "second3 n0 c \<longleftrightarrow>
     cont_byte c \<and> (n0 = 224 \<longrightarrow> 160 \<le> bv c) \<and> (n0 = 237 \<longrightarrow> bv c < 160)"

definition second4 :: "nat \<Rightarrow> char \<Rightarrow> bool" where
  "second4 n0 c \<longleftrightarrow>
     cont_byte c \<and> (n0 = 240 \<longrightarrow> 144 \<le> bv c) \<and> (n0 = 244 \<longrightarrow> bv c < 144)"

text \<open>The tests the bytes after the first one have to pass; \<open>None\<close> for a byte that starts
  nothing.\<close>

definition follow_tests :: "char \<Rightarrow> (char \<Rightarrow> bool) list option" where
  "follow_tests b0 =
     (let n0 = bv b0 in
      if n0 < 128 then Some []
      else if 194 \<le> n0 \<and> n0 < 224 then Some [cont_byte]
      else if 224 \<le> n0 \<and> n0 < 240 then Some [second3 n0, cont_byte]
      else if 240 \<le> n0 \<and> n0 < 245 then Some [second4 n0, cont_byte, cont_byte]
      else None)"

fun follow :: "(char \<Rightarrow> bool) list \<Rightarrow> str \<Rightarrow> nat" where
  "follow [] s = 0"
| "follow (p # ps) [] = 0"
| "follow (p # ps) (c # s) = (if p c then Suc (follow ps s) else 0)"

text \<open>
  The sequence at the front of a non-empty byte string: whether it is well-formed, and how many
  bytes it has.  An ill-formed sequence extends to the byte before the one that cannot follow.
\<close>

fun utf8_step :: "str \<Rightarrow> bool \<times> nat" where
  "utf8_step [] = (True, 1)"
| "utf8_step (b0 # s) =
     (case follow_tests b0 of
        None \<Rightarrow> (False, 1)
      | Some ps \<Rightarrow> (follow ps s = length ps, Suc (follow ps s)))"

declare utf8_step.simps(2) [simp del]

lemma follow_le: "follow ps s \<le> length s"
  by (induction ps s rule: follow.induct) auto

lemma follow_le_tests: "follow ps s \<le> length ps"
  by (induction ps s rule: follow.induct) auto

lemma follow_append: "follow ps s = length ps \<Longrightarrow> follow ps (s @ t) = length ps"
  by (induction ps s rule: follow.induct) (auto split: if_splits)

lemma follow_take: "follow ps s = length ps \<Longrightarrow> follow ps (take (length ps) s) = length ps"
  by (induction ps s rule: follow.induct) (auto split: if_splits)

lemma utf8_step_pos [simp]: "0 < snd (utf8_step s)"
  by (cases s) (auto simp: utf8_step.simps(2) split: option.splits)

lemma utf8_step_le: "s \<noteq> [] \<Longrightarrow> snd (utf8_step s) \<le> length s"
  by (cases s) (auto simp: utf8_step.simps(2) follow_le split: option.splits)

function utf8_valid :: "str \<Rightarrow> bool" where
  "utf8_valid [] = True"
| "utf8_valid (b # s) =
     (fst (utf8_step (b # s)) \<and> utf8_valid (drop (snd (utf8_step (b # s))) (b # s)))"
  by pat_completeness auto
termination
  by (relation "measure length") (auto intro: diff_less)

definition replacement :: str where
  "replacement = [CHR 0xEF, CHR 0xBF, CHR 0xBD]"

function from_utf8_lossy :: "str \<Rightarrow> str" where
  "from_utf8_lossy [] = []"
| "from_utf8_lossy (b # s) =
     (let (ok, n) = utf8_step (b # s)
      in (if ok then take n (b # s) else replacement) @ from_utf8_lossy (drop n (b # s)))"
  by pat_completeness auto
termination
  by (relation "measure length")
    (auto simp: prod_eq_iff intro!: diff_less)

declare utf8_valid.simps(2) [simp del] from_utf8_lossy.simps(2) [simp del]

definition from_utf8 :: "str \<Rightarrow> str option" where
  "from_utf8 s = (if utf8_valid s then Some s else None)"

lemma utf8_valid_lossy: "utf8_valid s \<Longrightarrow> from_utf8_lossy s = s"
proof (induction s rule: utf8_valid.induct)
  case (2 b s)
  obtain ok n where st: "utf8_step (b # s) = (ok, n)" by (cases "utf8_step (b # s)")
  with "2.prems" have ok: "ok" and v: "utf8_valid (drop n (b # s))"
    by (simp_all add: utf8_valid.simps(2))
  from "2.IH" v st have "from_utf8_lossy (drop n (b # s)) = drop n (b # s)" by simp
  then show ?case by (simp only: from_utf8_lossy.simps(2) st ok Let_def prod.case if_True
        append_take_drop_id)
qed simp

text \<open>Bytes below 128 are characters of their own.\<close>

definition ascii :: "str \<Rightarrow> bool" where
  "ascii s \<longleftrightarrow> (\<forall>c \<in> set s. bv c < 128)"

lemma ascii_simps [simp]:
  "ascii []" "ascii (c # s) \<longleftrightarrow> bv c < 128 \<and> ascii s" "ascii (s @ t) \<longleftrightarrow> ascii s \<and> ascii t"
  by (auto simp: ascii_def)

lemma utf8_step_ascii [simp]: "bv c < 128 \<Longrightarrow> utf8_step (c # s) = (True, 1)"
  by (simp add: utf8_step.simps(2) follow_tests_def)

lemma utf8_valid_Cons_ascii [simp]: "bv c < 128 \<Longrightarrow> utf8_valid (c # s) = utf8_valid s"
  by (simp add: utf8_valid.simps(2))

lemma utf8_valid_ascii: "ascii s \<Longrightarrow> utf8_valid s"
  by (induction s) auto

text \<open>Whether a sequence is well-formed depends on its own bytes only.\<close>

lemma utf8_step_append: "fst (utf8_step (b # s)) \<Longrightarrow> utf8_step (b # s @ t) = utf8_step (b # s)"
  by (auto simp: utf8_step.simps(2) follow_append split: option.splits)

lemma utf8_valid_append: "utf8_valid s \<Longrightarrow> utf8_valid (s @ t) = utf8_valid t"
proof (induction s rule: utf8_valid.induct)
  case (2 b s)
  let ?n = "snd (utf8_step (b # s))"
  from "2.prems" have ok: "fst (utf8_step (b # s))" and v: "utf8_valid (drop ?n (b # s))"
    by (simp_all add: utf8_valid.simps(2))
  have n: "?n \<le> length (b # s)" by (rule utf8_step_le) simp
  have "utf8_valid ((b # s) @ t) = utf8_valid (drop ?n ((b # s) @ t))"
    using ok by (simp add: utf8_valid.simps(2) utf8_step_append)
  also have "drop ?n ((b # s) @ t) = drop ?n (b # s) @ t"
    using n by (simp only: drop_append diff_is_0_eq [THEN iffD2] drop_0)
  finally show ?case using "2.IH" [OF v] by simp
qed simp

lemma utf8_step_replacement [simp]: "utf8_step (replacement @ t) = (True, 3)"
  by (simp add: replacement_def utf8_step.simps(2) follow_tests_def bv_def second3_def cont_byte_def)

lemma utf8_valid_replacement [simp]: "utf8_valid replacement"
proof -
  have "utf8_step replacement = (True, 3)" using utf8_step_replacement [of "[]"] by simp
  then show ?thesis by (simp add: replacement_def utf8_valid.simps(2))
qed

lemma utf8_valid_take_step:
  assumes "fst (utf8_step (b # s))"
  shows "utf8_valid (take (snd (utf8_step (b # s))) (b # s))"
proof -
  from assms obtain ps where ps: "follow_tests b = Some ps" and f: "follow ps s = length ps"
    by (auto simp: utf8_step.simps(2) split: option.splits)
  let ?t = "take (length ps) s"
  have len: "length ps \<le> length s" using follow_le [of ps s] f by simp
  have st: "utf8_step (b # ?t) = (True, Suc (length ps))"
    using ps follow_take [OF f] by (simp add: utf8_step.simps(2))
  have "utf8_valid (b # ?t)"
    using len by (simp add: utf8_valid.simps(2) st)
  then show ?thesis using ps f by (simp add: utf8_step.simps(2))
qed

text \<open>A lossy decoding is always a Rust string.\<close>

lemma utf8_valid_from_utf8_lossy [simp]: "utf8_valid (from_utf8_lossy s)"
proof (induction s rule: from_utf8_lossy.induct)
  case (2 b s)
  obtain ok n where st: "utf8_step (b # s) = (ok, n)" by (cases "utf8_step (b # s)")
  have "utf8_valid (if ok then take n (b # s) else replacement)"
    using utf8_valid_take_step [of b s] st by auto
  moreover have "utf8_valid (from_utf8_lossy (drop n (b # s)))"
    using "2.IH" [of "(ok, n)" ok n] st by simp
  ultimately show ?case
    by (simp only: from_utf8_lossy.simps(2) st Let_def prod.case utf8_valid_append)
qed simp

subsection \<open>Characters\<close>

text \<open>\<open>chars.by_ref().take(k).collect()\<close>: the bytes of the first \<open>k\<close> characters, and the rest.\<close>

fun take_chars :: "nat \<Rightarrow> str \<Rightarrow> str \<times> str" where
  "take_chars 0 s = ([], s)"
| "take_chars (Suc k) s =
     (if s = [] then ([], [])
      else (let n = snd (utf8_step s); (a, b) = take_chars k (drop n s) in (take n s @ a, b)))"

lemma take_chars_append: "fst (take_chars k s) @ snd (take_chars k s) = s"
proof (induction k arbitrary: s)
  case (Suc k)
  show ?case
  proof (cases "s = []")
    case False
    let ?n = "snd (utf8_step s)"
    have "fst (take_chars k (drop ?n s)) @ snd (take_chars k (drop ?n s)) = drop ?n s"
      by (rule Suc.IH)
    with False show ?thesis by (simp add: Let_def split_beta)
  qed simp
qed simp

text \<open>\<open>char::from_u32\<close> is \<open>None\<close> on surrogates and beyond U+10FFFF.\<close>

definition is_scalar :: "nat \<Rightarrow> bool" where
  "is_scalar cp \<longleftrightarrow> cp < 0xD800 \<or> 0xE000 \<le> cp \<and> cp < 0x110000"

definition encode_utf8 :: "nat \<Rightarrow> str" where
  "encode_utf8 cp =
     (if cp < 0x80 then [char_of cp]
      else if cp < 0x800 then [char_of (0xC0 + cp div 64), char_of (0x80 + cp mod 64)]
      else if cp < 0x10000 then
        [char_of (0xE0 + cp div 4096), char_of (0x80 + cp div 64 mod 64), char_of (0x80 + cp mod 64)]
      else
        [char_of (0xF0 + cp div 262144), char_of (0x80 + cp div 4096 mod 64),
         char_of (0x80 + cp div 64 mod 64), char_of (0x80 + cp mod 64)])"

end
