(* ===== verification/Channel.thy ===== *)
theory Channel
  imports Prelude Utf8
begin

text \<open>
  The transports of \<^verbatim>\<open>src/channel.rs\<close>.

  The shared-memory ring buffer is modelled on its own storage: two free-running 32-bit counters,
  a byte array, and the writes at the counter modulo the capacity, with the wrap-around of the
  machine arithmetic.  The contract of a message queue is the locale \<open>message_fifo\<close>; the ring
  buffer, and the unbounded channels of the standard library that the WebSocket and the C
  interfaces use, are its two interpretations.  The clock of a channel is modelled by the system
  calls it makes.
\<close>

section \<open>The clock\<close>

text \<open>The system calls of a clock; the descriptor comes first.\<close>

datatype syscall = Sys_write int "byte list" | Sys_read int nat | Sys_close int

record clock =
  read_fd :: int
  write_fd :: int

text \<open>
  \<open>Clock::new\<close>: on Linux one descriptor serves both ends, elsewhere a pipe gives two.  The
  descriptors (or the failure of the call, a negative number) come from the system.
\<close>

definition clock_new_linux :: "int \<Rightarrow> clock option" where
  "clock_new_linux fd = (if fd < 0 then None else Some \<lparr>read_fd = fd, write_fd = fd\<rparr>)"

definition clock_new_pipe :: "int \<Rightarrow> int \<times> int \<Rightarrow> clock option" where
  "clock_new_pipe rc fds = (if rc \<noteq> 0 then None else Some \<lparr>read_fd = fst fds, write_fd = snd fds\<rparr>)"

definition clock_signal :: "clock \<Rightarrow> syscall list" where
  "clock_signal c = [Sys_write (write_fd c) [1]]"

definition clock_consume :: "clock \<Rightarrow> syscall list" where
  "clock_consume c = [Sys_read (read_fd c) 8]"

definition clock_drop :: "clock \<Rightarrow> syscall list" where
  "clock_drop c = Sys_close (read_fd c) # (if write_fd c \<noteq> read_fd c then [Sys_close (write_fd c)] else [])"

text \<open>A kernel executes system calls one after the other.\<close>

definition run_syscalls :: "('os \<Rightarrow> syscall \<Rightarrow> 'os) \<Rightarrow> 'os \<Rightarrow> syscall list \<Rightarrow> 'os" where
  "run_syscalls step os cs = fold (\<lambda>c s. step s c) cs os"

lemma run_syscalls_Nil [simp]: "run_syscalls step os [] = os"
  by (simp add: run_syscalls_def)

lemma run_syscalls_Cons [simp]: "run_syscalls step os (c # cs) = run_syscalls step (step os c) cs"
  by (simp add: run_syscalls_def)

lemma run_syscalls_append [simp]:
  "run_syscalls step os (cs @ ds) = run_syscalls step (run_syscalls step os cs) ds"
  by (simp add: run_syscalls_def)

section \<open>The ring buffer\<close>

record ring =
  rb_head :: u32
  rb_tail :: u32
  rb_buf :: "byte list"
  rb_capacity :: u32

definition ring_new :: "nat \<Rightarrow> ring" where
  "ring_new capacity =
    \<lparr>rb_head = 0, rb_tail = 0, rb_buf = replicate capacity 0, rb_capacity = of_nat capacity\<rparr>"

text \<open>\<open>u32::to_le_bytes\<close> and \<open>u32::from_le_bytes\<close>.\<close>

definition to_le :: "u32 \<Rightarrow> byte list" where
  "to_le w = [ucast w, ucast (drop_bit 8 w), ucast (drop_bit 16 w), ucast (drop_bit 24 w)]"

definition from_le :: "byte list \<Rightarrow> u32" where
  "from_le bs = foldr (\<lambda>b w. ucast b + 256 * w) bs 0"

text \<open>The two loops of \<open>push\<close> and of \<open>pop\<close>: one byte per index, at the counter modulo the capacity.\<close>

fun write_from :: "u32 \<Rightarrow> u32 \<Rightarrow> byte list \<Rightarrow> byte list \<Rightarrow> byte list" where
  "write_from cap pos [] buf = buf"
| "write_from cap pos (b # bs) buf = write_from cap (pos + 1) bs (buf[unat (pos mod cap) := b])"

fun read_from :: "u32 \<Rightarrow> u32 \<Rightarrow> nat \<Rightarrow> byte list \<Rightarrow> byte list" where
  "read_from cap pos 0 buf = []"
| "read_from cap pos (Suc n) buf = buf ! unat (pos mod cap) # read_from cap (pos + 1) n buf"

definition ring_push :: "ring \<Rightarrow> byte list \<Rightarrow> ring \<times> bool" where
  "ring_push r data =
    (let len = of_nat (length data) :: u32;
         total = 4 + len;
         used = rb_head r - rb_tail r;
         free = rb_capacity r - used
     in if total > free then (r, False)
        else (r\<lparr>rb_buf := write_from (rb_capacity r) (rb_head r + 4) data
                            (write_from (rb_capacity r) (rb_head r) (to_le len) (rb_buf r)),
                rb_head := rb_head r + total\<rparr>, True))"

definition ring_pop :: "ring \<Rightarrow> ring \<times> byte list option" where
  "ring_pop r =
    (if rb_tail r = rb_head r then (r, None)
     else let len = from_le (read_from (rb_capacity r) (rb_tail r) 4 (rb_buf r));
              data = read_from (rb_capacity r) (rb_tail r + 4) (unat len) (rb_buf r)
          in (r\<lparr>rb_tail := rb_tail r + (4 + len)\<rparr>, Some data))"

text \<open>
  The counters advance with \<open>wrapping_add\<close>, but the index of a byte is computed with the plain
  addition, which panics on overflow in a build with overflow checks.  \<open>push_overflows\<close> is the
  condition under which such a build panics in \<open>push\<close>.
\<close>

definition push_overflows :: "ring \<Rightarrow> byte list \<Rightarrow> bool" where
  "push_overflows r data =
    (let len = length data mod 2 ^ 32 in
     4 + len \<ge> 2 ^ 32 \<or>
     unat (rb_capacity r) < unat (rb_head r - rb_tail r) \<or>
     snd (ring_push r data) \<and>
       unat (rb_head r) + (if data = [] then 3 else 4 + (length data - 1)) \<ge> 2 ^ 32)"

section \<open>Length-prefixed frames\<close>

definition frame :: "byte list \<Rightarrow> byte list" where
  "frame m = to_le (of_nat (length m)) @ m"

text \<open>A reader of a byte stream that cuts it back into its messages.\<close>

function unframe :: "byte list \<Rightarrow> byte list list" where
  "unframe bs =
    (if length bs < 4 then []
     else let n = unat (from_le (take 4 bs))
          in take n (drop 4 bs) # unframe (drop (4 + n) bs))"
  by pat_completeness auto
termination by (relation "measure length") auto

declare unframe.simps [simp del]

lemma length_to_le [simp]: "length (to_le w) = 4"
  by (simp add: to_le_def)

lemma to_le_nonempty [simp]: "to_le w \<noteq> []"
  by (simp add: to_le_def)

lemma ucast_byte_drop: "(ucast (ucast (drop_bit k w) :: byte) :: u32) = of_nat (unat w div 2 ^ k mod 256)"
proof -
  have "unat (ucast (drop_bit k w) :: byte) = unat w div 2 ^ k mod 256"
    by (simp add: unsigned_ucast_eq unat_drop_bit_eq take_bit_eq_mod drop_bit_eq_div [of k "unat w"])
  then show ?thesis
    by (metis of_nat_unat)
qed

lemma base256:
  assumes "n < 2 ^ 32"
  shows "n mod 256 + 256 * (n div 2 ^ 8 mod 256
          + 256 * (n div 2 ^ 16 mod 256 + 256 * (n div 2 ^ 24 mod 256))) = (n :: nat)"
proof -
  define a b c where "a = n div 256" and "b = a div 256" and "c = b div 256"
  have "n div 2 ^ 8 = a" "n div 2 ^ 16 = b" "n div 2 ^ 24 = c"
    by (simp_all add: a_def b_def c_def div_mult2_eq [symmetric])
  moreover have "c mod 256 = c"
    using assms by (simp add: a_def b_def c_def div_mult2_eq [symmetric] less_mult_imp_div_less)
  moreover have "n = n mod 256 + 256 * a" "a = a mod 256 + 256 * b" "b = b mod 256 + 256 * c"
    by (simp_all add: a_def b_def c_def)
  ultimately show ?thesis by presburger
qed

lemma from_le_to_le [simp]: "from_le (to_le w) = w"
proof -
  define n where "n = unat w"
  have n: "n < 2 ^ 32" and w: "w = of_nat n" using unsigned_less [of w] by (simp_all add: n_def)
  have "from_le (to_le w) = of_nat (n mod 256) + 256 * (of_nat (n div 2 ^ 8 mod 256)
          + 256 * (of_nat (n div 2 ^ 16 mod 256) + 256 * of_nat (n div 2 ^ 24 mod 256)))"
    using ucast_byte_drop [of 0 w] ucast_byte_drop [of 8 w] ucast_byte_drop [of 16 w]
      ucast_byte_drop [of 24 w]
    by (simp add: from_le_def to_le_def n_def del: of_nat_mod of_nat_div)
  also have "\<dots> = of_nat (n mod 256 + 256 * (n div 2 ^ 8 mod 256
          + 256 * (n div 2 ^ 16 mod 256 + 256 * (n div 2 ^ 24 mod 256))))"
    by (simp only: of_nat_add of_nat_mult of_nat_numeral)
  finally show ?thesis using w by (simp only: base256 [OF n])
qed

lemma unframe_Nil [simp]: "unframe [] = []"
  by (simp add: unframe.simps)

lemma unframe_frame: "length m < 2 ^ 32 \<Longrightarrow> unframe (frame m @ bs) = m # unframe bs"
  by (subst unframe.simps) (simp add: frame_def unat_of_nat)

lemma unframe_concat:
  "\<forall>m \<in> set ms. length m < 2 ^ 32 \<Longrightarrow> unframe (concat (map frame ms)) = ms"
  by (induction ms) (simp_all add: unframe_frame)

lemma length_frame [simp]: "length (frame m) = 4 + length m"
  by (simp add: frame_def)

section \<open>The bytes in flight\<close>

text \<open>
  The index of the \<open>i\<close>-th byte after a counter, once the capacity divides the range of the counter:
  the wrap-around of the counter then does not show.
\<close>

definition slot :: "u32 \<Rightarrow> u32 \<Rightarrow> nat \<Rightarrow> nat" where
  "slot cap pos i = (unat pos + i) mod unat cap"

lemma slot_word:
  assumes "unat cap dvd 2 ^ 32"
  shows "unat ((pos + of_nat i) mod cap) = slot cap pos i"
proof -
  have "unat (pos + of_nat i) = (unat pos + i) mod 2 ^ 32"
    by (simp add: unat_word_ariths unat_of_nat mod_add_right_eq)
  then show ?thesis
    using assms by (simp add: unat_mod_distrib slot_def mod_mod_cancel)
qed

lemma slot_plus: "unat cap dvd 2 ^ 32 \<Longrightarrow> slot cap (pos + of_nat k) i = slot cap pos (k + i)"
  using slot_word [of cap pos "k + i"] slot_word [of cap "pos + of_nat k" i] by (simp add: add.assoc)

lemma slot_bound: "0 < unat cap \<Longrightarrow> slot cap pos i < unat cap"
  by (simp add: slot_def)

lemma slot_inj:
  assumes "slot cap pos i = slot cap pos j" "i < unat cap" "j < unat cap"
  shows "i = j"
proof -
  have "int (unat pos + i) mod int (unat cap) = int (unat pos + j) mod int (unat cap)"
    using assms(1) by (simp only: slot_def of_nat_mod [symmetric])
  then have "(int (unat pos + i) - int (unat pos)) mod int (unat cap)
      = (int (unat pos + j) - int (unat pos)) mod int (unat cap)"
    by (rule mod_diff_cong) simp
  then have "int (i mod unat cap) = int (j mod unat cap)"
    by (simp add: of_nat_mod)
  then show ?thesis using assms(2,3) by simp
qed

lemma read_from_slots:
  "unat cap dvd 2 ^ 32 \<Longrightarrow> read_from cap pos n buf = map (\<lambda>i. buf ! slot cap pos i) [0..<n]"
proof (induction n arbitrary: pos)
  case (Suc n)
  have "map (\<lambda>i. buf ! slot cap pos i) [0..<Suc n]
      = buf ! slot cap pos 0 # map (\<lambda>i. buf ! slot cap pos (1 + i)) [0..<n]"
    by (simp add: upt_conv_Cons map_Suc_upt [symmetric] del: upt_Suc)
  also have "\<dots> = buf ! slot cap pos 0 # map (\<lambda>i. buf ! slot cap (pos + 1) i) [0..<n]"
    using slot_plus [OF Suc.prems, of pos 1] by simp
  finally show ?case using Suc slot_word [OF Suc.prems, of pos 0] by simp
qed simp

lemma length_read_from [simp]: "length (read_from cap pos n buf) = n"
  by (induction n arbitrary: pos) simp_all

lemma read_from_append:
  "read_from cap pos (m + n) buf = read_from cap pos m buf @ read_from cap (pos + of_nat m) n buf"
  by (induction m arbitrary: pos) (simp_all add: add.assoc)

lemma length_write_from [simp]: "length (write_from cap pos bs buf) = length buf"
  by (induction cap pos bs buf rule: write_from.induct) simp_all

lemma write_from_append:
  "write_from cap pos (as @ bs) buf
    = write_from cap (pos + of_nat (length as)) bs (write_from cap pos as buf)"
  by (induction cap pos as buf rule: write_from.induct) (simp_all add: add.assoc)

lemma write_from_outside:
  "unat cap dvd 2 ^ 32 \<Longrightarrow> \<forall>i < length bs. slot cap pos i \<noteq> j \<Longrightarrow> write_from cap pos bs buf ! j = buf ! j"
proof (induction cap pos bs buf rule: write_from.induct)
  case (2 cap pos b bs buf)
  have "slot cap pos 0 \<noteq> j" using "2.prems" by auto
  moreover have "\<forall>i < length bs. slot cap (pos + 1) i \<noteq> j"
    using "2.prems" slot_plus [OF "2.prems"(1), of pos 1] by auto
  ultimately show ?case using 2 slot_word [of cap pos 0] by simp
qed simp

lemma write_from_inside:
  "unat cap dvd 2 ^ 32 \<Longrightarrow> 0 < unat cap \<Longrightarrow> length buf = unat cap \<Longrightarrow> length bs \<le> unat cap \<Longrightarrow>
    i < length bs \<Longrightarrow> write_from cap pos bs buf ! slot cap pos i = bs ! i"
proof (induction cap pos bs buf arbitrary: i rule: write_from.induct)
  case (2 cap pos b bs buf)
  let ?buf = "buf[slot cap pos 0 := b]"
  have w: "write_from cap pos (b # bs) buf = write_from cap (pos + 1) bs ?buf"
    using slot_word [OF "2.prems"(1), of pos 0] by simp
  have s: "slot cap (pos + 1) k = slot cap pos (Suc k)" for k
    using slot_plus [OF "2.prems"(1), of pos 1 k] by simp
  show ?case
  proof (cases i)
    case 0
    have "write_from cap (pos + 1) bs ?buf ! slot cap pos 0 = ?buf ! slot cap pos 0"
    proof (rule write_from_outside [OF "2.prems"(1)], intro allI impI)
      fix k assume k: "k < length bs"
      show "slot cap (pos + 1) k \<noteq> slot cap pos 0"
        using slot_inj [of cap pos "Suc k" 0] k "2.prems" s by auto
    qed
    then show ?thesis using 0 w "2.prems" slot_bound [of cap pos 0] by simp
  next
    case (Suc k)
    have "write_from cap (pos + 1) bs ?buf ! slot cap (pos + 1) k = bs ! k"
      using 2 Suc slot_word [OF "2.prems"(1), of pos 0] by simp
    then show ?thesis using Suc w s by simp
  qed
qed simp

definition ring_used :: "ring \<Rightarrow> nat" where
  "ring_used r = unat (rb_head r - rb_tail r)"

definition ring_bytes :: "ring \<Rightarrow> byte list" where
  "ring_bytes r = read_from (rb_capacity r) (rb_tail r) (ring_used r) (rb_buf r)"

definition ring_msgs :: "ring \<Rightarrow> byte list list" where
  "ring_msgs r = unframe (ring_bytes r)"

definition ring_inv :: "ring \<Rightarrow> bool" where
  "ring_inv r \<longleftrightarrow> 0 < unat (rb_capacity r) \<and> unat (rb_capacity r) dvd 2 ^ 32 \<and>
     length (rb_buf r) = unat (rb_capacity r) \<and> ring_used r \<le> unat (rb_capacity r) \<and>
     ring_bytes r = concat (map frame (ring_msgs r))"

definition sendable :: "byte list \<Rightarrow> bool" where
  "sendable m \<longleftrightarrow> length m + 4 < 2 ^ 32"

lemma sendable_length: "sendable m \<Longrightarrow> length m < 2 ^ 32"
  unfolding sendable_def by linarith

definition frames_size :: "byte list list \<Rightarrow> nat" where
  "frames_size ms = length (concat (map frame ms))"

lemma frames_size_simps [simp]:
  shows "frames_size [] = 0"
    and "frames_size (m # ms) = 4 + length m + frames_size ms"
    and "frames_size (ms @ ns) = frames_size ms + frames_size ns"
  by (simp_all add: frames_size_def)

lemma ring_used_size: "ring_inv r \<Longrightarrow> ring_used r = frames_size (ring_msgs r)"
  by (metis frames_size_def length_read_from ring_bytes_def ring_inv_def)

lemma unat_add_small: "unat a + unat b < 2 ^ 32 \<Longrightarrow> unat (a + b) = unat a + unat b" for a b :: u32
  by (simp add: unat_word_ariths(1))

lemma unat_total: "sendable m \<Longrightarrow> unat (4 + of_nat (length m) :: u32) = 4 + length m"
  by (simp add: sendable_def unat_word_ariths unat_of_nat)

lemma unat_free:
  "ring_used r \<le> unat (rb_capacity r) \<Longrightarrow>
    unat (rb_capacity r - (rb_head r - rb_tail r)) = unat (rb_capacity r) - ring_used r"
  unfolding ring_used_def by (metis unat_sub word_le_nat_alt)

lemma ring_push_accepts_iff:
  assumes "ring_inv r" "sendable m"
  shows "snd (ring_push r m) \<longleftrightarrow> ring_used r + 4 + length m \<le> unat (rb_capacity r)"
proof -
  have "4 + of_nat (length m) > rb_capacity r - (rb_head r - rb_tail r)
      \<longleftrightarrow> 4 + length m > unat (rb_capacity r) - ring_used r"
    using unat_free [of r] unat_total [OF assms(2)] assms(1)
    by (simp add: word_less_nat_alt ring_inv_def)
  then show ?thesis using assms(1) by (simp add: ring_push_def Let_def ring_inv_def) arith
qed

lemma ring_push_rejected: "\<not> snd (ring_push r m) \<Longrightarrow> fst (ring_push r m) = r"
  by (simp add: ring_push_def Let_def split: if_splits)

text \<open>An accepted push stores exactly the frame after the bytes in flight.\<close>

lemma ring_push_state:
  assumes "snd (ring_push r m)"
  shows "fst (ring_push r m) = r\<lparr>rb_buf := write_from (rb_capacity r) (rb_head r) (frame m) (rb_buf r),
      rb_head := rb_head r + (4 + of_nat (length m))\<rparr>"
  using assms by (simp add: ring_push_def Let_def frame_def write_from_append split: if_splits)

lemma ring_push_used:
  assumes inv: "ring_inv r" and ok: "sendable m" and acc: "snd (ring_push r m)"
  shows "ring_used (fst (ring_push r m)) = ring_used r + (4 + length m)"
proof -
  have "unat (rb_capacity r) < 2 ^ 32"
    using unsigned_less [of "rb_capacity r", where 'a = nat] by simp
  then have "unat (rb_head r - rb_tail r) + unat (4 + of_nat (length m) :: u32) < 2 ^ 32"
    using ring_push_accepts_iff [OF inv ok] acc unfolding unat_total [OF ok] ring_used_def by linarith
  then have "unat (rb_head r - rb_tail r + (4 + of_nat (length m))) = ring_used r + (4 + length m)"
    by (simp only: unat_add_small unat_total [OF ok] ring_used_def)
  then show ?thesis
    by (simp add: ring_push_state [OF acc] ring_used_def diff_add_eq)
qed

lemma map_upt_split: "map f [0..<m + n] = map f [0..<m] @ map (\<lambda>i. f (m + i)) [0..<n]"
  by (induction n) simp_all

lemma ring_push_bytes:
  assumes inv: "ring_inv r" and ok: "sendable m" and acc: "snd (ring_push r m)"
  shows "ring_bytes (fst (ring_push r m)) = ring_bytes r @ frame m"
proof -
  define c where "c = rb_capacity r"
  define u where "u = ring_used r"
  define n where "n = 4 + length m"
  define b where "b = write_from c (rb_head r) (frame m) (rb_buf r)"
  have fits: "u + n \<le> unat c"
    using ring_push_accepts_iff [OF inv ok] acc by (simp add: c_def u_def n_def)
  have c: "0 < unat c" "unat c dvd 2 ^ 32" "length (rb_buf r) = unat c"
    using inv by (simp_all add: ring_inv_def c_def)
  have len: "length (frame m) = n" by (simp add: n_def)
  have head: "slot c (rb_head r) i = slot c (rb_tail r) (u + i)" for i
    using slot_plus [OF c(2), of "rb_tail r" u i] by (simp add: u_def ring_used_def)
  have old: "b ! slot c (rb_tail r) i = rb_buf r ! slot c (rb_tail r) i" if "i < u" for i
    unfolding b_def
  proof (rule write_from_outside [OF c(2)], intro allI impI)
    fix k assume "k < length (frame m)"
    then show "slot c (rb_head r) k \<noteq> slot c (rb_tail r) i"
      using slot_inj [of c "rb_tail r" "u + k" i] that fits head len by auto
  qed
  have new: "b ! slot c (rb_tail r) (u + i) = frame m ! i" if "i < n" for i
    using write_from_inside [OF c(2,1,3), of "frame m" i "rb_head r"] that fits head len
    by (simp add: b_def)
  have "ring_bytes (fst (ring_push r m)) = read_from c (rb_tail r) (u + n) b"
    using ring_push_used [OF inv ok acc]
    by (simp add: ring_bytes_def n_def u_def) (simp add: ring_push_state [OF acc] b_def c_def)
  also have "\<dots> = map (\<lambda>i. b ! slot c (rb_tail r) i) [0..<u]
      @ map (\<lambda>i. b ! slot c (rb_tail r) (u + i)) [0..<n]"
    by (simp only: read_from_slots [OF c(2)] map_upt_split)
  also have "map (\<lambda>i. b ! slot c (rb_tail r) i) [0..<u] = ring_bytes r"
    using old unfolding ring_bytes_def c_def [symmetric] u_def [symmetric]
    by (simp only: read_from_slots [OF c(2)]) simp
  also have "map (\<lambda>i. b ! slot c (rb_tail r) (u + i)) [0..<n] = map (\<lambda>i. frame m ! i) [0..<length (frame m)]"
    using new unfolding len by simp
  finally show ?thesis by (simp only: map_nth)
qed

lemma ring_push_fixes [simp]:
  shows "rb_capacity (fst (ring_push r m)) = rb_capacity r"
    and "rb_tail (fst (ring_push r m)) = rb_tail r"
    and "length (rb_buf (fst (ring_push r m))) = length (rb_buf r)"
  by (simp_all add: ring_push_def Let_def)

lemma ring_msgs_length: "ring_inv r \<Longrightarrow> m \<in> set (ring_msgs r) \<Longrightarrow> length m + 4 \<le> unat (rb_capacity r)"
  using split_list [of m "ring_msgs r"] ring_used_size [of r] by (auto simp: ring_inv_def)

lemma unat_capacity: "ring_inv r \<Longrightarrow> unat (rb_capacity r) < 2 ^ 32"
  using unsigned_less [of "rb_capacity r", where 'a = nat] by simp

lemma ring_msgs_sendable: "ring_inv r \<Longrightarrow> m \<in> set (ring_msgs r) \<Longrightarrow> sendable m"
  using ring_msgs_length [of r m] unat_capacity [of r] unfolding sendable_def by linarith

lemma ring_push_msgs:
  assumes inv: "ring_inv r" and ok: "sendable m"
  shows "ring_msgs (fst (ring_push r m))
      = (if snd (ring_push r m) then ring_msgs r @ [m] else ring_msgs r)"
    and "ring_inv (fst (ring_push r m))"
proof -
  have "ring_msgs (fst (ring_push r m)) = ring_msgs r @ [m] \<and> ring_inv (fst (ring_push r m))"
    if acc: "snd (ring_push r m)"
  proof -
    let ?r = "fst (ring_push r m)"
    have b: "ring_bytes ?r = concat (map frame (ring_msgs r @ [m]))"
      using ring_push_bytes [OF inv ok acc] inv by (simp add: ring_inv_def)
    have "\<forall>n \<in> set (ring_msgs r @ [m]). length n < 2 ^ 32"
      using ring_msgs_sendable [OF inv] ok sendable_length by auto
    then have ms: "ring_msgs ?r = ring_msgs r @ [m]"
      unfolding ring_msgs_def [of ?r] b by (rule unframe_concat)
    have "ring_used ?r \<le> unat (rb_capacity r)"
      using ring_push_accepts_iff [OF inv ok] ring_push_used [OF inv ok acc] acc by simp
    then show ?thesis using ms b inv by (simp add: ring_inv_def)
  qed
  then show "ring_msgs (fst (ring_push r m)) = (if snd (ring_push r m) then ring_msgs r @ [m] else ring_msgs r)"
    and "ring_inv (fst (ring_push r m))"
    using inv ring_push_rejected [of r m] by (metis, metis)
qed

lemma ring_pop_empty:
  assumes "ring_inv r" "ring_msgs r = []"
  shows "ring_pop r = (r, None)"
proof -
  have "ring_used r = 0" using ring_used_size [OF assms(1)] assms(2) by simp
  then show ?thesis by (simp add: ring_used_def ring_pop_def unat_eq_0)
qed

lemma ring_pop_next:
  assumes inv: "ring_inv r" and ms: "ring_msgs r = m # ms"
  shows "\<exists>r'. ring_pop r = (r', Some m) \<and> ring_msgs r' = ms \<and> ring_inv r'"
proof -
  define c where "c = rb_capacity r"
  define t where "t = rb_tail r"
  define b where "b = rb_buf r"
  define u where "u = frames_size ms"
  have ok: "sendable m" using ring_msgs_sendable [OF inv] ms by simp
  have used: "ring_used r = 4 + (length m + u)"
    using ring_used_size [OF inv] ms by (simp add: u_def)
  have "read_from c t (4 + (length m + u)) b = frame m @ concat (map frame ms)"
    using inv ms used by (simp add: ring_inv_def ring_bytes_def c_def t_def b_def)
  then have split: "read_from c t 4 b = to_le (of_nat (length m))"
      "read_from c (t + 4) (length m) b = m"
      "read_from c (t + 4 + of_nat (length m)) u b = concat (map frame ms)"
    unfolding frame_def read_from_append by simp_all
  define r' where "r' = r\<lparr>rb_tail := t + (4 + of_nat (length m))\<rparr>"
  have "t \<noteq> rb_head r" using used by (auto simp: ring_used_def t_def)
  moreover have "unat (of_nat (length m) :: u32) = length m"
    using ok by (simp add: sendable_def unat_of_nat)
  ultimately have pop: "ring_pop r = (r', Some m)"
    by (simp add: ring_pop_def r'_def split [unfolded c_def b_def t_def] Let_def t_def)
  have "4 + of_nat (length m) \<le> rb_head r - t"
    using used unat_total [OF ok] by (simp add: word_le_nat_alt ring_used_def t_def)
  then have "unat (rb_head r - t - (4 + of_nat (length m))) = u"
    using used unat_total [OF ok] by (simp add: unat_sub ring_used_def t_def)
  then have used': "ring_used r' = u"
    by (simp add: ring_used_def r'_def algebra_simps)
  then have bytes: "ring_bytes r' = concat (map frame ms)"
    using split(3) by (simp add: ring_bytes_def r'_def c_def b_def add.assoc)
  have "\<forall>n \<in> set ms. length n < 2 ^ 32"
    using ring_msgs_sendable [OF inv] ms sendable_length by simp
  then have msgs: "ring_msgs r' = ms"
    unfolding ring_msgs_def bytes by (rule unframe_concat)
  have "ring_inv r'"
    using inv used used' bytes msgs by (simp add: ring_inv_def r'_def)
  then show ?thesis using pop msgs by blast
qed

lemma ring_new_inv: "0 < n \<Longrightarrow> n < 2 ^ 32 \<Longrightarrow> n dvd 2 ^ 32 \<Longrightarrow> ring_inv (ring_new n) \<and> ring_msgs (ring_new n) = []"
  by (simp add: ring_inv_def ring_new_def ring_used_def ring_bytes_def ring_msgs_def unat_of_nat)

section \<open>The contract of a message queue\<close>

datatype 'm queue_op = Put 'm | Get

text \<open>
  A run of operations on a queue: the final queue, the messages that were accepted, and the
  messages that were delivered, each in order.
\<close>

fun run_queue :: "('q \<Rightarrow> 'm \<Rightarrow> 'q \<times> bool) \<Rightarrow> ('q \<Rightarrow> 'q \<times> 'm option) \<Rightarrow> 'q \<Rightarrow> 'm queue_op list
    \<Rightarrow> 'q \<times> 'm list \<times> 'm list" where
  "run_queue enq deq q [] = (q, [], [])"
| "run_queue enq deq q (Put m # ops) =
    (let (q', ok) = enq q m; (q'', acc, del) = run_queue enq deq q' ops
     in (q'', if ok then m # acc else acc, del))"
| "run_queue enq deq q (Get # ops) =
    (let (q', x) = deq q; (q'', acc, del) = run_queue enq deq q' ops
     in (q'', acc, case x of None \<Rightarrow> del | Some m \<Rightarrow> m # del))"

text \<open>
  \<open>while let Some(m) = q.recv()\<close>: the loop ends when the queue says it is empty, and on a queue
  that never says so it does not end.
\<close>

partial_function (option) drain :: "('q \<Rightarrow> 'q \<times> 'm option) \<Rightarrow> 'q \<Rightarrow> ('q \<times> 'm list) option" where
  "drain deq q =
    (case deq q of
       (q', None) \<Rightarrow> Some (q', [])
     | (q', Some m) \<Rightarrow> Option.bind (drain deq q') (\<lambda>(q'', ms). Some (q'', m # ms)))"

declare drain.simps [code]

locale message_fifo =
  fixes enq :: "'q \<Rightarrow> 'm \<Rightarrow> 'q \<times> bool"
    and deq :: "'q \<Rightarrow> 'q \<times> 'm option"
    and contents :: "'q \<Rightarrow> 'm list"
    and inv :: "'q \<Rightarrow> bool"
    and ok :: "'m \<Rightarrow> bool"
  assumes enq_inv: "inv q \<Longrightarrow> ok m \<Longrightarrow> inv (fst (enq q m))"
    and enq_contents: "inv q \<Longrightarrow> ok m \<Longrightarrow>
      contents (fst (enq q m)) = (if snd (enq q m) then contents q @ [m] else contents q)"
    and deq_empty: "inv q \<Longrightarrow> contents q = [] \<Longrightarrow> deq q = (q, None)"
    and deq_next: "inv q \<Longrightarrow> contents q = m # ms \<Longrightarrow>
      \<exists>q'. deq q = (q', Some m) \<and> contents q' = ms \<and> inv q'"
begin

lemma deq_cases:
  assumes "inv q"
  obtains "contents q = []" "deq q = (q, None)"
  | m q' where "contents q = m # contents q'" "deq q = (q', Some m)" "inv q'"
  using deq_empty [OF assms] deq_next [OF assms] by (cases "contents q") blast+

text \<open>First in, first out: what has been delivered and what is still held is what was held and accepted.\<close>

lemma run_fifo:
  assumes "inv q" "\<forall>m. Put m \<in> set ops \<longrightarrow> ok m" "run_queue enq deq q ops = (q', acc, del)"
  shows "del @ contents q' = contents q @ acc \<and> inv q'"
  using assms
proof (induction ops arbitrary: q q' acc del)
  case (Cons op ops)
  show ?case
  proof (cases op)
    case (Put m)
    have m: "ok m" using Cons.prems Put by simp
    obtain q1 b where e: "enq q m = (q1, b)" by force
    obtain acc1 where r: "run_queue enq deq q1 ops = (q', acc1, del)" and acc: "acc = (if b then m # acc1 else acc1)"
      using Cons.prems(3) Put e by (auto split: prod.splits)
    have "inv q1" using enq_inv [OF Cons.prems(1) m] e by simp
    then have "del @ contents q' = contents q1 @ acc1 \<and> inv q'"
      using Cons.IH r Cons.prems(2) by simp
    then show ?thesis using enq_contents [OF Cons.prems(1) m] e acc by auto
  next
    case Get
    from Cons.prems(1) show ?thesis
    proof (cases rule: deq_cases)
      case 1
      then show ?thesis using Cons.prems Get Cons.IH [of q] by (auto split: prod.splits)
    next
      case (2 m q1)
      then show ?thesis using Cons.prems Get Cons.IH [of q1] by (auto split: prod.splits)
    qed
  qed
qed simp

text \<open>Draining ends and delivers everything that is held, in order.\<close>

lemma drain_contents:
  "inv q \<Longrightarrow> \<exists>q'. drain deq q = Some (q', contents q) \<and> contents q' = [] \<and> inv q'"
proof (induction "contents q" arbitrary: q)
  case Nil
  then show ?case by (subst drain.simps) (simp add: deq_empty)
next
  case (Cons m ms)
  obtain q1 where q1: "deq q = (q1, Some m)" "contents q1 = ms" "inv q1"
    using deq_next [OF Cons.prems Cons.hyps(2) [symmetric]] by blast
  then show ?case
    using Cons.hyps(1) [of q1] Cons.hyps(2) by (subst drain.simps) auto
qed

end

text \<open>A queue that promises when it accepts: as long as the sizes of what it holds fit a limit.\<close>

definition list_put :: "('m \<Rightarrow> nat) \<Rightarrow> nat \<Rightarrow> 'm list \<Rightarrow> 'm \<Rightarrow> 'm list \<times> bool" where
  "list_put sz limit ms m =
    (if sum_list (map sz ms) + sz m \<le> limit then (ms @ [m], True) else (ms, False))"

definition list_get :: "'m list \<Rightarrow> 'm list \<times> 'm option" where
  "list_get ms = (case ms of [] \<Rightarrow> ([], None) | m # ms' \<Rightarrow> (ms', Some m))"

locale bounded_fifo = message_fifo +
  fixes sz :: "'b \<Rightarrow> nat" and limit :: "'a \<Rightarrow> nat"
  assumes accepts_iff: "inv q \<Longrightarrow> ok m \<Longrightarrow>
      snd (enq q m) \<longleftrightarrow> sum_list (map sz (contents q)) + sz m \<le> limit q"
    and enq_limit: "limit (fst (enq q m)) = limit q"
    and deq_limit: "limit (fst (deq q)) = limit q"
begin

lemma enq_refines:
  "inv q \<Longrightarrow> ok m \<Longrightarrow> enq q m = (q', b) \<Longrightarrow> list_put sz (limit q) (contents q) m = (contents q', b)"
  using enq_contents [of q m] accepts_iff [of q m] by (auto simp: list_put_def)

lemma deq_refines:
  assumes "inv q" "deq q = (q', x)"
  shows "list_get (contents q) = (contents q', x)"
  using assms(1) by (cases rule: deq_cases) (use assms(2) in \<open>auto simp: list_get_def\<close>)

text \<open>A run on the queue is the run on the bounded list, with the same answers.\<close>

lemma run_refines:
  assumes "inv q" "\<forall>m. Put m \<in> set ops \<longrightarrow> ok m" "run_queue enq deq q ops = (q', acc, del)"
  shows "run_queue (list_put sz (limit q)) list_get (contents q) ops = (contents q', acc, del)"
  using assms
proof (induction ops arbitrary: q q' acc del)
  case (Cons op ops)
  show ?case
  proof (cases op)
    case (Put m)
    have m: "ok m" using Cons.prems Put by simp
    obtain q1 b where e: "enq q m = (q1, b)" by force
    obtain acc1 where r: "run_queue enq deq q1 ops = (q', acc1, del)" and acc: "acc = (if b then m # acc1 else acc1)"
      using Cons.prems(3) Put e by (auto split: prod.splits)
    have "inv q1" "limit q1 = limit q" using enq_inv [OF Cons.prems(1) m] enq_limit [of q m] e by simp_all
    then show ?thesis
      using Cons.IH [of q1] r acc Put Cons.prems(2) enq_refines [OF Cons.prems(1) m e] by simp
  next
    case Get
    obtain q1 x where e: "deq q = (q1, x)" by force
    have "inv q1" using Cons.prems(1) by (cases rule: deq_cases) (use e Cons.prems(1) in auto)
    moreover have "limit q1 = limit q" using deq_limit [of q] e by simp
    ultimately show ?thesis
      using Cons.IH [of q1] Cons.prems(2,3) Get e deq_refines [OF Cons.prems(1) e]
      by (auto split: prod.splits)
  qed
qed simp

end

text \<open>A queue that always accepts.\<close>

locale unbounded_fifo = message_fifo +
  assumes always: "snd (enq q m)"
begin

lemma run_accepts_all:
  "run_queue enq deq q ops = (q', acc, del) \<Longrightarrow> acc = [m. Put m \<leftarrow> ops]"
proof (induction ops arbitrary: q q' acc del)
  case (Cons op ops)
  then show ?case
  proof (cases op)
    case (Put m)
    then show ?thesis using Cons always [of q m] by (cases "enq q m") (auto split: prod.splits)
  qed (auto split: prod.splits)
qed simp

end

section \<open>The ring buffer keeps the contract\<close>

lemma ring_pop_capacity [simp]: "rb_capacity (fst (ring_pop r)) = rb_capacity r"
  by (simp add: ring_pop_def Let_def)

definition frame_len :: "byte list \<Rightarrow> nat" where
  "frame_len m = 4 + length m"

lemma frames_size_sum: "frames_size ms = sum_list (map frame_len ms)"
  by (induction ms) (simp_all add: frame_len_def)

definition ring_limit :: "ring \<Rightarrow> nat" where
  "ring_limit r = unat (rb_capacity r)"

interpretation ring_fifo: bounded_fifo ring_push ring_pop ring_msgs ring_inv sendable frame_len ring_limit
proof unfold_locales
  fix q m assume "ring_inv q" "sendable m"
  then show "snd (ring_push q m) \<longleftrightarrow> sum_list (map frame_len (ring_msgs q)) + frame_len m \<le> ring_limit q"
    by (simp add: ring_push_accepts_iff ring_used_size frames_size_sum [symmetric] frame_len_def
        ring_limit_def add.assoc)
qed (simp_all add: ring_push_msgs ring_pop_empty ring_pop_next ring_limit_def)

text \<open>
  The channels of \<^verbatim>\<open>std::sync::mpsc\<close>: an unbounded list of messages, \<open>try_recv\<close> and
  \<open>send\<close> while both ends are alive.
\<close>

definition mpsc_send :: "'m list \<Rightarrow> 'm \<Rightarrow> 'm list \<times> bool" where
  "mpsc_send q m = (q @ [m], True)"

interpretation mpsc_fifo: unbounded_fifo mpsc_send list_get "\<lambda>q. q" "\<lambda>_. True" "\<lambda>_. True"
  by unfold_locales (simp_all add: mpsc_send_def list_get_def)

section \<open>Channels\<close>

record channel =
  ch_ring :: ring
  ch_clock :: clock

text \<open>\<open>InternalChannel::new\<close>: it fails when no clock can be made.\<close>

definition channel_new :: "nat \<Rightarrow> clock option \<Rightarrow> channel option" where
  "channel_new capacity clk =
    (case clk of None \<Rightarrow> None | Some c \<Rightarrow> Some \<lparr>ch_ring = ring_new capacity, ch_clock = c\<rparr>)"

definition bytes_of :: "str \<Rightarrow> byte list" where
  "bytes_of s = map of_char s"

definition str_of :: "byte list \<Rightarrow> str" where
  "str_of bs = map (\<lambda>b. char_of (unat b)) bs"

lemma unat_of_char: "unat (of_char c :: byte) = of_char c"
proof -
  have "of_char c < (256 :: nat)" by (metis nat_of_char_less_256)
  moreover have "(of_char c :: byte) = of_nat (of_char c)" by (rule of_nat_of_char [symmetric])
  ultimately show ?thesis using of_nat_inverse [of "of_char c" "of_char c :: byte"] by simp
qed

lemma str_of_bytes_of [simp]: "str_of (bytes_of s) = s"
  by (simp add: str_of_def bytes_of_def comp_def unat_of_char)

lemma length_bytes_of [simp]: "length (bytes_of s) = length s"
  by (simp add: bytes_of_def)

text \<open>
  The retry loop of \<open>ChannelWriter::send\<close>, from attempt number \<open>a\<close> with \<open>k\<close> attempts left.  What the
  reader's thread does to the ring during the sleep after attempt \<open>a\<close> is \<open>sched a\<close>.  The result
  lists the sleeps in microseconds.
\<close>

fun send_loop :: "(nat \<Rightarrow> ring \<Rightarrow> ring) \<Rightarrow> nat \<Rightarrow> nat \<Rightarrow> ring \<Rightarrow> byte list \<Rightarrow> ring \<times> bool \<times> nat list" where
  "send_loop sched a 0 r d = (r, False, [])"
| "send_loop sched a (Suc k) r d =
    (let (r', pushed) = ring_push r d
     in if pushed then (r', True, [])
        else let (r'', sent, sleeps) = send_loop sched (a + 1) k (sched a r') d
             in (r'', sent, 2 ^ min a 10 # sleeps))"

definition send_attempts :: nat where "send_attempts = 20"

definition channel_send :: "(nat \<Rightarrow> ring \<Rightarrow> ring) \<Rightarrow> channel \<Rightarrow> str \<Rightarrow> channel \<times> bool \<times> nat list \<times> syscall list" where
  "channel_send sched c data =
    (let (r, sent, sleeps) = send_loop sched 0 send_attempts (ch_ring c) (bytes_of data)
     in (c\<lparr>ch_ring := r\<rparr>, sent, sleeps, if sent then clock_signal (ch_clock c) else []))"

definition channel_recv :: "channel \<Rightarrow> channel \<times> str option" where
  "channel_recv c =
    (let (r, x) = ring_pop (ch_ring c)
     in (c\<lparr>ch_ring := r\<rparr>, map_option (\<lambda>d. from_utf8_lossy (str_of d)) x))"

text \<open>The reader's thread is asleep or elsewhere while the writer retries.\<close>

definition idle :: "nat \<Rightarrow> ring \<Rightarrow> ring" where
  "idle a r = r"

text \<open>The reader's thread takes \<open>n a\<close> messages during the \<open>a\<close>-th sleep.\<close>

definition taking :: "(nat \<Rightarrow> nat) \<Rightarrow> nat \<Rightarrow> ring \<Rightarrow> ring" where
  "taking n a r = ((\<lambda>r. fst (ring_pop r)) ^^ n a) r"

definition channel_put :: "channel \<Rightarrow> str \<Rightarrow> channel \<times> bool" where
  "channel_put c data = (let (c', sent, _) = channel_send idle c data in (c', sent))"

definition channel_msgs :: "channel \<Rightarrow> str list" where
  "channel_msgs c = map (\<lambda>d. from_utf8_lossy (str_of d)) (ring_msgs (ch_ring c))"

definition channel_text :: "str \<Rightarrow> bool" where
  "channel_text s \<longleftrightarrow> utf8_valid s \<and> length s + 4 < 2 ^ 32"

lemma send_loop_idle: "send_loop idle a k r d
    = (if k = 0 then (r, False, []) else let (r', b) = ring_push r d
       in (r', b, if b then [] else map (\<lambda>i. 2 ^ min (a + i) 10) [0..<k]))"
proof (induction k arbitrary: a)
  case (Suc k)
  show ?case
  proof (cases "snd (ring_push r d)")
    case False
    then have "ring_push r d = (r, False)" using ring_push_rejected [of r d] by (cases "ring_push r d") auto
    moreover have "map (\<lambda>i. 2 ^ min (a + i) 10) [0..<Suc k]
        = (2 ^ min a 10 # map (\<lambda>i. 2 ^ min (Suc a + i) 10) [0..<k] :: nat list)"
      by (simp add: upt_conv_Cons map_Suc_upt [symmetric] comp_def del: upt_Suc power_Suc)
    ultimately show ?thesis using Suc [of "Suc a"] by (simp add: idle_def [of a r] del: upt_Suc)
  qed (auto simp: split_beta)
qed simp

lemma channel_put_eq: "channel_put c s = (c\<lparr>ch_ring := fst (ring_push (ch_ring c) (bytes_of s))\<rparr>,
    snd (ring_push (ch_ring c) (bytes_of s)))"
  by (simp add: channel_put_def channel_send_def send_loop_idle send_attempts_def split_beta)

lemma channel_text_sendable: "channel_text s \<Longrightarrow> sendable (bytes_of s)"
  by (simp add: channel_text_def sendable_def)

lemma channel_text_lossy [simp]: "channel_text s \<Longrightarrow> from_utf8_lossy s = s"
  by (simp add: channel_text_def utf8_valid_lossy)

lemma channel_recv_eq: "channel_recv c = (c\<lparr>ch_ring := fst (ring_pop (ch_ring c))\<rparr>,
    map_option (\<lambda>d. from_utf8_lossy (str_of d)) (snd (ring_pop (ch_ring c))))"
  by (simp add: channel_recv_def split_beta)

interpretation channel_fifo:
  bounded_fifo channel_put channel_recv channel_msgs "\<lambda>c. ring_inv (ch_ring c) \<and> (\<forall>d \<in> set (ring_msgs (ch_ring c)). channel_text (str_of d))"
    channel_text "\<lambda>s. 4 + length s" "\<lambda>c. ring_limit (ch_ring c)"
proof (unfold_locales, goal_cases)
  case (1 q m)
  then show ?case by (auto simp: channel_put_eq ring_push_msgs channel_text_sendable)
next
  case (2 q m)
  then show ?case by (simp add: channel_put_eq channel_msgs_def ring_push_msgs channel_text_sendable)
next
  case (3 q)
  then show ?case by (simp add: channel_recv_eq channel_msgs_def ring_pop_empty)
next
  case (4 q m ms)
  then obtain d ds where d: "ring_msgs (ch_ring q) = d # ds" "m = from_utf8_lossy (str_of d)"
      "ms = map (\<lambda>d. from_utf8_lossy (str_of d)) ds"
    by (auto simp: channel_msgs_def)
  then show ?case
    using ring_pop_next [of "ch_ring q" d ds] 4 by (auto simp: channel_recv_eq channel_msgs_def)
next
  case (5 q m)
  have "length (from_utf8_lossy (str_of d)) = length d" if "d \<in> set (ring_msgs (ch_ring q))" for d
    using that 5 by (simp add: str_of_def)
  then have "map (\<lambda>s. 4 + length s) (channel_msgs q) = map frame_len (ring_msgs (ch_ring q))"
    by (simp add: frame_len_def channel_msgs_def)
  then show ?case
    using ring_fifo.accepts_iff [of "ch_ring q" "bytes_of m"] 5
    by (simp only: channel_put_eq channel_text_sendable) (simp add: frame_len_def)
qed (simp_all add: channel_put_eq channel_recv_eq ring_limit_def)

lemmas channel_ops = channel_put_eq channel_recv_eq

section \<open>Sending while the reader works\<close>

lemma pop_msgs:
  assumes "ring_inv r"
  shows "ring_msgs (fst (ring_pop r)) = drop 1 (ring_msgs r)" "ring_inv (fst (ring_pop r))"
  using assms by (cases rule: ring_fifo.deq_cases, use assms in simp_all)+

lemma taking_msgs:
  assumes "ring_inv r"
  shows "ring_msgs (taking n a r) = drop (n a) (ring_msgs r) \<and> ring_inv (taking n a r)
    \<and> rb_capacity (taking n a r) = rb_capacity r"
proof -
  have "ring_msgs (((\<lambda>r. fst (ring_pop r)) ^^ k) r) = drop k (ring_msgs r)
      \<and> ring_inv (((\<lambda>r. fst (ring_pop r)) ^^ k) r)
      \<and> rb_capacity (((\<lambda>r. fst (ring_pop r)) ^^ k) r) = rb_capacity r" for k
    by (induction k) (use assms in \<open>simp_all add: pop_msgs\<close>)
  then show ?thesis by (simp add: taking_def)
qed

text \<open>
  Whatever the reader takes meanwhile, the ring ends with a suffix of what it held, followed by the
  new message exactly when the send reports success.
\<close>

lemma send_loop_taking:
  assumes "ring_inv r" "sendable d" "send_loop (taking n) a k r d = (r', sent, sleeps)"
  shows "\<exists>j. ring_msgs r' = drop j (ring_msgs r) @ (if sent then [d] else []) \<and> ring_inv r'
    \<and> rb_capacity r' = rb_capacity r"
  using assms
proof (induction k arbitrary: a r sleeps)
  case 0
  then show ?case by (auto intro: exI [of _ 0])
next
  case (Suc k)
  note pm = ring_push_msgs [OF Suc.prems(1,2)]
  show ?case
  proof (cases "snd (ring_push r d)")
    case True
    then show ?thesis using Suc.prems pm by (auto simp: split_beta intro: exI [of _ 0])
  next
    case False
    then have r: "ring_push r d = (r, False)" using ring_push_rejected [of r d] by (cases "ring_push r d") auto
    obtain ss where "send_loop (taking n) (Suc a) k (taking n a r) d = (r', sent, ss)"
      using Suc.prems(3) r by (auto split: prod.splits)
    then show ?thesis
      using Suc.IH [of "taking n a r" "Suc a" ss] taking_msgs [OF Suc.prems(1), of n a] Suc.prems(2)
      by (metis drop_drop)
  qed
qed

lemma send_loop_sleeps:
  "send_loop sched a k r d = (r', sent, sleeps) \<Longrightarrow>
    sleeps = map (\<lambda>i. 2 ^ min (a + i) 10) [0..<length sleeps] \<and> length sleeps \<le> k \<and>
    (sent \<longleftrightarrow> length sleeps < k)"
proof (induction k arbitrary: a r sleeps)
  case (Suc k)
  show ?case
  proof (cases "snd (ring_push r d)")
    case False
    then obtain ss where ss: "send_loop sched (Suc a) k (sched a (fst (ring_push r d))) d = (r', sent, ss)"
        "sleeps = 2 ^ min a 10 # ss"
      using Suc.prems
      by (cases "send_loop sched (Suc a) k (sched a (fst (ring_push r d))) d") (auto simp: split_beta Let_def)
    have "map (\<lambda>i. 2 ^ min (a + i) 10) [0..<Suc (length ss)]
        = (2 ^ min a 10 # map (\<lambda>i. 2 ^ min (Suc a + i) 10) [0..<length ss] :: nat list)"
      by (simp add: upt_conv_Cons map_Suc_upt [symmetric] comp_def del: upt_Suc power_Suc)
    then show ?thesis using Suc.IH [OF ss(1)] ss(2) by (simp del: upt_Suc)
  qed (use Suc.prems in \<open>auto simp: split_beta Let_def\<close>)
qed simp

lemma ex_less_Suc_shift: "(\<exists>i < Suc k. P i) \<longleftrightarrow> P 0 \<or> (\<exists>i < k. P (Suc i))"
  by (metis Suc_less_eq less_Suc_eq_0_disj)

lemma sum_shift: "(\<Sum>j<Suc i. n (a + j)) = n a + (\<Sum>j<i. n (Suc a + j))" for n :: "nat \<Rightarrow> nat"
  by (simp add: sum.lessThan_Suc_shift del: sum.lessThan_Suc)

lemma send_loop_sent_iff:
  assumes "ring_inv r" "sendable d"
  shows "fst (snd (send_loop (taking n) a k r d)) \<longleftrightarrow>
    (\<exists>i < k. frames_size (drop (\<Sum>j<i. n (a + j)) (ring_msgs r)) + frame_len d \<le> ring_limit r)"
  using assms
proof (induction k arbitrary: a r)
  case (Suc k)
  have now: "snd (ring_push r d) \<longleftrightarrow> frames_size (ring_msgs r) + frame_len d \<le> ring_limit r"
    using ring_fifo.accepts_iff [OF Suc.prems] by (simp add: frames_size_sum)
  show ?case
  proof (cases "snd (ring_push r d)")
    case True
    then show ?thesis using now unfolding ex_less_Suc_shift by (simp add: split_beta)
  next
    case False
    then have r: "ring_push r d = (r, False)" using ring_push_rejected [of r d] by (cases "ring_push r d") auto
    have "fst (snd (send_loop (taking n) a (Suc k) r d))
        = fst (snd (send_loop (taking n) (Suc a) k (taking n a r) d))"
      using r by (simp add: split_beta)
    also have "\<dots> \<longleftrightarrow> (\<exists>i < k. frames_size (drop (\<Sum>j<i. n (Suc a + j)) (drop (n a) (ring_msgs r)))
        + frame_len d \<le> ring_limit r)"
      using Suc.IH [of "taking n a r" "Suc a"] taking_msgs [OF Suc.prems(1), of n a] Suc.prems(2)
      by (simp add: ring_limit_def)
    also have "\<dots> \<longleftrightarrow> (\<exists>i < Suc k. frames_size (drop (\<Sum>j<i. n (a + j)) (ring_msgs r))
        + frame_len d \<le> ring_limit r)"
      unfolding ex_less_Suc_shift sum_shift using False now by (simp add: add.commute)
    finally show ?thesis .
  qed
qed simp

section \<open>Pipes\<close>

text \<open>
  \<open>PipeIn\<close> reads a line of standard input, whose remaining bytes are the state.  A line that is
  not well-formed UTF-8 is consumed and reported like the end of the input.
\<close>

definition pipe_recv :: "str \<Rightarrow> str \<times> str option" where
  "pipe_recv input =
    (case split_incl input of
       [] \<Rightarrow> (input, None)
     | line # rest \<Rightarrow>
         (concat rest,
          if utf8_valid line
          then (let trimmed = trim line in if trimmed = [] then Some [] else Some trimmed)
          else None))"

text \<open>\<open>PipeOut\<close> appends the text and a line feed to standard output.\<close>

definition pipe_send :: "str \<Rightarrow> str \<Rightarrow> str" where
  "pipe_send output turtle = output @ turtle @ [newline]"

section \<open>The two directions of the C interface\<close>

record channel_pair =
  app_to_ant :: channel
  ant_to_app :: channel

definition channel_pair_new :: "nat \<Rightarrow> clock option \<Rightarrow> clock option \<Rightarrow> channel_pair option" where
  "channel_pair_new capacity clk1 clk2 =
    (case channel_new capacity clk1 of
       None \<Rightarrow> None
     | Some a \<Rightarrow> (case channel_new capacity clk2 of
         None \<Rightarrow> None
       | Some b \<Rightarrow> Some \<lparr>app_to_ant = a, ant_to_app = b\<rparr>))"

text \<open>The adapters \<open>ChannelIn\<close> and \<open>ChannelOut\<close>; the latter forgets whether the message was sent.\<close>

definition channel_in_recv :: "channel_pair \<Rightarrow> channel_pair \<times> str option" where
  "channel_in_recv p = (let (c, x) = channel_recv (app_to_ant p) in (p\<lparr>app_to_ant := c\<rparr>, x))"

definition channel_out_send :: "(nat \<Rightarrow> ring \<Rightarrow> ring) \<Rightarrow> channel_pair \<Rightarrow> str \<Rightarrow> channel_pair \<times> syscall list" where
  "channel_out_send sched p turtle =
    (let (c, sent, sleeps, sys) = channel_send sched (ant_to_app p) turtle
     in (p\<lparr>ant_to_app := c\<rparr>, sys))"

section \<open>Counters near the end of their range\<close>

lemma run_queue_append:
  "run_queue enq deq q (xs @ ys) =
    (let (q1, acc1, del1) = run_queue enq deq q xs; (q2, acc2, del2) = run_queue enq deq q1 ys
     in (q2, acc1 @ acc2, del1 @ del2))"
proof (induction xs arbitrary: q)
  case (Cons op xs)
  then show ?case
    by (cases op) (auto simp: split_beta Let_def split: option.splits)
qed simp

lemma ring_msgs_Nil_iff: "ring_inv r \<Longrightarrow> ring_msgs r = [] \<longleftrightarrow> rb_head r = rb_tail r"
  using ring_used_size [of r] frames_size_simps(2) by (cases "ring_msgs r") (auto simp: ring_used_def unat_eq_0)

lemma ring_cycle:
  assumes "ring_inv r" "ring_msgs r = []" "4 \<le> ring_limit r"
  shows "\<exists>r'. run_queue ring_push ring_pop r [Put [], Get] = (r', [[]], [[]]) \<and>
    ring_inv r' \<and> ring_msgs r' = [] \<and> ring_limit r' = ring_limit r \<and> rb_head r' = rb_head r + 4"
proof -
  have ok: "sendable []" by (simp add: sendable_def)
  have acc: "snd (ring_push r [])"
    using ring_fifo.accepts_iff [OF assms(1) ok] assms by (simp add: frame_len_def)
  let ?q = "fst (ring_push r [])"
  have q: "ring_inv ?q" "ring_msgs ?q = [[]]"
    using ring_push_msgs [OF assms(1) ok] acc assms(2) by simp_all
  obtain r' where r': "ring_pop ?q = (r', Some [])" "ring_msgs r' = []" "ring_inv r'"
    using ring_pop_next [OF q] by blast
  have "rb_head r' = rb_head ?q"
    using r'(1) by (auto simp: ring_pop_def Let_def split: if_splits)
  also have "\<dots> = rb_head r + 4" by (simp add: ring_push_state [OF acc])
  finally have "rb_head r' = rb_head r + 4" .
  moreover have "ring_limit r' = ring_limit r"
    using ring_pop_capacity [of ?q] r'(1) by (simp add: ring_limit_def)
  ultimately show ?thesis using r' acc by (simp add: split_beta)
qed

lemma ring_cycles:
  assumes "ring_inv r" "ring_msgs r = []" "4 \<le> ring_limit r"
  shows "\<exists>r' acc. run_queue ring_push ring_pop r (concat (replicate k [Put [], Get])) = (r', acc, acc) \<and>
    ring_inv r' \<and> ring_msgs r' = [] \<and> ring_limit r' = ring_limit r \<and> rb_head r' = rb_head r + of_nat (4 * k)"
  using assms
proof (induction k arbitrary: r)
  case (Suc k)
  obtain r1 where r1: "run_queue ring_push ring_pop r [Put [], Get] = (r1, [[]], [[]])"
      "ring_inv r1" "ring_msgs r1 = []" "ring_limit r1 = ring_limit r" "rb_head r1 = rb_head r + 4"
    using ring_cycle [OF Suc.prems] by blast
  then obtain r2 acc where r2: "run_queue ring_push ring_pop r1 (concat (replicate k [Put [], Get])) = (r2, acc, acc)"
      "ring_inv r2" "ring_msgs r2 = []" "ring_limit r2 = ring_limit r" "rb_head r2 = rb_head r1 + of_nat (4 * k)"
    using Suc.IH [of r1] Suc.prems(3) by metis
  have "run_queue ring_push ring_pop r ([Put [], Get] @ concat (replicate k [Put [], Get])) = (r2, [] # acc, [] # acc)"
    by (subst run_queue_append) (simp add: r1(1) r2(1) del: run_queue.simps)
  moreover have "rb_head r2 = rb_head r + of_nat (4 * Suc k)"
    using r2(5) r1(5) by (simp add: algebra_simps)
  ultimately show ?case using r2 by (intro exI [of _ r2] exI [of _ "[] # acc"]) simp
qed simp

lemma trim_white_len:
  assumes "trim m = m"
  shows "white_len m = 0" "white_len_rev (rev m) = 0"
proof -
  have "length (trim_end (trim_start m)) \<le> length (trim_start m)"
    by (metis trim_end_prefix length_append le_add1)
  then have len: "length m \<le> length (trim_start m)" using assms by (simp add: trim_def)
  obtain w where w: "w @ trim_start m = m" using trim_start_suffix [of m] by metis
  then have "length w + length (trim_start m) = length m" by (metis length_append)
  then have "w = []" using len by (cases w) auto
  with w have ts: "trim_start m = m" by simp
  then show "white_len m = 0" using white_len_trim_start [of m] by simp
  have "rev (trim_rev (rev m)) = m" using assms ts by (simp add: trim_def trim_end_def)
  then have "trim_rev (rev m) = rev m" by (metis rev_rev_ident)
  then show "white_len_rev (rev m) = 0" using white_len_rev_trim_rev [of "rev m"] by simp
qed

lemma trim_line:
  assumes "trim m = m" "m \<noteq> []"
  shows "trim (m @ [newline]) = m"
proof -
  have "white_len (m @ [newline]) = 0"
    using trim_white_len(1) [OF assms(1)] assms(2)
    by (auto simp: white_len_def split: list.splits if_splits)
  then have "trim (m @ [newline]) = rev (trim_rev (newline # rev m))"
    by (simp add: trim_def trim_start_id trim_end_def)
  also have "trim_rev (newline # rev m) = trim_rev (rev m)"
    by (subst trim_rev.simps) (simp add: white_len_rev_def)
  also have "\<dots> = rev m"
    using trim_white_len(2) [OF assms(1)] by (subst trim_rev.simps) simp
  finally show ?thesis by simp
qed

section \<open>Properties\<close>

text \<open>
  C5: a ring buffer made by \<open>RingBuffer::new\<close> with a power-of-two capacity behaves, under every
  sequence of pushes and pops and across every wrap-around of its 32-bit counters, exactly like a
  list bounded by the bytes of its frames: it accepts the same messages and delivers the same ones.
\<close>

theorem ring_refines_bounded_list:
  assumes "0 < n" "n < 2 ^ 32" "n dvd 2 ^ 32"
    and "\<forall>m. Put m \<in> set ops \<longrightarrow> sendable m"
    and "run_queue ring_push ring_pop (ring_new n) ops = (r, acc, del)"
  shows "run_queue (list_put frame_len n) list_get [] ops = (ring_msgs r, acc, del) \<and>
    del @ ring_msgs r = acc \<and> ring_inv r"
proof -
  have new: "ring_inv (ring_new n)" "ring_msgs (ring_new n) = []" "ring_limit (ring_new n) = n"
    using ring_new_inv [OF assms(1-3)] assms(2) by (simp_all add: ring_limit_def ring_new_def unat_of_nat)
  show ?thesis
    using ring_fifo.run_refines [OF new(1) assms(4,5)] ring_fifo.run_fifo [OF new(1) assms(4,5)] new(2,3)
    by simp
qed

theorem ring_refines_bounded_list_witness:
  "run_queue (list_put frame_len 16) list_get [] [Put [7, 8], Put [1, 2, 3, 4, 5, 6, 7], Get, Put [9]]
    = ([[9]], [[7, 8], [9]], [[7, 8]])"
proof -
  define ops :: "byte list queue_op list" where
    "ops = [Put [7, 8], Put [1, 2, 3, 4, 5, 6, 7], Get, Put [9]]"
  have run: "run_queue ring_push ring_pop (ring_new 16) ops =
      (\<lparr>rb_head = 11, rb_tail = 6, rb_buf = [2, 0, 0, 0, 7, 8, 1, 0, 0, 0, 9, 0, 0, 0, 0, 0],
        rb_capacity = 16\<rparr>, [[7, 8], [9]], [[7, 8]])"
    unfolding ops_def by code_simp
  show ?thesis
    using ring_refines_bounded_list [OF _ _ _ _ run]
    by (auto simp: ops_def sendable_def)
qed

text \<open>
  C13: messages sent over an \<open>InternalChannel\<close> while its reader takes some of them arrive in order
  and unchanged: what \<open>recv\<close> has returned, followed by what draining the channel returns, is the
  list of the accepted messages, and the drain ends.
\<close>

theorem channel_delivers_in_order:
  assumes "0 < n" "n < 2 ^ 32" "n dvd 2 ^ 32" "channel_new n (Some clk) = Some c"
    and "\<forall>s. Put s \<in> set ops \<longrightarrow> channel_text s"
    and "run_queue channel_put channel_recv c ops = (c', acc, del)"
  shows "\<exists>c'' rest. drain channel_recv c' = Some (c'', rest) \<and> del @ rest = acc \<and> channel_msgs c'' = []"
proof -
  have c: "ch_ring c = ring_new n" using assms(4) by (auto simp: channel_new_def)
  have inv: "ring_inv (ch_ring c) \<and> (\<forall>d \<in> set (ring_msgs (ch_ring c)). channel_text (str_of d))"
    using ring_new_inv [OF assms(1-3)] c by simp
  have fifo: "del @ channel_msgs c' = channel_msgs c @ acc \<and> ring_inv (ch_ring c') \<and>
      (\<forall>d \<in> set (ring_msgs (ch_ring c')). channel_text (str_of d))"
    using channel_fifo.run_fifo [OF inv assms(5,6)] by simp
  moreover have "channel_msgs c = []" using ring_new_inv [OF assms(1-3)] c by (simp add: channel_msgs_def)
  ultimately show ?thesis using channel_fifo.drain_contents [of c'] by auto
qed

theorem channel_delivers_in_order_witness:
  "\<exists>c c' c'' rest. channel_new 16 (Some \<lparr>read_fd = 3, write_fd = 3\<rparr>) = Some c \<and>
    run_queue channel_put channel_recv c [Put ''hi'', Put ''ho'', Get] = (c', [''hi'', ''ho''], [''hi'']) \<and>
    drain channel_recv c' = Some (c'', rest) \<and> ''hi'' # rest = [''hi'', ''ho'']"
proof -
  define c where "c = \<lparr>ch_ring = ring_new 16, ch_clock = \<lparr>read_fd = 3, write_fd = 3\<rparr>\<rparr>"
  define c' where "c' = \<lparr>ch_ring = \<lparr>rb_head = 12, rb_tail = 6,
      rb_buf = [2, 0, 0, 0, 104, 105, 2, 0, 0, 0, 104, 111, 0, 0, 0, 0], rb_capacity = 16\<rparr>,
      ch_clock = \<lparr>read_fd = 3, write_fd = 3\<rparr>\<rparr>"
  have run: "run_queue channel_put channel_recv c [Put ''hi'', Put ''ho'', Get] = (c', [''hi'', ''ho''], [''hi''])"
    unfolding c_def c'_def by code_simp
  have new: "channel_new 16 (Some \<lparr>read_fd = 3, write_fd = 3\<rparr>) = Some c"
    by (simp add: channel_new_def c_def)
  have "channel_text ''hi''" "channel_text ''ho''" by (simp_all add: channel_text_def bv_def)
  then show ?thesis
    using channel_delivers_in_order [OF _ _ _ new _ run] new run by auto
qed

definition backoff_total :: nat where
  "backoff_total = sum_list (map (\<lambda>i. 2 ^ min i 10) [0..<send_attempts])"

lemma backoff_total_value: "backoff_total = 11263"
  by (simp add: backoff_total_def send_attempts_def upt_rec)

lemma backoff_prefix:
  assumes "k \<le> send_attempts"
  shows "sum_list (map (\<lambda>i. 2 ^ min i 10) [0..<k]) \<le> backoff_total"
proof -
  have "[0..<send_attempts] = [0..<k] @ [k..<send_attempts]"
    using assms by (metis le_add_diff_inverse upt_add_eq_append zero_le)
  then show ?thesis by (simp add: backoff_total_def)
qed

text \<open>
  C28: \<open>ChannelWriter::send\<close> with a reader that takes \<open>n i\<close> messages during the \<open>i\<close>-th sleep: it
  reports success exactly when at one of its 20 attempts the messages not yet taken leave room for
  the frame; the message is then the last in the ring and the clock is signalled once, otherwise
  it is dropped without a trace; it sleeps at most 11263 microseconds in all.
\<close>

theorem channel_send_outcome:
  assumes "ring_inv (ch_ring c)" "channel_text s"
    and "channel_send (taking n) c s = (c', sent, sleeps, sys)"
  shows "(sent \<longleftrightarrow> (\<exists>i < 20. frames_size (drop (\<Sum>j<i. n j) (ring_msgs (ch_ring c))) + (4 + length s)
            \<le> unat (rb_capacity (ch_ring c)))) \<and>
    (\<exists>j. ring_msgs (ch_ring c') = drop j (ring_msgs (ch_ring c)) @ (if sent then [bytes_of s] else [])) \<and>
    ring_inv (ch_ring c') \<and> length sleeps \<le> 20 \<and> sum_list sleeps \<le> 11263 \<and>
    sys = (if sent then [Sys_write (write_fd (ch_clock c)) [1]] else [])"
proof -
  obtain r where r: "send_loop (taking n) 0 send_attempts (ch_ring c) (bytes_of s) = (r, sent, sleeps)"
      "c' = c\<lparr>ch_ring := r\<rparr>" "sys = (if sent then clock_signal (ch_clock c) else [])"
    using assms(3) by (auto simp: channel_send_def split: prod.splits)
  note ok = channel_text_sendable [OF assms(2)]
  have sl: "sleeps = map (\<lambda>i. 2 ^ min i 10) [0..<length sleeps]" "length sleeps \<le> send_attempts"
    using send_loop_sleeps [OF r(1)] by simp_all
  have "sum_list sleeps \<le> 11263"
    using backoff_prefix [OF sl(2)] backoff_total_value sl(1) by metis
  moreover have "sent \<longleftrightarrow> (\<exists>i < 20. frames_size (drop (\<Sum>j<i. n j) (ring_msgs (ch_ring c))) + (4 + length s)
            \<le> unat (rb_capacity (ch_ring c)))"
    using send_loop_sent_iff [OF assms(1) ok, of n 0 send_attempts] r(1)
    by (simp add: send_attempts_def frame_len_def ring_limit_def)
  ultimately show ?thesis
    using send_loop_taking [OF assms(1) ok r(1)] r(2,3) sl(2)
    by (simp add: clock_signal_def send_attempts_def)
qed

text \<open>A full ring of 16 bytes, and a reader that takes one message during the second sleep.\<close>

theorem channel_send_outcome_witness:
  "\<exists>c' sys. channel_send (taking (\<lambda>i. if i = 1 then 1 else 0))
      \<lparr>ch_ring = fst (ring_push (ring_new 16) [1, 2, 3, 4]), ch_clock = \<lparr>read_fd = 3, write_fd = 3\<rparr>\<rparr> ''hello''
      = (c', True, [1, 2], sys) \<and> sys = [Sys_write 3 [1]]"
proof -
  define c where "c = \<lparr>ch_ring = fst (ring_push (ring_new 16) [1, 2, 3, 4]),
      ch_clock = \<lparr>read_fd = 3, write_fd = 3\<rparr>\<rparr>"
  define n :: "nat \<Rightarrow> nat" where "n = (\<lambda>i. if i = 1 then 1 else 0)"
  have inv: "ring_inv (ch_ring c)"
    using ring_push_msgs(2) [of "ring_new 16" "[1, 2, 3, 4]"] ring_new_inv [of 16]
    by (simp add: c_def sendable_def)
  have ok: "channel_text ''hello''" by (simp add: channel_text_def bv_def)
  obtain c' sent sleeps sys where run: "channel_send (taking n) c ''hello'' = (c', sent, sleeps, sys)"
    by (metis prod_cases4)
  have "fst (snd (channel_send (taking n) c ''hello'')) = True
      \<and> fst (snd (snd (channel_send (taking n) c ''hello''))) = [1, 2]"
    unfolding c_def n_def by code_simp
  then have "sent" "sleeps = [1, 2]" using run by simp_all
  then show ?thesis
    using channel_send_outcome [OF inv ok run] run by (simp add: c_def n_def)
qed

text \<open>
  C30: the index computation of \<open>push\<close> adds to the free-running counter without wrapping.  In a build
  with overflow checks a ring buffer that only ever carried empty messages panics on a push that
  it has room for, after fewer than 2 ^ 30 messages; the release build wraps and goes on.
\<close>

theorem ring_push_overflow_reachable:
  "\<exists>k r acc. k < 2 ^ 30 \<and>
     run_queue ring_push ring_pop (ring_new 65536) (concat (replicate k [Put [], Get])) = (r, acc, acc) \<and>
     snd (ring_push r [7]) \<and> push_overflows r [7] \<and> ring_msgs (fst (ring_push r [7])) = [[7]]"
proof -
  have new: "ring_inv (ring_new 65536)" "ring_msgs (ring_new 65536) = []" "ring_limit (ring_new 65536) = 65536"
    using ring_new_inv [of 65536] by (simp_all add: ring_limit_def ring_new_def)
  obtain r acc where r: "run_queue ring_push ring_pop (ring_new 65536)
        (concat (replicate (2 ^ 30 - 1) [Put [], Get])) = (r, acc, acc)"
      "ring_inv r" "ring_msgs r = []" "ring_limit r = 65536" "rb_head r = of_nat (4 * (2 ^ 30 - 1))"
    using ring_cycles [OF new(1,2), of "2 ^ 30 - 1"] new(3) by (auto simp: ring_new_def)
  have ok: "sendable [7]" by (simp add: sendable_def)
  have acc: "snd (ring_push r [7])"
    using ring_fifo.accepts_iff [OF r(2) ok] r(3,4) by (simp add: frame_len_def)
  then have "push_overflows r [7]"
    by (simp add: push_overflows_def r(5))
  then show ?thesis
    using r(1) acc ring_push_msgs(1) [OF r(2) ok] r(3)
    by (intro exI [of _ "2 ^ 30 - 1"] exI [of _ r] exI [of _ acc]) simp
qed

text \<open>
  A line written by \<open>PipeOut\<close> is read back by \<open>PipeIn\<close> as the same message, leaving the rest of
  the input; the message must have no line feed and no white space around it.
\<close>

theorem pipe_round_trip:
  assumes "utf8_valid m" "newline \<notin> set m" "trim m = m" "m \<noteq> []"
  shows "pipe_recv (pipe_send [] m @ rest) = (rest, Some m)"
proof -
  have "utf8_valid (m @ [newline])"
    using utf8_valid_append [OF assms(1)] by (simp add: newline_def bv_def)
  then show ?thesis
    using assms trim_line [OF assms(3,4)] split_incl_newline [OF assms(2), of rest]
    by (simp add: pipe_recv_def pipe_send_def Let_def)
qed

theorem pipe_round_trip_witness:
  "pipe_recv (pipe_send [] ''[] a carrier:GetId .'' @ ''next'') = (''next'', Some ''[] a carrier:GetId .'')"
proof (rule pipe_round_trip)
  show "trim ''[] a carrier:GetId .'' = ''[] a carrier:GetId .''"
    by (rule trim_id) (simp_all add: white_len_def white_len_rev_def ascii_white_def white2_def white3_def)
qed (simp_all add: bv_def newline_def)

end
