(* ===== verification/Ring_Threads.thy ===== *)
theory Ring_Threads
  imports Channel
begin

text \<open>
  The ring buffer of \<^verbatim>\<open>src/channel.rs\<close> between two threads.  Theory Channel takes \<open>push\<close> and \<open>pop\<close> as
  atomic; here every load and store of a counter and every byte is a step of its own, and the steps of the
  writer and of the reader interleave in any order.  Each thread stores only its own counter, with
  release, and loads the other's with acquire, so what it then sees of the bytes is what an interleaving
  shows.
\<close>

section \<open>The two threads\<close>

text \<open>
  The writer: between calls; in \<open>push\<close> with its own counter loaded; writing, with so many bytes of the frame
  written.  The reader: between calls; in \<open>pop\<close> with its own counter loaded; with so many bytes of the
  length read; with the length and so many bytes of the data read.
\<close>

datatype writer = W_idle | W_loaded "byte list" u32 | W_writing "byte list" u32 nat

datatype reader = R_idle | R_loaded u32 | R_len u32 "byte list" | R_data u32 u32 "byte list"

text \<open>\<open>th_sent\<close> and \<open>th_got\<close>: the messages whose \<open>push\<close> has returned true, those that \<open>pop\<close> has returned.\<close>

record threads =
  th_ring :: ring
  th_writer :: writer
  th_reader :: reader
  th_sent :: "byte list list"
  th_got :: "byte list list"

definition threads_start :: "nat \<Rightarrow> threads" where
  "threads_start n = \<lparr>th_ring = ring_new n, th_writer = W_idle, th_reader = R_idle, th_sent = [], th_got = []\<rparr>"

text \<open>The byte at an index of the frame: first the length, then the data.\<close>

definition frame_byte :: "byte list \<Rightarrow> nat \<Rightarrow> byte" where
  "frame_byte data i = (if i < 4 then to_le (of_nat (length data)) ! i else data ! (i - 4))"

definition start_push :: "byte list \<Rightarrow> threads \<Rightarrow> threads" where
  "start_push data s =
     (case th_writer s of W_idle \<Rightarrow> s\<lparr>th_writer := W_loaded data (rb_head (th_ring s))\<rparr> | _ \<Rightarrow> s)"

definition writer_step :: "threads \<Rightarrow> threads" where
  "writer_step s =
     (let r = th_ring s in
      case th_writer s of
        W_idle \<Rightarrow> s
      | W_loaded data head \<Rightarrow>
          (let total = 4 + of_nat (length data) :: u32;
               used = head - rb_tail r;
               free = rb_capacity r - used
           in if total > free then s\<lparr>th_writer := W_idle\<rparr> else s\<lparr>th_writer := W_writing data head 0\<rparr>)
      | W_writing data head i \<Rightarrow>
          if i < 4 + length data
          then s\<lparr>th_ring := r\<lparr>rb_buf := (rb_buf r)[unat ((head + of_nat i) mod rb_capacity r) := frame_byte data i]\<rparr>,
                 th_writer := W_writing data head (i + 1)\<rparr>
          else s\<lparr>th_ring := r\<lparr>rb_head := head + (4 + of_nat (length data))\<rparr>, th_writer := W_idle,
                 th_sent := th_sent s @ [data]\<rparr>)"

definition start_pop :: "threads \<Rightarrow> threads" where
  "start_pop s = (case th_reader s of R_idle \<Rightarrow> s\<lparr>th_reader := R_loaded (rb_tail (th_ring s))\<rparr> | _ \<Rightarrow> s)"

definition reader_step :: "threads \<Rightarrow> threads" where
  "reader_step s =
     (let r = th_ring s in
      case th_reader s of
        R_idle \<Rightarrow> s
      | R_loaded tail \<Rightarrow>
          if tail = rb_head r then s\<lparr>th_reader := R_idle\<rparr> else s\<lparr>th_reader := R_len tail []\<rparr>
      | R_len tail bs \<Rightarrow>
          if length bs < 4
          then s\<lparr>th_reader := R_len tail (bs @ [rb_buf r ! unat ((tail + of_nat (length bs)) mod rb_capacity r)])\<rparr>
          else s\<lparr>th_reader := R_data tail (from_le bs) []\<rparr>
      | R_data tail len bs \<Rightarrow>
          if length bs < unat len
          then s\<lparr>th_reader := R_data tail len (bs @ [rb_buf r ! unat ((tail + 4 + of_nat (length bs)) mod rb_capacity r)])\<rparr>
          else s\<lparr>th_ring := r\<lparr>rb_tail := tail + (4 + len)\<rparr>, th_reader := R_idle, th_got := th_got s @ [bs]\<rparr>)"

datatype ring_op = Start_push "byte list" | Writer_step | Start_pop | Reader_step

fun ring_op_step :: "ring_op \<Rightarrow> threads \<Rightarrow> threads" where
  "ring_op_step (Start_push data) s = start_push data s"
| "ring_op_step Writer_step s = writer_step s"
| "ring_op_step Start_pop s = start_pop s"
| "ring_op_step Reader_step s = reader_step s"

definition threads_run :: "ring_op list \<Rightarrow> threads \<Rightarrow> threads" where
  "threads_run ops s = fold ring_op_step ops s"

section \<open>The ring as the calls see it\<close>

text \<open>
  \<open>buf\<close> is the storage without the bytes of an unfinished \<open>push\<close>; with it the ring keeps the contract of the atomic
  operations.
\<close>

fun writer_inv :: "writer \<Rightarrow> ring \<Rightarrow> byte list \<Rightarrow> bool" where
  "writer_inv W_idle r buf \<longleftrightarrow> rb_buf r = buf"
| "writer_inv (W_loaded data head) r buf \<longleftrightarrow> rb_buf r = buf \<and> sendable data \<and> head = rb_head r"
| "writer_inv (W_writing data head i) r buf \<longleftrightarrow> sendable data \<and> head = rb_head r \<and> i \<le> 4 + length data \<and>
     ring_used r + 4 + length data \<le> unat (rb_capacity r) \<and>
     rb_buf r = write_from (rb_capacity r) head (take i (frame data)) buf"

fun reader_inv :: "reader \<Rightarrow> ring \<Rightarrow> byte list list \<Rightarrow> bool" where
  "reader_inv R_idle r ms \<longleftrightarrow> True"
| "reader_inv (R_loaded tail) r ms \<longleftrightarrow> tail = rb_tail r"
| "reader_inv (R_len tail bs) r ms \<longleftrightarrow> tail = rb_tail r \<and> ms \<noteq> [] \<and> length bs \<le> 4 \<and>
     bs = take (length bs) (frame (ms ! 0))"
| "reader_inv (R_data tail len bs) r ms \<longleftrightarrow> tail = rb_tail r \<and> ms \<noteq> [] \<and> len = of_nat (length (ms ! 0)) \<and>
     bs = take (length bs) (ms ! 0)"

lemma reader_inv_buf [simp]: "reader_inv rd (r\<lparr>rb_buf := b\<rparr>) ms = reader_inv rd r ms"
  by (cases rd) simp_all

text \<open>The messages in flight as the calls see them.\<close>

abbreviation flight :: "threads \<Rightarrow> byte list \<Rightarrow> byte list list" where
  "flight s buf \<equiv> ring_msgs (th_ring s\<lparr>rb_buf := buf\<rparr>)"

definition threads_view :: "threads \<Rightarrow> byte list \<Rightarrow> bool" where
  "threads_view s buf \<longleftrightarrow> ring_inv (th_ring s\<lparr>rb_buf := buf\<rparr>) \<and> length buf = length (rb_buf (th_ring s)) \<and>
     writer_inv (th_writer s) (th_ring s) buf \<and> reader_inv (th_reader s) (th_ring s) (flight s buf) \<and>
     th_sent s = th_got s @ flight s buf"

definition threads_inv :: "threads \<Rightarrow> bool" where
  "threads_inv s \<longleftrightarrow> (\<exists>buf. threads_view s buf)"

lemma threads_invI: "threads_view s buf \<Longrightarrow> threads_inv s"
  by (auto simp: threads_inv_def)

lemma threads_viewD:
  assumes "threads_view s buf"
  shows "ring_inv (th_ring s\<lparr>rb_buf := buf\<rparr>)" "length buf = length (rb_buf (th_ring s))"
    "writer_inv (th_writer s) (th_ring s) buf" "reader_inv (th_reader s) (th_ring s) (flight s buf)"
    "th_sent s = th_got s @ flight s buf"
  using assms by (simp_all add: threads_view_def)

text \<open>Steps that change only what one thread knows.\<close>

lemma view_reader:
  "threads_view s buf \<Longrightarrow> reader_inv rd (th_ring s) (flight s buf) \<Longrightarrow> threads_inv (s\<lparr>th_reader := rd\<rparr>)"
  by (rule threads_invI [of _ buf]) (simp add: threads_view_def)

lemma view_writer:
  "threads_view s buf \<Longrightarrow> writer_inv w (th_ring s) buf \<Longrightarrow> threads_inv (s\<lparr>th_writer := w\<rparr>)"
  by (rule threads_invI [of _ buf]) (simp add: threads_view_def)

lemma threads_start_inv: "0 < n \<Longrightarrow> n < 2 ^ 32 \<Longrightarrow> n dvd 2 ^ 32 \<Longrightarrow> threads_inv (threads_start n)"
  using ring_new_inv [of n]
  by (intro threads_invI [of _ "rb_buf (ring_new n)"]) (simp add: threads_view_def threads_start_def ring_new_def)

text \<open>A byte of the messages in flight, read while a \<open>push\<close> is under way.\<close>

lemma frame_byte_nth: "i < 4 + length data \<Longrightarrow> frame_byte data i = frame data ! i"
  by (auto simp: frame_byte_def frame_def nth_append)

lemma ring_used_buf [simp]: "ring_used (r\<lparr>rb_buf := b\<rparr>) = ring_used r"
  by (simp add: ring_used_def)

lemma flight_byte:
  assumes inv: "ring_inv (r\<lparr>rb_buf := buf\<rparr>)" and ms: "ring_msgs (r\<lparr>rb_buf := buf\<rparr>) = m # ms" and k: "k < 4 + length m"
    and out: "\<forall>i < n. slot (rb_capacity r) (rb_head r) i \<noteq> slot (rb_capacity r) (rb_tail r) k"
    and bs: "length bs = n"
  shows "write_from (rb_capacity r) (rb_head r) bs buf ! unat ((rb_tail r + of_nat k) mod rb_capacity r) = frame m ! k"
proof -
  define c where "c = rb_capacity r"
  have c: "unat c dvd 2 ^ 32" using inv by (simp add: ring_inv_def c_def)
  have used: "k < ring_used r" using ring_used_size [OF inv] ms k by simp
  have "ring_bytes (r\<lparr>rb_buf := buf\<rparr>) = frame m @ concat (map frame ms)"
    using inv ms by (simp add: ring_inv_def)
  then have "(frame m @ concat (map frame ms)) ! k = map (\<lambda>i. buf ! slot c (rb_tail r) i) [0..<ring_used r] ! k"
    by (simp add: ring_bytes_def read_from_slots [OF c] c_def [symmetric])
  then have "frame m ! k = buf ! slot c (rb_tail r) k" using used k by (simp add: nth_append)
  also have "\<dots> = write_from c (rb_head r) bs buf ! slot c (rb_tail r) k"
    using write_from_outside [OF c, of bs "rb_head r" "slot c (rb_tail r) k"] out bs by (simp add: c_def)
  finally show ?thesis using slot_word [OF c, of "rb_tail r" k] by (simp add: c_def)
qed

text \<open>The bytes a writer has room for lie outside of those in flight.\<close>

lemma free_slot:
  assumes inv: "ring_inv (r\<lparr>rb_buf := buf\<rparr>)" and "ring_used r + n \<le> unat (rb_capacity r)" "i < n" "k < ring_used r"
  shows "slot (rb_capacity r) (rb_head r) i \<noteq> slot (rb_capacity r) (rb_tail r) k"
proof -
  have c: "unat (rb_capacity r) dvd 2 ^ 32" using inv by (simp add: ring_inv_def)
  have "slot (rb_capacity r) (rb_head r) i = slot (rb_capacity r) (rb_tail r) (ring_used r + i)"
    using slot_plus [OF c, of "rb_tail r" "ring_used r" i] by (simp add: ring_used_def)
  then show ?thesis
    using slot_inj [of "rb_capacity r" "rb_tail r" "ring_used r + i" k] assms(2-4) by auto
qed

lemma read_in_flight:
  assumes inv: "ring_inv (th_ring s\<lparr>rb_buf := buf\<rparr>)" and w: "writer_inv (th_writer s) (th_ring s) buf"
    and ms: "ring_msgs (th_ring s\<lparr>rb_buf := buf\<rparr>) = m # ms" and k: "k < 4 + length m"
  shows "rb_buf (th_ring s) ! unat ((rb_tail (th_ring s) + of_nat k) mod rb_capacity (th_ring s)) = frame m ! k"
proof -
  have used: "k < ring_used (th_ring s)" using ring_used_size [OF inv] ms k by simp
  show ?thesis
  proof (cases "th_writer s")
    case W_idle
    then show ?thesis using flight_byte [OF inv ms k, of 0 "[]"] w by simp
  next
    case (W_loaded data head)
    then show ?thesis using flight_byte [OF inv ms k, of 0 "[]"] w by simp
  next
    case (W_writing data head i)
    then have i: "head = rb_head (th_ring s)" "i \<le> 4 + length data"
        "ring_used (th_ring s) + 4 + length data \<le> unat (rb_capacity (th_ring s))"
        "rb_buf (th_ring s) = write_from (rb_capacity (th_ring s)) head (take i (frame data)) buf"
      using w by simp_all
    then show ?thesis
      using flight_byte [OF inv ms k, of i "take i (frame data)"] free_slot [OF inv, of i _ k] used by simp
  qed
qed

section \<open>Every step keeps the invariant\<close>

lemma start_push_inv: "threads_inv s \<Longrightarrow> sendable data \<Longrightarrow> threads_inv (start_push data s)"
  by (cases "th_writer s") (auto simp: start_push_def threads_inv_def [of s] intro!: view_writer dest: threads_viewD(3))

lemma start_pop_inv: "threads_inv s \<Longrightarrow> threads_inv (start_pop s)"
  by (cases "th_reader s") (auto simp: start_pop_def threads_inv_def [of s] intro!: view_reader)

text \<open>Storing the writer's counter is the whole atomic \<open>push\<close> on the ring as the calls see it.\<close>

lemma publish:
  assumes inv: "ring_inv (r\<lparr>rb_buf := buf\<rparr>)" and ok: "sendable data"
    and room: "ring_used r + 4 + length data \<le> unat (rb_capacity r)"
    and buf: "rb_buf r = write_from (rb_capacity r) (rb_head r) (frame data) buf"
  shows "r\<lparr>rb_head := rb_head r + (4 + of_nat (length data))\<rparr> = fst (ring_push (r\<lparr>rb_buf := buf\<rparr>) data)"
    and "ring_msgs (r\<lparr>rb_head := rb_head r + (4 + of_nat (length data))\<rparr>) = ring_msgs (r\<lparr>rb_buf := buf\<rparr>) @ [data]"
    and "ring_inv (r\<lparr>rb_head := rb_head r + (4 + of_nat (length data))\<rparr>)"
proof -
  have acc: "snd (ring_push (r\<lparr>rb_buf := buf\<rparr>) data)"
    using ring_push_accepts_iff [OF inv ok] room by simp
  show e: "r\<lparr>rb_head := rb_head r + (4 + of_nat (length data))\<rparr> = fst (ring_push (r\<lparr>rb_buf := buf\<rparr>) data)"
    unfolding ring_push_state [OF acc] using buf by (cases r) simp
  show "ring_msgs (r\<lparr>rb_head := rb_head r + (4 + of_nat (length data))\<rparr>) = ring_msgs (r\<lparr>rb_buf := buf\<rparr>) @ [data]"
    and "ring_inv (r\<lparr>rb_head := rb_head r + (4 + of_nat (length data))\<rparr>)"
    unfolding e using ring_push_msgs [OF inv ok] acc by simp_all
qed

lemma load_tail:
  assumes view: "threads_view s buf" and w: "th_writer s = W_loaded data head"
  shows "threads_inv (writer_step s)"
proof -
  let ?r = "th_ring s"
  have l: "rb_buf ?r = buf" "sendable data" "head = rb_head ?r" using threads_viewD(3) [OF view] w by simp_all
  have "4 + of_nat (length data) > rb_capacity ?r - (head - rb_tail ?r)
      \<longleftrightarrow> \<not> ring_used ?r + 4 + length data \<le> unat (rb_capacity ?r)"
    using ring_push_accepts_iff [OF threads_viewD(1) [OF view] l(2)] l(3)
    by (simp add: ring_push_def Let_def split: if_splits)
  then show ?thesis
    using view_writer [OF view] l w by (simp add: writer_step_def Let_def)
qed

lemma write_byte:
  assumes view: "threads_view s buf" and w: "th_writer s = W_writing data head i" and i: "i < 4 + length data"
  shows "threads_inv (writer_step s)"
proof -
  let ?r = "th_ring s"
  have inv: "writer_inv (W_writing data head i) ?r buf" using threads_viewD(3) [OF view] w by simp
  define b where "b = (rb_buf ?r)[unat ((head + of_nat i) mod rb_capacity ?r) := frame_byte data i]"
  have s: "writer_step s = s\<lparr>th_ring := ?r\<lparr>rb_buf := b\<rparr>, th_writer := W_writing data head (i + 1)\<rparr>"
    using i by (simp only: writer_step_def Let_def w writer.case if_True b_def)
  have "take (i + 1) (frame data) = take i (frame data) @ [frame_byte data i]"
    using i by (simp add: take_Suc_conv_app_nth frame_byte_nth)
  then have b: "b = write_from (rb_capacity ?r) head (take (i + 1) (frame data)) buf"
    using i inv by (simp add: write_from_append b_def)
  have len: "length b = length (rb_buf ?r)" by (simp add: b_def)
  have "writer_inv (W_writing data head (i + 1)) (?r\<lparr>rb_buf := b\<rparr>) buf" using inv i b by simp
  then show ?thesis
    unfolding s using threads_viewD [OF view] len
    by (intro threads_invI [of _ buf]) (simp add: threads_view_def)
qed

lemma store_head:
  assumes view: "threads_view s buf" and w: "th_writer s = W_writing data head i" and i: "\<not> i < 4 + length data"
  shows "threads_inv (writer_step s)"
proof -
  let ?r = "th_ring s"
  have inv: "writer_inv (W_writing data head i) ?r buf" using threads_viewD(3) [OF view] w by simp
  then have buf: "rb_buf ?r = write_from (rb_capacity ?r) (rb_head ?r) (frame data) buf" using i by simp
  have head: "head = rb_head ?r" and ok: "sendable data" and room: "ring_used ?r + 4 + length data \<le> unat (rb_capacity ?r)"
    using inv by simp_all
  note p = publish [OF threads_viewD(1) [OF view] ok room buf]
  define r' where "r' = ?r\<lparr>rb_head := rb_head ?r + (4 + of_nat (length data))\<rparr>"
  have s: "writer_step s = s\<lparr>th_ring := r', th_writer := W_idle, th_sent := th_sent s @ [data]\<rparr>"
    using i by (simp only: writer_step_def Let_def w writer.case if_False r'_def head)
  have same: "r'\<lparr>rb_buf := rb_buf r'\<rparr> = r'" by (cases r') simp
  have msgs: "ring_msgs r' = flight s buf @ [data]" and r': "ring_inv r'"
    unfolding r'_def by (fact p(2), fact p(3))
  have tail: "rb_tail r' = rb_tail ?r" by (simp add: r'_def)
  have "reader_inv (th_reader s) r' (ring_msgs r')"
    using threads_viewD(4) [OF view] tail unfolding msgs by (cases "th_reader s") (auto simp: nth_append)
  then show ?thesis
    unfolding s using r' msgs threads_viewD(5) [OF view]
    by (intro threads_invI [of _ "rb_buf r'"]) (simp add: threads_view_def same)
qed

lemma writer_step_inv:
  assumes "threads_inv s"
  shows "threads_inv (writer_step s)"
proof -
  obtain buf where view: "threads_view s buf" using assms unfolding threads_inv_def by blast
  show ?thesis
  proof (cases "th_writer s")
    case W_idle
    then show ?thesis using assms by (simp add: writer_step_def Let_def)
  next
    case (W_loaded data head)
    then show ?thesis by (rule load_tail [OF view])
  next
    case (W_writing data head i)
    then show ?thesis
      using write_byte [OF view] store_head [OF view] by (cases "i < 4 + length data") blast+
  qed
qed

text \<open>Storing the reader's counter is the whole atomic \<open>pop\<close>.\<close>

lemma ring_pop_tail:
  assumes "ring_inv r" "ring_msgs r = m # ms"
  shows "ring_pop r = (r\<lparr>rb_tail := rb_tail r + (4 + of_nat (length m))\<rparr>, Some m)"
proof -
  obtain r' where r': "ring_pop r = (r', Some m)" using ring_pop_next [OF assms] by blast
  let ?len = "from_le (read_from (rb_capacity r) (rb_tail r) 4 (rb_buf r))"
  have "rb_tail r \<noteq> rb_head r" and e: "r' = r\<lparr>rb_tail := rb_tail r + (4 + ?len)\<rparr>"
    and m: "m = read_from (rb_capacity r) (rb_tail r + 4) (unat ?len) (rb_buf r)"
    using r' by (auto simp: ring_pop_def Let_def split: if_splits)
  have "of_nat (length m) = ?len" by (subst m) simp
  then show ?thesis using r' e by simp
qed

lemma load_head:
  assumes view: "threads_view s buf" and rd: "th_reader s = R_loaded tail"
  shows "threads_inv (reader_step s)"
proof -
  have "flight s buf \<noteq> []" if "rb_tail (th_ring s) \<noteq> rb_head (th_ring s)"
    using ring_pop_empty [OF threads_viewD(1) [OF view]] that by (auto simp: ring_pop_def Let_def split: if_splits)
  then show ?thesis
    using view_reader [OF view] threads_viewD(4) [OF view] rd by (auto simp: reader_step_def Let_def)
qed

lemma read_length:
  assumes view: "threads_view s buf" and rd: "th_reader s = R_len tail bs"
  shows "threads_inv (reader_step s)"
proof -
  let ?r = "th_ring s"
  obtain m ms where l: "tail = rb_tail ?r" "flight s buf = m # ms" "length bs \<le> 4" "bs = take (length bs) (frame m)"
    using threads_viewD(4) [OF view] rd by (cases "flight s buf") simp_all
  show ?thesis
  proof (cases "length bs < 4")
    case True
    let ?b = "rb_buf ?r ! unat ((tail + of_nat (length bs)) mod rb_capacity ?r)"
    have "?b = frame m ! length bs"
      using read_in_flight [OF threads_viewD(1,3) [OF view] l(2), of "length bs"] True l(1) by simp
    then have "bs @ [?b] = take (length (bs @ [?b])) (frame m)"
      using l(4) True by (simp add: take_Suc_conv_app_nth)
    then show ?thesis using view_reader [OF view] rd True l by (simp add: reader_step_def Let_def)
  next
    case False
    then have "bs = to_le (of_nat (length m))" using l(3,4) by (simp add: frame_def)
    then have "from_le bs = of_nat (length m)" by simp
    then show ?thesis using view_reader [OF view] rd False l by (simp add: reader_step_def Let_def)
  qed
qed

lemma read_data:
  assumes view: "threads_view s buf" and rd: "th_reader s = R_data tail len bs" and more: "length bs < unat len"
  shows "threads_inv (reader_step s)"
proof -
  let ?r = "th_ring s"
  obtain m ms where l: "tail = rb_tail ?r" "flight s buf = m # ms" "len = of_nat (length m)" "bs = take (length bs) m"
    using threads_viewD(4) [OF view] rd by (cases "flight s buf") simp_all
  have len: "length bs < length m"
    using ring_msgs_sendable [OF threads_viewD(1) [OF view], of m] l(2,3) more by (simp add: sendable_def unat_of_nat)
  let ?b = "rb_buf ?r ! unat ((tail + 4 + of_nat (length bs)) mod rb_capacity ?r)"
  have "?b = frame m ! (4 + length bs)"
    using read_in_flight [OF threads_viewD(1,3) [OF view] l(2), of "4 + length bs"] len l(1) by (simp add: add.assoc)
  then have "?b = m ! length bs" by (simp add: frame_def nth_append)
  then have "bs @ [?b] = take (length (bs @ [?b])) m" using l(4) len by (simp add: take_Suc_conv_app_nth)
  moreover have "min (length m) (Suc (length bs)) = Suc (length bs)" using len by simp
  ultimately show ?thesis using view_reader [OF view] rd more l by (simp add: reader_step_def Let_def)
qed

lemma store_tail:
  assumes view: "threads_view s buf" and rd: "th_reader s = R_data tail len bs" and all: "\<not> length bs < unat len"
  shows "threads_inv (reader_step s)"
proof -
  let ?r = "th_ring s"
  obtain m ms where l: "tail = rb_tail ?r" "flight s buf = m # ms" "len = of_nat (length m)" "bs = take (length bs) m"
    using threads_viewD(4) [OF view] rd by (cases "flight s buf") simp_all
  have "unat len = length m"
    using ring_msgs_sendable [OF threads_viewD(1) [OF view], of m] l(2,3) by (simp add: sendable_def unat_of_nat)
  then have "bs = m" using l(4) all by simp
  let ?r' = "?r\<lparr>rb_tail := rb_tail ?r + (4 + of_nat (length m))\<rparr>"
  have s: "reader_step s = s\<lparr>th_ring := ?r', th_reader := R_idle, th_got := th_got s @ [m]\<rparr>"
    using rd all l(1,3) \<open>bs = m\<close> by (simp add: reader_step_def Let_def)
  have "ring_pop (?r\<lparr>rb_buf := buf\<rparr>) = (?r'\<lparr>rb_buf := buf\<rparr>, Some m)"
    using ring_pop_tail [OF threads_viewD(1) [OF view] l(2)] by simp
  then have v: "ring_msgs (?r'\<lparr>rb_buf := buf\<rparr>) = ms" "ring_inv (?r'\<lparr>rb_buf := buf\<rparr>)"
    using ring_pop_next [OF threads_viewD(1) [OF view] l(2)] by auto
  have "ring_used ?r' \<le> ring_used ?r"
    using ring_used_size [OF threads_viewD(1) [OF view]] ring_used_size [OF v(2)] l(2) v(1) by simp
  then have "writer_inv (th_writer s) ?r' buf"
    using threads_viewD(3) [OF view] by (cases "th_writer s") auto
  then show ?thesis
    by (intro threads_invI [of _ buf]) (use threads_viewD(2,5) [OF view] l(2) v in \<open>simp add: threads_view_def s\<close>)
qed

lemma reader_step_inv:
  assumes "threads_inv s"
  shows "threads_inv (reader_step s)"
proof -
  obtain buf where view: "threads_view s buf" using assms unfolding threads_inv_def by blast
  show ?thesis
  proof (cases "th_reader s")
    case R_idle
    then show ?thesis using assms by (simp add: reader_step_def Let_def)
  next
    case (R_loaded tail)
    then show ?thesis by (rule load_head [OF view])
  next
    case (R_len tail bs)
    then show ?thesis by (rule read_length [OF view])
  next
    case (R_data tail len bs)
    then show ?thesis
      using read_data [OF view] store_tail [OF view] by (cases "length bs < unat len") blast+
  qed
qed

lemma ring_op_step_inv:
  "threads_inv s \<Longrightarrow> \<forall>data. op = Start_push data \<longrightarrow> sendable data \<Longrightarrow> threads_inv (ring_op_step op s)"
  by (cases op) (simp_all add: start_push_inv writer_step_inv start_pop_inv reader_step_inv)

lemma threads_run_simps [simp]:
  "threads_run [] s = s" "threads_run (op # ops) s = threads_run ops (ring_op_step op s)"
  by (simp_all add: threads_run_def)

lemma threads_run_inv:
  "threads_inv s \<Longrightarrow> \<forall>data. Start_push data \<in> set ops \<longrightarrow> sendable data \<Longrightarrow> threads_inv (threads_run ops s)"
  by (induction ops arbitrary: s) (auto simp: ring_op_step_inv)

lemma ring_op_step_capacity [simp]: "rb_capacity (th_ring (ring_op_step op s)) = rb_capacity (th_ring s)"
  by (cases op) (simp_all add: start_push_def writer_step_def start_pop_def reader_step_def Let_def
      split: writer.split reader.split)

lemma threads_run_capacity [simp]: "rb_capacity (th_ring (threads_run ops s)) = rb_capacity (th_ring s)"
  by (induction ops arbitrary: s) simp_all

section \<open>A reader that runs alone\<close>

text \<open>
  From any point inside \<open>pop\<close> but a loaded counter that equals the head, the reader alone returns a message; it
  does not touch what has been sent.
\<close>

lemma reader_step_sent [simp]: "th_sent (reader_step s) = th_sent s" "th_sent (threads_run (replicate k Reader_step) s) = th_sent s"
proof -
  show "th_sent (reader_step s) = th_sent s" for s by (simp add: reader_step_def Let_def split: reader.split)
  then show "th_sent (threads_run (replicate k Reader_step) s) = th_sent s" by (induction k arbitrary: s) simp_all
qed

lemma reader_alone_data:
  "th_reader s = R_data tail len bs \<Longrightarrow> unat len = length bs + n \<Longrightarrow>
    length (th_got (threads_run (replicate (Suc n) Reader_step) s)) = Suc (length (th_got s))"
proof (induction n arbitrary: s bs)
  case 0
  then show ?case by (simp add: reader_step_def Let_def)
next
  case (Suc n)
  define t where "t = reader_step s"
  have "\<exists>b. th_reader t = R_data tail len (bs @ [b])" "th_got t = th_got s"
    using Suc.prems by (simp_all add: t_def reader_step_def Let_def)
  then show ?case using Suc.IH [of t] Suc.prems(2) by (auto simp: t_def [symmetric] simp del: replicate_Suc) (simp add: t_def [symmetric])
qed

lemma reader_alone_len:
  "th_reader s = R_len tail bs \<Longrightarrow> 4 = length bs + n \<Longrightarrow>
    \<exists>k. length (th_got (threads_run (replicate k Reader_step) s)) = Suc (length (th_got s))"
proof (induction n arbitrary: s bs)
  case 0
  define t where "t = reader_step s"
  have "th_reader t = R_data tail (from_le bs) []" "th_got t = th_got s"
    using 0 by (simp_all add: t_def reader_step_def Let_def)
  then have "length (th_got (threads_run (replicate (Suc (Suc (unat (from_le bs)))) Reader_step) s)) = Suc (length (th_got s))"
    using reader_alone_data [of t tail "from_le bs" "[]"] by (simp add: t_def)
  then show ?case by blast
next
  case (Suc n)
  define t where "t = reader_step s"
  have "\<exists>b. th_reader t = R_len tail (bs @ [b])" "th_got t = th_got s"
    using Suc.prems by (simp_all add: t_def reader_step_def Let_def)
  then obtain k where "length (th_got (threads_run (replicate k Reader_step) t)) = Suc (length (th_got s))"
    using Suc.IH [of t] Suc.prems(2) by fastforce
  then have "length (th_got (threads_run (replicate (Suc k) Reader_step) s)) = Suc (length (th_got s))"
    by (simp add: t_def)
  then show ?case by blast
qed

lemma pop_alone:
  assumes inv: "threads_inv s" and idle: "th_reader s = R_idle" and ps: "th_sent s = th_got s @ p # ps"
  shows "\<exists>k. th_got (threads_run (Start_pop # replicate k Reader_step) s) = th_got s @ [p]"
proof -
  obtain buf where b: "ring_inv (th_ring s\<lparr>rb_buf := buf\<rparr>)" "th_sent s = th_got s @ flight s buf"
    using inv threads_viewD(1,5) unfolding threads_inv_def by blast
  have "ring_msgs (th_ring s\<lparr>rb_buf := buf\<rparr>) = p # ps" using b(2) ps by simp
  then have "ring_used (th_ring s) \<noteq> 0" using ring_used_size [OF b(1)] by simp
  then have ne: "rb_tail (th_ring s) \<noteq> rb_head (th_ring s)" by (auto simp: ring_used_def)
  define t where "t = reader_step (start_pop s)"
  have "th_reader t = R_len (rb_tail (th_ring s)) []" "th_got t = th_got s"
    using ne idle by (simp_all add: t_def start_pop_def reader_step_def Let_def)
  then obtain k where k: "length (th_got (threads_run (replicate k Reader_step) t)) = Suc (length (th_got s))"
    using reader_alone_len [of t _ "[]" 4] by auto
  let ?u = "threads_run (Start_pop # replicate (Suc k) Reader_step) s"
  have "\<forall>data. Start_push data \<in> set (Start_pop # replicate (Suc k) Reader_step) \<longrightarrow> sendable data" by auto
  then have "threads_inv ?u" using threads_run_inv [OF inv] by blast
  then obtain rest where "th_sent ?u = th_got ?u @ rest" using threads_viewD(5) unfolding threads_inv_def by blast
  moreover have "th_sent ?u = th_sent s" by (simp add: start_pop_def split: reader.split)
  moreover have "length (th_got ?u) = Suc (length (th_got s))" using k by (simp add: t_def)
  ultimately have "th_got ?u = take (Suc (length (th_got s))) (th_got s @ p # ps)"
    using ps by (metis append_eq_conv_conj)
  then show ?thesis by (intro exI [of _ "Suc k"]) simp
qed

section \<open>Property\<close>

text \<open>
  C6: however the single loads, stores and bytes of one writer and one reader interleave, the messages that \<open>pop\<close>
  has returned followed by those still in flight are the messages that \<open>push\<close> has accepted, in order and
  unchanged; what is in flight fits the buffer; and whenever something is in flight a reader between calls that
  then runs alone returns the oldest of it.
\<close>

theorem threads_deliver_in_order:
  assumes "0 < n" "n < 2 ^ 32" "n dvd 2 ^ 32" "\<forall>data. Start_push data \<in> set ops \<longrightarrow> sendable data"
  defines "s \<equiv> threads_run ops (threads_start n)"
  shows "\<exists>held. th_sent s = th_got s @ held \<and> frames_size held \<le> n \<and>
    (\<forall>p ps. held = p # ps \<longrightarrow> th_reader s = R_idle \<longrightarrow>
       (\<exists>k. th_got (threads_run (Start_pop # replicate k Reader_step) s) = th_got s @ [p]))"
proof -
  have inv: "threads_inv s"
    unfolding s_def by (rule threads_run_inv [OF threads_start_inv [OF assms(1-3)] assms(4)])
  then obtain buf where b: "ring_inv (th_ring s\<lparr>rb_buf := buf\<rparr>)" "th_sent s = th_got s @ flight s buf"
    using threads_viewD(1,5) unfolding threads_inv_def by blast
  have "unat (rb_capacity (th_ring s)) = n"
    using assms(2) by (simp add: s_def threads_start_def ring_new_def unat_of_nat)
  then have "frames_size (ring_msgs (th_ring s\<lparr>rb_buf := buf\<rparr>)) \<le> n"
    using b(1) ring_used_size [OF b(1)] by (simp add: ring_inv_def)
  then show ?thesis using b(2) pop_alone [OF inv] by auto
qed

text \<open>A message is on its way while the writer has begun the next one.\<close>

definition sample_interleaving :: "ring_op list" where
  "sample_interleaving = Start_push [7] # replicate 7 Writer_step @ Start_push [8, 9] # replicate 3 Writer_step"

theorem threads_deliver_in_order_witness:
  "let s = threads_run sample_interleaving (threads_start 16) in
   th_sent s = [[7]] \<and> th_got s = [] \<and>
   (\<exists>k. th_got (threads_run (Start_pop # replicate k Reader_step) s) = [[7]])"
proof -
  let ?s = "threads_run sample_interleaving (threads_start 16)"
  have ok: "\<forall>data. Start_push data \<in> set sample_interleaving \<longrightarrow> sendable data"
    by (auto simp: sample_interleaving_def sendable_def)
  have s: "th_sent ?s = [[7]]" "th_got ?s = []" "th_reader ?s = R_idle" by code_simp+
  have "(16 :: nat) dvd 2 ^ 32" by simp
  then obtain held where f: "th_sent ?s = th_got ?s @ held"
      "\<forall>p ps. held = p # ps \<longrightarrow> th_reader ?s = R_idle \<longrightarrow>
       (\<exists>k. th_got (threads_run (Start_pop # replicate k Reader_step) ?s) = th_got ?s @ [p])"
    using threads_deliver_in_order [of 16, OF _ _ _ ok] by auto
  then have "held = [[7]]" using s by simp
  then show ?thesis using f(2) s by (simp add: Let_def)
qed

end
