(* ===== verification/Turtle_Text.thy ===== *)
theory Turtle_Text
  imports Prelude Utf8
begin

text \<open>
  The text level of the router, \<^verbatim>\<open>src/dispatch.rs\<close>: the type and the properties of a Turtle
  line are found by substring search, leading directives are cut off, and text is escaped before it
  is put between quotation marks.  The three escaping functions of the program
  (\<^verbatim>\<open>dispatch.rs\<close>, \<^verbatim>\<open>carrier.rs\<close>, \<^verbatim>\<open>ffi.rs\<close>) are interpretations of one locale, whose
  contract is that a Turtle reader gets the text back.
\<close>

section \<open>Names\<close>

definition quote :: char where "quote = CHR 0x22"
definition backslash :: char where "backslash = CHR 0x5C"

definition sp_ns :: str where "sp_ns = ''http://spinrdf.org/sp#''"
definition spin_ns :: str where "spin_ns = ''http://spinrdf.org/spin#''"
definition antenna_ns :: str where "antenna_ns = ''http://resonator.network/v2/antenna#''"
definition carrier_ns :: str where "carrier_ns = ''http://resonator.network/v2/carrier#''"
definition design_ns :: str where "design_ns = ''http://resonator.network/v2/design#''"
definition rdf_ns :: str where "rdf_ns = ''http://www.w3.org/1999/02/22-rdf-syntax-ns#''"

text \<open>The prefix declarations put before every statement given to the store.\<close>

definition prefix_decl :: "str \<Rightarrow> str \<Rightarrow> str" where
  "prefix_decl p iri = ''@prefix '' @ p @ '': <'' @ iri @ ''> .''"

definition turtle_prefixes :: str where
  "turtle_prefixes =
     prefix_decl ''carrier'' carrier_ns @ [newline] @
     prefix_decl ''antenna'' antenna_ns @ [newline] @
     prefix_decl ''design'' design_ns @ [newline] @
     prefix_decl ''sp'' sp_ns @ [newline] @
     prefix_decl ''spin'' spin_ns @ [newline] @
     prefix_decl ''xsd'' ''http://www.w3.org/2001/XMLSchema#''"

section \<open>Escaping\<close>

text \<open>\<open>dispatch::turtle_escape\<close> replaces one character after the other.\<close>

definition dispatch_escape :: "str \<Rightarrow> str" where
  "dispatch_escape s =
     replace_char creturn [backslash, CHR ''r'']
       (replace_char newline [backslash, CHR ''n'']
         (replace_char quote [backslash, quote]
           (replace_char backslash [backslash, backslash] s)))"

text \<open>\<open>carrier::turtle_escape\<close> and \<open>ffi::escape_turtle_string\<close> go over the characters once.\<close>

fun carrier_escape :: "str \<Rightarrow> str" where
  "carrier_escape [] = []"
| "carrier_escape (c # s) =
     (if c = quote then [backslash, quote]
      else if c = backslash then [backslash, backslash]
      else if c = newline then [backslash, CHR ''n'']
      else if c = creturn then [backslash, CHR ''r'']
      else [c]) @ carrier_escape s"

fun ffi_escape :: "str \<Rightarrow> str" where
  "ffi_escape [] = []"
| "ffi_escape (c # s) =
     (if c = backslash then [backslash, backslash]
      else if c = quote then [backslash, quote]
      else if c = newline then [backslash, CHR ''n'']
      else if c = creturn then [backslash, CHR ''r'']
      else [c]) @ ffi_escape s"

text \<open>What one character becomes inside a quoted literal.\<close>

definition esc_char :: "char \<Rightarrow> str" where
  "esc_char c =
     (if c = quote then [backslash, quote]
      else if c = backslash then [backslash, backslash]
      else if c = newline then [backslash, CHR ''n'']
      else if c = creturn then [backslash, CHR ''r'']
      else [c])"

text \<open>
  The reader's side: the rest of a Turtle \<open>STRING_LITERAL_QUOTE\<close> after its opening quotation mark,
  up to the closing one, with the escapes that stand for one character decoded.  Line feeds and
  carriage returns may not stand in it, and a backslash must begin an escape.
\<close>

definition unesc_char :: "char \<Rightarrow> char option" where
  "unesc_char c =
     (if c = quote \<or> c = backslash \<or> c = CHR 0x27 then Some c
      else if c = CHR ''n'' then Some newline
      else if c = CHR ''r'' then Some creturn
      else if c = CHR ''t'' then Some (CHR 0x09)
      else if c = CHR ''b'' then Some (CHR 0x08)
      else if c = CHR ''f'' then Some (CHR 0x0C)
      else None)"

fun read_literal :: "str \<Rightarrow> (str \<times> str) option" where
  "read_literal [] = None"
| "read_literal (c # s) =
     (if c = quote then Some ([], s)
      else if c = newline \<or> c = creturn then None
      else if c = backslash then
        (case s of
           [] \<Rightarrow> None
         | e # s' \<Rightarrow> (case (unesc_char e, read_literal s') of
              (Some d, Some (v, rest)) \<Rightarrow> Some (d # v, rest)
            | _ \<Rightarrow> None))
      else (case read_literal s of Some (v, rest) \<Rightarrow> Some (c # v, rest) | None \<Rightarrow> None))"

named_theorems char_names \<open>the special characters, as codes\<close>
declare quote_def [char_names] backslash_def [char_names] newline_def [char_names] creturn_def [char_names]

lemma special_distinct [simp]:
  shows "quote \<noteq> backslash" "backslash \<noteq> quote" "quote \<noteq> newline" "newline \<noteq> quote"
    and "quote \<noteq> creturn" "creturn \<noteq> quote" "backslash \<noteq> newline" "newline \<noteq> backslash"
    and "backslash \<noteq> creturn" "creturn \<noteq> backslash" "newline \<noteq> creturn" "creturn \<noteq> newline"
  by (simp_all add: char_names)

lemma unesc_char_simps [simp]:
  shows "unesc_char quote = Some quote" "unesc_char backslash = Some backslash"
    and "unesc_char (CHR ''n'') = Some newline" "unesc_char (CHR ''r'') = Some creturn"
  by (simp_all add: unesc_char_def char_names)

lemma read_literal_esc_char:
  "read_literal (esc_char c @ s) = (case read_literal s of Some (v, rest) \<Rightarrow> Some (c # v, rest) | None \<Rightarrow> None)"
proof -
  consider "c = quote" | "c = backslash" | "c = newline" | "c = creturn"
    | "c \<noteq> quote" "c \<noteq> backslash" "c \<noteq> newline" "c \<noteq> creturn" by blast
  then show ?thesis by cases (simp_all add: esc_char_def cong: option.case_cong prod.case_cong)
qed

lemma esc_char_breaks [simp]: "newline \<notin> set (esc_char c)" "creturn \<notin> set (esc_char c)"
  by (simp_all add: esc_char_def) (simp_all add: char_names)

lemma esc_char_length: "1 \<le> length (esc_char c)" "length (esc_char c) \<le> 2"
  by (simp_all add: esc_char_def)

text \<open>
  The contract of an escaping function: it works character by character, and each becomes what the
  reader decodes.
\<close>

locale literal_escape =
  fixes esc :: "str \<Rightarrow> str"
  assumes esc_Nil: "esc [] = []"
    and esc_Cons: "esc (c # s) = esc_char c @ esc s"
begin

lemma esc_append: "esc (s @ t) = esc s @ esc t"
  by (induction s) (simp_all add: esc_Nil esc_Cons)

lemma esc_concat: "esc s = concat (map esc_char s)"
  by (induction s) (simp_all add: esc_Nil esc_Cons)

lemma read_back: "read_literal (esc s @ quote # rest) = Some (s, rest)"
  by (induction s) (simp_all add: esc_Nil esc_Cons read_literal_esc_char)

lemma esc_inj: "esc s = esc t \<longleftrightarrow> s = t"
  by (metis read_back option.inject prod.inject)

lemma esc_no_breaks: "newline \<notin> set (esc s) \<and> creturn \<notin> set (esc s)"
  by (induction s) (simp_all add: esc_Nil esc_Cons)

lemma esc_length: "length s \<le> length (esc s) \<and> length (esc s) \<le> 2 * length s"
proof (induction s)
  case (Cons c s)
  then show ?case using esc_char_length [of c] by (simp add: esc_Cons)
qed (simp add: esc_Nil)

lemma esc_id: "\<forall>c \<in> set s. c \<notin> {quote, backslash, newline, creturn} \<Longrightarrow> esc s = s"
  by (induction s) (auto simp: esc_Nil esc_Cons esc_char_def)

lemma esc_id_iff: "esc s = s \<longleftrightarrow> (\<forall>c \<in> set s. c \<notin> {quote, backslash, newline, creturn})"
proof
  have longer: "length (esc_char c) > 1" if "c \<in> {quote, backslash, newline, creturn}" for c
    using that by (auto simp: esc_char_def)
  assume eq: "esc s = s"
  show "\<forall>c \<in> set s. c \<notin> {quote, backslash, newline, creturn}"
  proof (rule ccontr)
    assume "\<not> ?thesis"
    then obtain c where c: "c \<in> set s" "c \<in> {quote, backslash, newline, creturn}" by blast
    then obtain a b where "s = a @ c # b" by (meson split_list)
    then have "length (esc s) > length s"
      using longer [OF c(2)] esc_length [of a] esc_length [of b] by (simp add: esc_append esc_Cons)
    then show False using eq by simp
  qed
qed (rule esc_id)

end

lemma replace_char_Cons: "replace_char c r (x # s) = (if x = c then r else [x]) @ replace_char c r s"
  by (simp add: replace_char_def)

lemma replace_char_append: "replace_char c r (s @ t) = replace_char c r s @ replace_char c r t"
  by (simp add: replace_char_def)

interpretation dispatch_lit: literal_escape dispatch_escape
  by unfold_locales (auto simp: dispatch_escape_def replace_char_Cons replace_char_append esc_char_def char_names)

interpretation carrier_lit: literal_escape carrier_escape
  by unfold_locales (auto simp: esc_char_def)

interpretation ffi_lit: literal_escape ffi_escape
  by unfold_locales (auto simp: esc_char_def char_names)

section \<open>Leading directives\<close>

text \<open>
  The position after the full stop that ends a directive, outside an IRI in angle brackets.  The
  characters looked at are single bytes, so the scan may go byte by byte.
\<close>

fun directive_end :: "bool \<Rightarrow> nat \<Rightarrow> str \<Rightarrow> nat option" where
  "directive_end in_iri i [] = None"
| "directive_end in_iri i (c # s) =
     (if c = CHR ''<'' then directive_end True (i + 1) s
      else if c = CHR ''>'' then directive_end False (i + 1) s
      else if c = CHR ''.'' \<and> \<not> in_iri then Some (i + 1)
      else directive_end in_iri (i + 1) s)"

lemma directive_end_bounds: "directive_end b i s = Some e \<Longrightarrow> i < e \<and> e \<le> i + length s"
  by (induction b i s rule: directive_end.induct) (auto split: if_splits)

text \<open>The loop of \<open>strip_leading_directives\<close>, on text with no white space in front.\<close>

function strip_directives_loop :: "str \<Rightarrow> str" where
  "strip_directives_loop s =
     (if starts_with ''@'' s
      then (case directive_end False 0 s of
              Some e \<Rightarrow> strip_directives_loop (trim_start (drop e s))
            | None \<Rightarrow> [])
      else s)"
  by pat_completeness auto
termination
proof (relation "measure length")
  fix s e assume "starts_with ''@'' s" "directive_end False 0 s = Some e"
  then show "(trim_start (drop e s), s) \<in> measure length"
    using directive_end_bounds [of False 0 s e] length_trim_start [of "drop e s"] by simp linarith
qed simp

declare strip_directives_loop.simps [simp del]

definition strip_leading_directives :: "str \<Rightarrow> str" where
  "strip_leading_directives line = strip_directives_loop (trim_start line)"

section \<open>The type of a line\<close>

definition type_ns :: "str \<Rightarrow> str option" where
  "type_ns pfx =
     (if pfx = ''sp'' then Some sp_ns
      else if pfx = ''spin'' then Some spin_ns
      else if pfx = ''carrier'' then Some carrier_ns
      else if pfx = ''antenna'' then Some antenna_ns
      else if pfx = ''design'' then Some design_ns
      else if pfx = ''rdf'' then Some rdf_ns
      else None)"

definition value_ends :: "char set" where
  "value_ends = {CHR '' '', CHR '';'', CHR ''.''}"

definition extract_rdf_type :: "str \<Rightarrow> str option" where
  "extract_rdf_type line0 =
     (let line = trim line0
      in case find_str '' a '' line of
           None \<Rightarrow> None
         | Some pos \<Rightarrow>
             (let after = trim_start (drop (pos + 3) line)
              in if starts_with ''<'' after
                 then (case find_str ''>'' after of
                         Some e \<Rightarrow> Some (take (e - 1) (drop 1 after))
                       | None \<Rightarrow> None)
                 else (let type_str = trim (first_token value_ends after)
                       in case split_once '':'' type_str of
                            None \<Rightarrow> None
                          | Some (pfx, local) \<Rightarrow>
                              (case type_ns pfx of None \<Rightarrow> None | Some ns \<Rightarrow> Some (ns @ local)))))"

section \<open>The value of a property\<close>

text \<open>
  The index of the first quotation mark that no backslash escapes, 0 if there is none.  Neither
  character occurs inside a multi-byte one, so the scan may go byte by byte.
\<close>

fun literal_end :: "bool \<Rightarrow> nat \<Rightarrow> str \<Rightarrow> nat" where
  "literal_end escaped i [] = 0"
| "literal_end escaped i (c # s) =
     (if escaped then literal_end False (i + 1) s
      else if c = backslash then literal_end True (i + 1) s
      else if c = quote then i
      else literal_end False (i + 1) s)"

definition extract_property :: "str \<Rightarrow> str \<Rightarrow> str option" where
  "extract_property line prop =
     (let search = prop @ '' ''
      in case find_str search line of
           None \<Rightarrow> None
         | Some pos \<Rightarrow>
             (let after = trim (drop (pos + length search) line)
              in case strip_prefix [quote] after of
                   Some inner \<Rightarrow>
                     (let e = literal_end False 0 inner
                      in if e > 0 then Some (take e inner) else None)
                 | None \<Rightarrow>
                     (let val = trim (first_token value_ends after)
                      in if val \<noteq> [] then Some val else None)))"

lemma literal_end_esc:
  "(\<forall>c \<in> set w. c \<noteq> quote \<and> c \<noteq> backslash) \<Longrightarrow> literal_end False i (w @ s) = literal_end False (i + length w) s"
  by (induction w arbitrary: i) simp_all

lemma literal_end_esc_char: "literal_end False i (esc_char c @ s) = literal_end False (i + length (esc_char c)) s"
  by (simp add: esc_char_def)

context literal_escape
begin

lemma esc_nonempty: "v \<noteq> [] \<Longrightarrow> esc v \<noteq> []"
  using esc_length [of v] by auto

lemma literal_end_escaped: "literal_end False i (esc v @ quote # rest) = i + length (esc v)"
  by (induction v arbitrary: i) (simp_all add: esc_Nil esc_Cons literal_end_esc_char)

end

lemma strip_directives_fixpoint: "\<not> starts_with ''@'' (strip_directives_loop s)"
proof (induction s rule: strip_directives_loop.induct)
  case (1 s)
  then show ?case by (subst strip_directives_loop.simps) (simp split: option.splits)
qed

lemma strip_directives_suffix: "\<exists>w. s = w @ strip_directives_loop s"
proof (induction s rule: strip_directives_loop.induct)
  case (1 s)
  show ?case
  proof (cases "\<exists>e. starts_with ''@'' s \<and> directive_end False 0 s = Some e")
    case True
    then obtain e where e: "starts_with ''@'' s" "directive_end False 0 s = Some e" by blast
    obtain w where "trim_start (drop e s) = w @ strip_directives_loop (trim_start (drop e s))"
      using 1 [OF e] by blast
    moreover obtain v where "drop e s = v @ trim_start (drop e s)"
      using trim_start_suffix by blast
    ultimately have "s = take e s @ v @ w @ strip_directives_loop (trim_start (drop e s))"
      by (metis append_take_drop_id)
    moreover have "strip_directives_loop s = strip_directives_loop (trim_start (drop e s))"
      using e by (subst strip_directives_loop.simps) simp
    ultimately show ?thesis by (metis append_assoc)
  next
    case False
    then have "strip_directives_loop s = s \<or> strip_directives_loop s = []"
      by (subst (1 2) strip_directives_loop.simps) auto
    then show ?thesis by auto
  qed
qed

lemma white_len_Nil [simp]: "white_len [] = 0"
  by (simp add: white_len_def)

lemma strip_directives_nonwhite: "white_len s = 0 \<Longrightarrow> white_len (strip_directives_loop s) = 0"
proof (induction s rule: strip_directives_loop.induct)
  case (1 s)
  then show ?case
    by (subst strip_directives_loop.simps) (auto split: option.splits)
qed

lemma strip_no_directive: "\<not> starts_with ''@'' s \<Longrightarrow> strip_directives_loop s = s"
  by (simp add: strip_directives_loop.simps)

section \<open>Trimming keeps what stands before a plain character\<close>

lemma white_dropped:
  shows "c \<in> set (take (white_len s) s) \<Longrightarrow> \<not> plain_char c"
    and "c \<in> set (take (white_len_rev s) s) \<Longrightarrow> \<not> plain_char c"
  by (auto simp: white_len_def white_len_rev_def plain_not_white split: list.splits if_splits)

lemma trim_rev_dropped: "\<exists>w. s = w @ trim_rev s \<and> (\<forall>c \<in> set w. \<not> plain_char c)"
proof (induction s rule: trim_rev.induct)
  case (1 s)
  show ?case
  proof (cases "white_len_rev s = 0")
    case True
    then have "s = [] @ trim_rev s" by (simp add: trim_rev.simps [of s])
    then show ?thesis by (metis empty_iff empty_set)
  next
    case False
    then obtain w where w: "drop (white_len_rev s) s = w @ trim_rev (drop (white_len_rev s) s)"
        "\<forall>c \<in> set w. \<not> plain_char c"
      using 1 by blast
    have "s = (take (white_len_rev s) s @ w) @ trim_rev s"
      using w(1) False by (metis append.assoc append_take_drop_id trim_rev.simps)
    moreover have "\<forall>c \<in> set (take (white_len_rev s) s @ w). \<not> plain_char c"
      using w(2) white_dropped(2) [of _ s] by auto
    ultimately show ?thesis by blast
  qed
qed

lemma trim_end_keeps:
  assumes "plain_char c"
  shows "\<exists>b'. trim_end (a @ c # b) = a @ c # b' \<and> (\<exists>w. b = b' @ w)"
proof -
  obtain w where w: "rev (a @ c # b) = w @ trim_rev (rev (a @ c # b))" "\<forall>d \<in> set w. \<not> plain_char d"
    using trim_rev_dropped by blast
  then have eq: "a @ c # b = trim_end (a @ c # b) @ rev w"
    by (metis rev_append rev_rev_ident trim_end_def)
  then have "(a @ [c]) @ b = trim_end (a @ c # b) @ rev w" by simp
  then obtain us where us: "a @ [c] = trim_end (a @ c # b) @ us \<and> us @ b = rev w \<or>
      (a @ [c]) @ us = trim_end (a @ c # b) \<and> b = us @ rev w"
    unfolding append_eq_append_conv2 by blast
  show ?thesis
  proof (cases "us = []")
    case True
    then show ?thesis using us by (intro exI [of _ "[]"]) auto
  next
    case False
    have "c \<in> set w" if "a @ [c] = trim_end (a @ c # b) @ us" "us @ b = rev w"
    proof -
      have "c = last us" using that(1) False by (metis last_appendR last_snoc)
      then have "c \<in> set (us @ b)" using False by simp
      then show ?thesis using that(2) by simp
    qed
    then have "(a @ [c]) @ us = trim_end (a @ c # b) \<and> b = us @ rev w"
      using us w(2) assms by blast
    then show ?thesis by (metis append.assoc append_Cons append_Nil)
  qed
qed

lemma trim_keeps:
  assumes "plain_char d" "plain_char c"
  shows "\<exists>b'. trim (d # a @ c # b) = d # a @ c # b' \<and> (\<exists>w. b = b' @ w)"
  using trim_end_keeps [OF assms(2), of "d # a" b] assms(1) by (simp add: trim_def)

lemma plain_marks [simp]: "plain_char quote" "plain_char (CHR ''@'')" "plain_char (CHR ''['')" "plain_char (CHR ''.'')"
  by (simp_all add: plain_char_def char_names ascii_white_def)

lemma trim_plain_prefix:
  assumes "v \<noteq> []" "plain_char (hd v)" "plain_char (last v)"
  shows "\<exists>b'. trim (v @ b) = v @ b' \<and> (\<exists>w. b = b' @ w)"
proof -
  have v: "v @ b = butlast v @ last v # b" using assms(1) by (metis append.assoc append_Cons append_Nil append_butlast_last_id)
  have "trim_start (v @ b) = v @ b" using assms(1,2) by (cases v) simp_all
  then show ?thesis
    using trim_end_keeps [OF assms(3), of "butlast v" b] v assms(1)
    by (metis append.assoc append_Cons append_Nil append_butlast_last_id trim_def)
qed

text \<open>A word that the tokeniser takes as a whole.\<close>

definition token :: "str \<Rightarrow> bool" where
  "token v \<longleftrightarrow> v \<noteq> [] \<and> (\<forall>c \<in> set v. plain_char c \<and> c \<notin> value_ends)"

definition token_ends :: "str \<Rightarrow> bool" where
  "token_ends s \<longleftrightarrow> s = [] \<or> hd s \<in> value_ends"

lemma first_token_word:
  assumes "token v" "token_ends rest"
  shows "trim (first_token value_ends (v @ rest)) = v"
proof -
  have all: "\<forall>c \<in> set v. c \<notin> value_ends" using assms(1) by (simp add: token_def)
  have "takeWhile (\<lambda>c. c \<notin> value_ends) rest = []"
    using assms(2) by (cases rest) (simp_all add: token_ends_def)
  then have "first_token value_ends (v @ rest) = v"
    using all by (simp add: first_token_def takeWhile_append2)
  moreover have "trim v = v"
    using trim_plain_prefix [of v "[]"] assms(1) by (auto simp: token_def)
  ultimately show ?thesis by simp
qed

lemma token_ends_prefix: "token_ends (b @ w) \<Longrightarrow> token_ends b"
  by (cases b) (simp_all add: token_ends_def)

lemma extract_property_literal:
  assumes "find_str (prop @ '' '') line = Some (length pre)"
    and "line = pre @ prop @ '' '' @ quote # dispatch_escape v @ quote # rest" "v \<noteq> []"
  shows "extract_property line prop = Some (dispatch_escape v)"
proof -
  obtain rest' where t: "trim (quote # dispatch_escape v @ quote # rest) = quote # dispatch_escape v @ quote # rest'"
    using trim_keeps [of quote quote "dispatch_escape v" rest] by auto
  have "0 < length (dispatch_escape v)" using dispatch_lit.esc_nonempty [OF assms(3)] by simp
  moreover have "drop (length pre + length (prop @ '' '')) line = quote # dispatch_escape v @ quote # rest"
    by (simp add: assms(2))
  ultimately show ?thesis
    using assms(1) t dispatch_lit.literal_end_escaped [of 0 v rest']
    by (simp add: extract_property_def Let_def)
qed

lemma extract_property_token:
  assumes "find_str (prop @ '' '') line = Some (length pre)" "line = pre @ prop @ '' '' @ v @ rest"
    and "token v" "hd v \<noteq> quote" "token_ends rest"
  shows "extract_property line prop = Some v"
proof -
  obtain rest' w where t: "trim (v @ rest) = v @ rest'" "rest = rest' @ w"
    using trim_plain_prefix [of v rest] assms(3) by (auto simp: token_def)
  have "trim (first_token value_ends (v @ rest')) = v"
    using first_token_word [OF assms(3)] token_ends_prefix t(2) assms(5) by metis
  moreover have "strip_prefix [quote] (v @ rest') = None"
    using assms(3,4) by (cases v) (simp_all add: token_def)
  ultimately show ?thesis
    using assms(1,3) t(1) by (simp add: extract_property_def assms(2) Let_def token_def)
qed

lemma find_char: "c \<notin> set a \<Longrightarrow> find_str [c] (a @ c # b) = Some (length a)"
  by (induction a) auto

lemma token_append: "token (a @ c # b) \<longleftrightarrow> (a = [] \<or> token a) \<and> plain_char c \<and> c \<notin> value_ends \<and> (b = [] \<or> token b)"
  by (auto simp: token_def)

lemma extract_rdf_type_prefixed:
  assumes "token (pfx @ '':'' @ loc)" "token_ends rest" "CHR '':'' \<notin> set pfx" "type_ns pfx = Some ns"
  shows "extract_rdf_type (''[] a '' @ pfx @ '':'' @ loc @ rest) = Some (ns @ loc)"
proof -
  let ?name = "pfx @ '':'' @ loc"
  have name: "?name \<noteq> []" "\<forall>c \<in> set ?name. plain_char c" using assms(1) by (simp_all add: token_def)
  have "plain_char (last (''[] a '' @ ?name))" using name by simp
  then obtain rest' w where t: "trim (''[] a '' @ ?name @ rest) = ''[] a '' @ ?name @ rest'" "rest = rest' @ w"
    using trim_plain_prefix [of "''[] a '' @ ?name" rest] by auto
  have "hd ?name \<noteq> CHR ''<''"
  proof
    assume "hd ?name = CHR ''<''"
    then have "hd pfx = CHR ''<''" using assms(3) by (cases pfx) auto
    then show False using assms(4) by (auto simp: type_ns_def split: if_splits)
  qed
  then have no_iri: "\<not> starts_with ''<'' (?name @ rest')"
    by (cases pfx) simp_all
  have "plain_char (hd ?name)" using name by (metis list.set_sel(1))
  then have "trim_start (?name @ rest') = ?name @ rest'"
    by (cases pfx) simp_all
  moreover have "trim (first_token value_ends (?name @ rest')) = ?name"
    using first_token_word [OF assms(1)] token_ends_prefix t(2) assms(2) by metis
  moreover have "split_once '':'' ?name = Some (pfx, loc)"
    using find_char [OF assms(3), of loc] by (simp add: split_once_def)
  moreover have "find_str '' a '' (''[] a '' @ ?name @ rest') = Some 2" by simp
  ultimately show ?thesis
    using t(1) no_iri assms(4) by (simp add: extract_rdf_type_def Let_def)
qed

section \<open>Lines that begin with declarations\<close>

definition declarable :: "str \<times> str \<Rightarrow> bool" where
  "declarable d \<longleftrightarrow> set (fst d) \<inter> {CHR ''<'', CHR ''>'', CHR ''.''} = {} \<and> CHR ''>'' \<notin> set (snd d)"

lemma directive_end_skip:
  "set w \<inter> {CHR ''<'', CHR ''>'', CHR ''.''} = {} \<Longrightarrow>
    directive_end False i (w @ s) = directive_end False (i + length w) s"
  by (induction w arbitrary: i) auto

lemma directive_end_iri:
  "CHR ''>'' \<notin> set w \<Longrightarrow> directive_end True i (w @ s) = directive_end True (i + length w) s"
  by (induction w arbitrary: i) auto

lemma directive_end_decl:
  assumes "declarable (p, iri)"
  shows "directive_end False 0 (prefix_decl p iri @ s) = Some (length (prefix_decl p iri))"
proof -
  have "prefix_decl p iri @ s = (''@prefix '' @ p @ '': '') @ CHR ''<'' # iri @ ''> .'' @ s"
    by (simp add: prefix_decl_def)
  moreover have "set (''@prefix '' @ p @ '': '') \<inter> {CHR ''<'', CHR ''>'', CHR ''.''} = {}"
    using assms by (auto simp: declarable_def)
  ultimately have "directive_end False 0 (prefix_decl p iri @ s)
      = directive_end True (length (''@prefix '' @ p @ '': '') + 1) (iri @ ''> .'' @ s)"
    by (simp only: directive_end_skip) simp
  also have "\<dots> = Some (length (''@prefix '' @ p @ '': '') + 1 + length iri + 3)"
    using assms by (simp add: directive_end_iri declarable_def)
  finally show ?thesis by (simp add: prefix_decl_def)
qed

lemma strip_decl:
  assumes "declarable (p, iri)"
  shows "strip_directives_loop (prefix_decl p iri @ s) = strip_directives_loop (trim_start s)"
proof -
  have "starts_with ''@'' (prefix_decl p iri @ s)" by (simp add: prefix_decl_def)
  then show ?thesis
    using directive_end_decl [OF assms, of s] by (subst strip_directives_loop.simps) simp
qed

lemma strip_decls:
  assumes "sep \<in> {newline, CHR '' ''}"
  shows "\<forall>d \<in> set ds. declarable d \<Longrightarrow>
    strip_leading_directives (concat (map (\<lambda>(p, iri). prefix_decl p iri @ [sep]) ds) @ s)
      = strip_leading_directives s"
proof (induction ds)
  case (Cons d ds)
  obtain p iri where d: "d = (p, iri)" by force
  have "trim_start (prefix_decl p iri @ t) = prefix_decl p iri @ t" for t
    by (simp add: prefix_decl_def)
  moreover have "trim_start (sep # t) = trim_start t" for t using assms by auto
  ultimately show ?case
    using Cons d strip_decl [of p iri] by (simp add: strip_leading_directives_def)
qed simp

section \<open>Properties\<close>

text \<open>
  \<open>strip_leading_directives\<close> ends on every line, returns a suffix of it that neither begins
  with white space nor with a directive, and does nothing more when applied again.
\<close>

theorem strip_leading_directives_normal:
  "\<not> starts_with ''@'' (strip_leading_directives line) \<and>
   white_len (strip_leading_directives line) = 0 \<and>
   (\<exists>w. line = w @ strip_leading_directives line) \<and>
   strip_leading_directives (strip_leading_directives line) = strip_leading_directives line"
proof -
  have white: "white_len (strip_leading_directives line) = 0"
    by (simp add: strip_leading_directives_def strip_directives_nonwhite)
  obtain v w where "line = v @ trim_start line" "trim_start line = w @ strip_leading_directives line"
    using trim_start_suffix strip_directives_suffix unfolding strip_leading_directives_def by metis
  then have "\<exists>w. line = w @ strip_leading_directives line" by (metis append.assoc)
  moreover have no: "\<not> starts_with ''@'' (strip_leading_directives line)"
    unfolding strip_leading_directives_def by (rule strip_directives_fixpoint)
  moreover have "strip_leading_directives (strip_leading_directives line) = strip_leading_directives line"
    using trim_start_id [OF white] strip_no_directive [OF no]
    by (simp add: strip_leading_directives_def [of "strip_leading_directives line"])
  ultimately show ?thesis using white by blast
qed

text \<open>
  Prefix declarations in front of a line, each followed by a space or a line feed, the ones the
  store prepends among them, are cut off whatever their IRIs contain, full stops included, and the line itself is kept.
\<close>

theorem strip_prefix_declarations:
  assumes "\<forall>d \<in> set ds. declarable d" "\<not> starts_with ''@'' (trim_start s)" "sep \<in> {newline, CHR '' ''}"
  shows "strip_leading_directives (concat (map (\<lambda>(p, iri). prefix_decl p iri @ [sep]) ds) @ s) = trim_start s"
  using strip_decls [OF assms(3,1), of s] strip_no_directive [OF assms(2)]
  by (simp add: strip_leading_directives_def)

theorem strip_prefix_declarations_witness:
  "strip_leading_directives (turtle_prefixes @ newline # ''[] a carrier:GetId .'') = ''[] a carrier:GetId .''"
proof -
  define ds where "ds = [(''carrier'', carrier_ns), (''antenna'', antenna_ns), (''design'', design_ns),
    (''sp'', sp_ns), (''spin'', spin_ns), (''xsd'', ''http://www.w3.org/2001/XMLSchema#'')]"
  have "\<forall>d \<in> set ds. declarable d"
    by (simp add: ds_def declarable_def carrier_ns_def antenna_ns_def design_ns_def sp_ns_def spin_ns_def)
  from strip_prefix_declarations [OF this, of "''[] a carrier:GetId .''" newline]
  show ?thesis by (simp add: turtle_prefixes_def ds_def)
qed

text \<open>
  C25: the three escaping functions of the program are the same function, and a Turtle reader that
  meets the escaped text between quotation marks gets the text back, at its closing mark and not
  before, whatever the text contains.
\<close>

theorem escapes_agree_and_read_back:
  "dispatch_escape s = carrier_escape s \<and> carrier_escape s = ffi_escape s \<and>
   read_literal (dispatch_escape s @ quote # rest) = Some (s, rest) \<and>
   newline \<notin> set (dispatch_escape s) \<and> creturn \<notin> set (dispatch_escape s)"
  using dispatch_lit.read_back dispatch_lit.esc_no_breaks
  by (simp add: dispatch_lit.esc_concat carrier_lit.esc_concat ffi_lit.esc_concat)

text \<open>
  C31: a property whose value was escaped into a quoted literal is found by \<open>extract_property\<close> with
  the escapes still in it; the value itself comes back exactly when it has no quotation mark, no
  backslash, no line feed and no carriage return.
\<close>

theorem extract_property_keeps_escapes:
  assumes "find_str (prop @ '' '') line = Some (length pre)"
    and "line = pre @ prop @ '' '' @ quote # dispatch_escape v @ quote # rest" "v \<noteq> []"
  shows "extract_property line prop = Some (dispatch_escape v) \<and>
    (extract_property line prop = Some v \<longleftrightarrow> set v \<inter> {quote, backslash, newline, creturn} = {})"
  using extract_property_literal [OF assms] dispatch_lit.esc_id_iff [of v] by auto

theorem extract_property_keeps_escapes_witness:
  "extract_property (''[] a carrier:SendMsg ; carrier:messageText '' @ quote # (''say '' @ [backslash, quote] @ ''hi'')
      @ quote # '' .'') ''carrier:messageText'' = Some (''say '' @ [backslash, quote] @ ''hi'')"
proof -
  let ?pre = "''[] a carrier:SendMsg ; ''" and ?key = "''carrier:messageText''"
  let ?v = "''say '' @ [quote] @ ''hi''"
  let ?line = "?pre @ ?key @ '' '' @ quote # dispatch_escape ?v @ quote # '' .''"
  have v: "dispatch_escape ?v = ''say '' @ [backslash, quote] @ ''hi''"
    by (simp add: dispatch_lit.esc_concat esc_char_def) (simp add: char_names)
  have "find_str (?key @ '' '') ?line = Some (length ?pre)" by simp
  from extract_property_keeps_escapes [OF this refl] v show ?thesis by simp
qed

text \<open>
  The type of a line that begins \<open>[] a prefix:Name\<close> is the name in the prefix's namespace, for
  each of the six prefixes the router knows, and the rest of the line does not matter.
\<close>

theorem extract_type_of_rendered_line:
  assumes "token (pfx @ '':'' @ loc)" "token_ends rest" "CHR '':'' \<notin> set pfx" "type_ns pfx = Some ns"
  shows "extract_rdf_type (''[] a '' @ pfx @ '':'' @ loc @ rest) = Some (ns @ loc)"
  using assms by (rule extract_rdf_type_prefixed)

theorem extract_type_of_rendered_line_witness:
  "extract_rdf_type ''[] a carrier:SendMsg ; carrier:contactUri 7 .''
    = Some ''http://resonator.network/v2/carrier#SendMsg''"
  using extract_type_of_rendered_line [of "''carrier''" "''SendMsg''" "'' ; carrier:contactUri 7 .''" carrier_ns]
  by (simp add: token_def plain_char_def ascii_white_def value_ends_def token_ends_def type_ns_def carrier_ns_def)

end
