(* ===== verification/Calendar.thy ===== *)
theory Calendar
  imports Prelude
begin

text \<open>
  The two renderings of an instant: \<open>format_timestamp\<close> of \<^verbatim>\<open>src/carrier.rs\<close>, for event
  times in milliseconds, and \<open>iso8601_millis\<close> of \<^verbatim>\<open>src/logging.rs\<close>.  Both count the years
  and the months down by loops; the reference is the closed form of the Gregorian day number.  The
  64-bit quantities are integers: none of the operations leaves the range of an \<open>i64\<close> argument.
\<close>

section \<open>The loops\<close>

text \<open>Division of Rust integers by a positive number: it rounds towards zero.\<close>

definition tdiv :: "int \<Rightarrow> int \<Rightarrow> int" where
  "tdiv a b = (if a < 0 then - ((- a) div b) else a div b)"

definition leap :: "int \<Rightarrow> bool" where
  "leap y \<longleftrightarrow> y mod 4 = 0 \<and> (y mod 100 \<noteq> 0 \<or> y mod 400 = 0)"

definition days_in_year :: "int \<Rightarrow> int" where
  "days_in_year y = (if leap y then 366 else 365)"

definition days_in_months :: "int \<Rightarrow> int list" where
  "days_in_months y = [31, if leap y then 29 else 28, 31, 30, 31, 30, 31, 31, 30, 31, 30, 31]"

lemma days_in_year_pos: "0 < days_in_year y"
  by (simp add: days_in_year_def)

function year_loop :: "int \<Rightarrow> int \<Rightarrow> int \<times> int" where
  "year_loop y remaining =
     (if remaining < days_in_year y then (y, remaining)
      else year_loop (y + 1) (remaining - days_in_year y))"
  by pat_completeness auto
termination
  by (relation "measure (\<lambda>(y, r). nat r)") (auto simp: days_in_year_def split: if_splits)

declare year_loop.simps [simp del]

fun month_loop :: "nat \<Rightarrow> int list \<Rightarrow> int \<Rightarrow> nat \<times> int" where
  "month_loop i [] remaining = (0, remaining)"
| "month_loop i (d # ds) remaining =
     (if remaining < d then (i, remaining) else month_loop (i + 1) ds (remaining - d))"

text \<open>Year, month from 1, day from 1.\<close>

definition civil_of_days :: "int \<Rightarrow> int \<times> nat \<times> int" where
  "civil_of_days days =
     (let (y, remaining) = year_loop 1970 days;
          (m, remaining') = month_loop 0 (days_in_months y) remaining
      in (y, m + 1, remaining' + 1))"

definition render_civil :: "int \<Rightarrow> int \<Rightarrow> str" where
  "render_civil days time_of_day =
     (let hours = tdiv time_of_day 3600;
          minutes = tdiv (time_of_day mod 3600) 60;
          seconds = time_of_day mod 60;
          (y, m, day) = civil_of_days days
      in pad_int 4 y @ ''-'' @ pad_int 2 (int m) @ ''-'' @ pad_int 2 day @ ''T'' @
         pad_int 2 hours @ '':'' @ pad_int 2 minutes @ '':'' @ pad_int 2 seconds)"

definition format_timestamp :: "int \<Rightarrow> str" where
  "format_timestamp ts_ms =
     (let secs = tdiv ts_ms 1000;
          days_since_epoch = tdiv secs 86400;
          time_of_day = secs mod 86400
      in render_civil days_since_epoch time_of_day)"

text \<open>
  A system time is the whole seconds since the epoch, 0 for a time before it, and the milliseconds.
\<close>

definition iso8601_millis :: "int \<Rightarrow> int \<Rightarrow> str" where
  "iso8601_millis secs millis =
     (let days_since_epoch = tdiv secs 86400;
          time_of_day = secs mod 86400
      in render_civil days_since_epoch time_of_day @ ''.'' @ pad_int 3 millis @ ''Z'')"

section \<open>The reference\<close>

text \<open>Days from 1970-01-01 to the first of January of a year, and the day number of a date.\<close>

definition days_before_year :: "int \<Rightarrow> int" where
  "days_before_year y = 365 * (y - 1970) + (y - 1) div 4 - (y - 1) div 100 + (y - 1) div 400 - 477"

definition day_number :: "int \<Rightarrow> nat \<Rightarrow> int \<Rightarrow> int" where
  "day_number y m d = days_before_year y + sum_list (take (m - 1) (days_in_months y)) + d - 1"

definition valid_date :: "int \<Rightarrow> nat \<Rightarrow> int \<Rightarrow> bool" where
  "valid_date y m d \<longleftrightarrow> 1 \<le> m \<and> m \<le> 12 \<and> 1 \<le> d \<and> d \<le> days_in_months y ! (m - 1)"

lemma div_pred:
  fixes y k :: int
  assumes "0 < k"
  shows "y div k = (y - 1) div k + (if y mod k = 0 then 1 else 0)"
proof (cases "y mod k = 0")
  case True
  have "y - 1 = (k - 1) + k * (y div k - 1)"
    using True mult_div_mod_eq [of k y] by (simp add: algebra_simps)
  also have "\<dots> div k = (k - 1) div k + (y div k - 1)"
    using assms by (subst div_mult_self2) simp_all
  also have "(k - 1) div k = 0" using assms by simp
  finally show ?thesis using True by simp
next
  case False
  have r: "0 \<le> y mod k - 1" "y mod k - 1 < k"
    using False assms pos_mod_sign [OF assms, of y] pos_mod_bound [OF assms, of y] by simp_all
  have "y - 1 = (y mod k - 1) + k * (y div k)"
    using mult_div_mod_eq [of k y] by (simp add: algebra_simps)
  also have "\<dots> div k = (y mod k - 1) div k + y div k"
    using assms by (subst div_mult_self2) simp_all
  also have "(y mod k - 1) div k = 0" using r by simp
  finally show ?thesis using False by simp
qed

lemma days_before_year_Suc: "days_before_year (y + 1) = days_before_year y + days_in_year y"
proof -
  have d: "y mod 400 = 0 \<Longrightarrow> y mod 100 = 0" "y mod 100 = 0 \<Longrightarrow> y mod 4 = 0"
    using mod_mod_cancel [of 100 400 y] mod_mod_cancel [of 4 100 y] by auto
  define m4 m100 m400 where m: "m4 = (y mod 4 = 0)" "m100 = (y mod 100 = 0)" "m400 = (y mod 400 = 0)"
  define p4 p100 p400 where "p4 = (y - 1) div 4" and "p100 = (y - 1) div 100" and "p400 = (y - 1) div 400"
  have "y div 4 = p4 + (if y mod 4 = 0 then 1 else 0)" "y div 100 = p100 + (if y mod 100 = 0 then 1 else 0)"
      "y div 400 = p400 + (if y mod 400 = 0 then 1 else 0)"
    unfolding p4_def p100_def p400_def by (rule div_pred; simp)+
  then show ?thesis
    unfolding days_before_year_def days_in_year_def leap_def p4_def [symmetric] p100_def [symmetric] p400_def [symmetric]
    using d unfolding m [symmetric] by (cases m4; cases m100; cases m400) simp_all
qed

lemma days_before_1970 [simp]: "days_before_year 1970 = 0"
  by (simp add: days_before_year_def)

lemma sum_days_in_months: "sum_list (days_in_months y) = days_in_year y"
  by (simp add: days_in_months_def days_in_year_def)

lemma length_days_in_months [simp]: "length (days_in_months y) = 12"
  by (simp add: days_in_months_def)

lemma year_loop_spec:
  assumes "0 \<le> r" "year_loop y r = (y', r')"
  shows "0 \<le> r' \<and> r' < days_in_year y' \<and> y \<le> y' \<and> days_before_year y + r = days_before_year y' + r'"
  using assms
proof (induction y r rule: year_loop.induct)
  case (1 y r)
  show ?case
  proof (cases "r < days_in_year y")
    case True
    then show ?thesis using 1 by (simp add: year_loop.simps [of y r])
  next
    case False
    then have "year_loop (y + 1) (r - days_in_year y) = (y', r')"
      using "1.prems"(2) by (simp add: year_loop.simps [of y r])
    then show ?thesis
      using "1.IH" [OF False] False by (simp add: days_before_year_Suc)
  qed
qed

lemma month_loop_spec:
  assumes "0 \<le> r" "r < sum_list ds" "month_loop i ds r = (m, r')"
  shows "i \<le> m \<and> m - i < length ds \<and> 0 \<le> r' \<and> r' < ds ! (m - i) \<and> r = sum_list (take (m - i) ds) + r'"
  using assms
proof (induction i ds r rule: month_loop.induct)
  case (2 i d ds r)
  show ?case
  proof (cases "r < d")
    case False
    then have *: "month_loop (i + 1) ds (r - d) = (m, r')" using "2.prems" by simp
    have "i + 1 \<le> m \<and> m - (i + 1) < length ds \<and> 0 \<le> r' \<and> r' < ds ! (m - (i + 1))
        \<and> r - d = sum_list (take (m - (i + 1)) ds) + r'"
      using "2.IH" [OF False _ _ *] "2.prems" False by simp
    moreover from this have "m - i = Suc (m - (i + 1))" by linarith
    ultimately show ?thesis by simp
  qed (use "2.prems" in simp)
qed simp

text \<open>The loops compute the date with the given day number.\<close>

lemma civil_of_days_spec:
  assumes "0 \<le> days" "civil_of_days days = (y, m, d)"
  shows "valid_date y m d \<and> 1970 \<le> y \<and> day_number y m d = days"
proof -
  obtain r where y: "year_loop 1970 days = (y, r)"
    using assms(2) by (auto simp: civil_of_days_def split: prod.splits)
  obtain k r' where m: "month_loop 0 (days_in_months y) r = (k, r')" "m = k + 1" "d = r' + 1"
    using assms(2) y by (auto simp: civil_of_days_def split: prod.splits)
  have yr: "0 \<le> r" "r < days_in_year y" "1970 \<le> y" "days = days_before_year y + r"
    using year_loop_spec [OF assms(1) y] by simp_all
  have "k < 12" "0 \<le> r'" "r' < days_in_months y ! k" "r = sum_list (take k (days_in_months y)) + r'"
    using month_loop_spec [OF yr(1) _ m(1)] yr(2) by (simp_all add: sum_days_in_months)
  then show ?thesis using yr m(2,3) by (simp add: valid_date_def day_number_def)
qed

text \<open>The time of day.\<close>

lemma time_of_day_split:
  assumes "0 \<le> t"
  shows "tdiv t 3600 * 3600 + tdiv (t mod 3600) 60 * 60 + t mod 60 = t"
    and "t < 86400 \<Longrightarrow> tdiv t 3600 < 24" and "tdiv (t mod 3600) 60 < 60" and "t mod 60 < 60"
    and "0 \<le> tdiv t 3600" "0 \<le> tdiv (t mod 3600) 60"
proof -
  have *: "tdiv t 3600 = t div 3600" "tdiv (t mod 3600) 60 = t mod 3600 div 60"
    using assms by (simp_all add: tdiv_def not_less)
  have "t mod 3600 mod 60 = t mod 60" by (rule mod_mod_cancel) simp
  then have "t mod 3600 div 60 * 60 + t mod 60 = t mod 3600"
    using div_mult_mod_eq [of "t mod 3600" 60] by simp
  moreover have "t div 3600 * 3600 + t mod 3600 = t" by (rule div_mult_mod_eq)
  ultimately show "tdiv t 3600 * 3600 + tdiv (t mod 3600) 60 * 60 + t mod 60 = t"
    unfolding * by linarith
  have "t div 3600 * 3600 + t mod 3600 = t" "0 \<le> t mod 3600" by (rule div_mult_mod_eq) simp
  then show "t < 86400 \<Longrightarrow> tdiv t 3600 < 24" unfolding * by linarith
  have "t mod 3600 div 60 * 60 + t mod 3600 mod 60 = t mod 3600" "0 \<le> t mod 3600 mod 60" "t mod 3600 < 3600"
    by (rule div_mult_mod_eq) simp_all
  then show "tdiv (t mod 3600) 60 < 60" unfolding * by linarith
  show "0 \<le> tdiv t 3600" "0 \<le> tdiv (t mod 3600) 60"
    unfolding * using assms by (simp_all add: pos_imp_zdiv_nonneg_iff)
qed simp

definition two :: "int \<Rightarrow> str" where
  "two i = pad_int 2 i"

lemmas calendar_eval = format_timestamp_def iso8601_millis_def render_civil_def civil_of_days_def
  year_loop.simps days_in_months_def days_in_year_def leap_def tdiv_def pad_int_def pad_zero_def
  nat_to_dec.simps digit_char_def char_of_def bit_0

section \<open>Properties\<close>

text \<open>
  C32: for every time from the epoch on, \<open>format_timestamp\<close> writes a valid Gregorian date and a time
  of day whose day number, in the closed form of the calendar, and seconds make up exactly the
  seconds of the argument.
\<close>

theorem format_timestamp_is_gregorian:
  assumes "0 \<le> ts"
  shows "\<exists>y m d h mi s. valid_date y m d \<and> 0 \<le> h \<and> h < 24 \<and> 0 \<le> mi \<and> mi < 60 \<and> 0 \<le> s \<and> s < 60 \<and>
    day_number y m d * 86400 + h * 3600 + mi * 60 + s = ts div 1000 \<and>
    format_timestamp ts = pad_int 4 y @ ''-'' @ two (int m) @ ''-'' @ two d @ ''T'' @
      two h @ '':'' @ two mi @ '':'' @ two s"
proof -
  define secs where "secs = ts div 1000"
  define t where "t = secs mod 86400"
  have pos: "0 \<le> secs" using assms by (simp add: secs_def pos_imp_zdiv_nonneg_iff)
  then have days: "tdiv secs 86400 = secs div 86400" "tdiv ts 1000 = secs"
    using assms by (simp_all add: tdiv_def secs_def not_less)
  have t: "0 \<le> t" "t < 86400" by (simp_all add: t_def)
  obtain y m d where c: "civil_of_days (secs div 86400) = (y, m, d)" by (metis prod_cases3)
  have "0 \<le> secs div 86400" using pos by (simp add: pos_imp_zdiv_nonneg_iff)
  then have d: "valid_date y m d" "day_number y m d = secs div 86400"
    using civil_of_days_spec [OF _ c] by simp_all
  define h mi sec where hms: "h = tdiv t 3600" "mi = tdiv (t mod 3600) 60" "sec = t mod 60"
  have "h * 3600 + mi * 60 + sec = t" "secs div 86400 * 86400 + t = secs"
    using time_of_day_split(1) [OF t(1)] by (simp_all only: hms t_def div_mult_mod_eq)
  then have sum: "day_number y m d * 86400 + h * 3600 + mi * 60 + sec = ts div 1000"
    using d(2) secs_def by linarith
  have bounds: "0 \<le> h" "h < 24" "0 \<le> mi" "mi < 60" "0 \<le> sec" "sec < 60"
    using time_of_day_split(2-6) [OF t(1)] t(2) by (simp_all add: hms)
  have "format_timestamp ts = pad_int 4 y @ ''-'' @ two (int m) @ ''-'' @ two d @ ''T'' @
      two h @ '':'' @ two mi @ '':'' @ two sec"
    using c by (simp add: format_timestamp_def days Let_def render_civil_def t_def two_def hms)
  then show ?thesis using d(1) bounds sum by blast
qed

theorem format_timestamp_is_gregorian_witness:
  "format_timestamp 68255999999 = ''1972-02-29T23:59:59'' \<and>
   (\<exists>y m d h mi s. valid_date y m d \<and> day_number y m d * 86400 + h * 3600 + mi * 60 + s = (68255999 :: int))"
proof -
  have "format_timestamp 68255999999 = ''1972-02-29T23:59:59''" by (simp add: calendar_eval)
  moreover have "\<exists>y m d h mi s. valid_date y m d \<and> day_number y m d * 86400 + h * 3600 + mi * 60 + s = (68255999 :: int)"
    using format_timestamp_is_gregorian [of 68255999999] by simp metis
  ultimately show ?thesis by blast
qed

text \<open>
  The log's \<open>iso8601_millis\<close> and the events' \<open>format_timestamp\<close> are the same function up to the
  milliseconds that the log adds.
\<close>

theorem iso8601_extends_format_timestamp:
  assumes "0 \<le> secs" "0 \<le> millis" "millis < 1000"
  shows "iso8601_millis secs millis =
    format_timestamp (secs * 1000 + millis) @ ''.'' @ pad_int 3 millis @ ''Z''"
proof -
  have "tdiv (secs * 1000 + millis) 1000 = secs"
    using assms by (simp add: tdiv_def)
  then show ?thesis by (simp add: iso8601_millis_def format_timestamp_def Let_def)
qed

theorem iso8601_extends_format_timestamp_witness:
  "iso8601_millis 1 412 = format_timestamp 1412 @ ''.412Z'' \<and>
   iso8601_millis 1 412 = ''1970-01-01T00:00:01.412Z''"
proof -
  have "pad_int 3 412 = ''412''" "iso8601_millis 1 412 = ''1970-01-01T00:00:01.412Z''"
    by (simp_all add: calendar_eval)
  then show ?thesis using iso8601_extends_format_timestamp [of 1 412] by simp
qed

text \<open>
  Before the epoch the rounding of the day count and that of the time of day disagree.  Every
  time of the last day of 1969 that is a whole second is written with the date of the day after.
\<close>

theorem format_timestamp_before_epoch:
  assumes "- 86400 < s" "s < 0"
  shows "format_timestamp (s * 1000) = format_timestamp ((s + 86400) * 1000)"
proof -
  have "tdiv (s * 1000) 1000 = s" "tdiv ((s + 86400) * 1000) 1000 = s + 86400"
    using assms minus_mult_left [of s 1000] nonzero_mult_div_cancel_right [of 1000 "- s"]
    by (simp_all only: tdiv_def) simp_all
  moreover have "tdiv s 86400 = 0" "tdiv (s + 86400) 86400 = 0"
    using assms by (simp_all add: tdiv_def div_pos_pos_trivial)
  ultimately show ?thesis by (simp add: format_timestamp_def Let_def)
qed

theorem format_timestamp_before_epoch_witness:
  "format_timestamp (- 1000) = ''1970-01-01T23:59:59''"
proof -
  have "format_timestamp 86399000 = ''1970-01-01T23:59:59''" by (simp add: calendar_eval)
  then show ?thesis using format_timestamp_before_epoch [of "- 1"] by simp
qed

end
