(* ===== verification/Turtle_Record.thy ===== *)
theory Turtle_Record
  imports Turtle_Text
begin

text \<open>
  What the statements made by this program say: a class and fields, each a name and a literal, a
  dated literal or a bare word.  Here are the way such a record is written and a reader that knows
  only the grammar of the lines; the theories that make lines show that they are written records
  and take from here that they are read back as what was meant.
\<close>

section \<open>Written records\<close>

datatype field_value = Lit str | Dated str | Bare str

fun render_value :: "field_value \<Rightarrow> str" where
  "render_value (Lit v) = quote # carrier_escape v @ [quote]"
| "render_value (Dated v) = quote # carrier_escape v @ quote # ''^^xsd:dateTime''"
| "render_value (Bare w) = w"

definition render_field :: "str \<times> field_value \<Rightarrow> str" where
  "render_field f = '' ; '' @ fst f @ '' '' @ render_value (snd f)"

definition render_record :: "str \<times> (str \<times> field_value) list \<Rightarrow> str" where
  "render_record r = ''[] a '' @ fst r @ concat (map render_field (snd r)) @ '' .''"

text \<open>No character of a number or of a rendered time needs escaping or looks like a delimiter.\<close>

definition number_char :: "char \<Rightarrow> bool" where
  "number_char c \<longleftrightarrow> is_digit c \<or> c \<in> {CHR ''-'', CHR '':'', CHR ''T''}"

lemma number_char_plain:
  assumes "number_char c"
  shows "c \<noteq> quote" "c \<noteq> backslash" "c \<noteq> newline" "c \<noteq> creturn" "c \<noteq> CHR '' ''"
  using assms by (auto simp: number_char_def char_names is_digit_def)

lemma pad_zero_number: "\<forall>c \<in> set s. number_char c \<Longrightarrow> \<forall>c \<in> set (pad_zero w s). number_char c"
  by (auto simp: pad_zero_def number_char_def is_digit_def)

lemma nat_to_dec_number: "\<forall>c \<in> set (nat_to_dec n). number_char c"
  using nat_to_dec_digits by (auto simp: number_char_def)

lemma pad_int_number: "\<forall>c \<in> set (pad_int w i). number_char c"
  using pad_zero_number [OF nat_to_dec_number] by (simp add: pad_int_def number_char_def [of "CHR ''-''"])

lemma int_to_dec_number: "\<forall>c \<in> set (int_to_dec i). number_char c"
  using nat_to_dec_number by (simp add: int_to_dec_def number_char_def [of "CHR ''-''"])

lemma number_marks [simp]: "number_char (CHR ''-'')" "number_char (CHR '':'')" "number_char (CHR ''T'')"
  by (simp_all add: number_char_def)

lemma carrier_escape_number: "\<forall>c \<in> set s. number_char c \<Longrightarrow> carrier_escape s = s"
  by (rule carrier_lit.esc_id) (auto dest: number_char_plain)

section \<open>A reader of the lines\<close>

text \<open>
  The reader knows the grammar of the lines only: a class, then fields, each a name and a quoted
  literal, a dated literal or a bare word, then the final full stop.
\<close>

fun read_value :: "str \<Rightarrow> (field_value \<times> str) option" where
  "read_value [] = None"
| "read_value (c # s) =
     (if c = quote then
        (case read_literal s of
           None \<Rightarrow> None
         | Some (v, rest) \<Rightarrow>
             (case strip_prefix ''^^xsd:dateTime'' rest of
                Some r \<Rightarrow> Some (Dated v, r)
              | None \<Rightarrow> Some (Lit v, rest)))
      else Some (Bare (takeWhile (\<lambda>c. c \<noteq> CHR '' '') (c # s)), dropWhile (\<lambda>c. c \<noteq> CHR '' '') (c # s)))"

lemma read_literal_shorter: "read_literal s = Some (v, rest) \<Longrightarrow> length rest < length s"
proof (induction s arbitrary: v rule: read_literal.induct)
  case (2 c s)
  then show ?case by (auto split: if_splits option.splits list.splits) fastforce+
qed simp

lemma strip_prefix_shorter: "strip_prefix p s = Some r \<Longrightarrow> length s = length p + length r"
  by (simp add: strip_prefix_Some_iff)

lemma read_value_shorter: "read_value s = Some (v, rest) \<Longrightarrow> length rest \<le> length s"
  by (cases s)
    (auto split: if_splits option.splits dest!: read_literal_shorter strip_prefix_shorter
      intro: le_trans [OF length_dropWhile_le])

function read_fields :: "str \<Rightarrow> (str \<times> field_value) list option" where
  "read_fields s =
     (if s = '' .'' then Some []
      else case strip_prefix '' ; '' s of
        None \<Rightarrow> None
      | Some s1 \<Rightarrow>
          (case read_value (drop 1 (dropWhile (\<lambda>c. c \<noteq> CHR '' '') s1)) of
             None \<Rightarrow> None
           | Some (v, rest) \<Rightarrow>
               map_option (\<lambda>fs. (takeWhile (\<lambda>c. c \<noteq> CHR '' '') s1, v) # fs) (read_fields rest)))"
  by pat_completeness auto
termination
proof (relation "measure length")
  fix s s1 x v rest
  assume "strip_prefix '' ; '' s = Some s1"
    and "read_value (drop 1 (dropWhile (\<lambda>c. c \<noteq> CHR '' '') s1)) = Some x" "(v, rest) = x"
  then have "length rest \<le> length (dropWhile (\<lambda>c. c \<noteq> CHR '' '') s1)" "length s1 < length s"
    using read_value_shorter [of _ v rest] strip_prefix_shorter [of "'' ; ''" s s1] by fastforce+
  then show "(rest, s) \<in> measure length"
    using length_dropWhile_le [of "\<lambda>c. c \<noteq> CHR '' ''" s1] by simp
qed simp

declare read_fields.simps [simp del]

definition read_record :: "str \<Rightarrow> (str \<times> (str \<times> field_value) list) option" where
  "read_record s =
     (case strip_prefix ''[] a '' s of
        None \<Rightarrow> None
      | Some s1 \<Rightarrow> map_option (Pair (takeWhile (\<lambda>c. c \<noteq> CHR '' '') s1))
          (read_fields (dropWhile (\<lambda>c. c \<noteq> CHR '' '') s1)))"

text \<open>Names without spaces, bare words that are not literals.\<close>

fun readable :: "str \<times> field_value \<Rightarrow> bool" where
  "readable (p, Bare w) \<longleftrightarrow> CHR '' '' \<notin> set p \<and> newline \<notin> set p \<and>
     CHR '' '' \<notin> set w \<and> newline \<notin> set w \<and> w \<noteq> [] \<and> hd w \<noteq> quote"
| "readable (p, _) \<longleftrightarrow> CHR '' '' \<notin> set p \<and> newline \<notin> set p"

definition spaced :: "str \<Rightarrow> bool" where
  "spaced s \<longleftrightarrow> s \<noteq> [] \<and> hd s = CHR '' ''"

lemma take_word:
  assumes "CHR '' '' \<notin> set w" "spaced s"
  shows "takeWhile (\<lambda>c. c \<noteq> CHR '' '') (w @ s) = w" "dropWhile (\<lambda>c. c \<noteq> CHR '' '') (w @ s) = s"
proof -
  obtain s' where s: "s = CHR '' '' # s'" using assms(2) by (cases s) (auto simp: spaced_def)
  have "\<forall>c \<in> set w. c \<noteq> CHR '' ''" using assms(1) by blast
  then show "takeWhile (\<lambda>c. c \<noteq> CHR '' '') (w @ s) = w" "dropWhile (\<lambda>c. c \<noteq> CHR '' '') (w @ s) = s"
    by (simp_all add: s)
qed

lemma read_value_render:
  assumes "readable (p, v)" "spaced s"
  shows "read_value (render_value v @ s) = Some (v, s)"
proof (cases v)
  case (Lit t)
  have "strip_prefix ''^^xsd:dateTime'' s = None" using assms(2) by (cases s) (auto simp: spaced_def)
  then show ?thesis using Lit carrier_lit.read_back by simp
next
  case (Dated t)
  then show ?thesis using carrier_lit.read_back [of t "''^^xsd:dateTime'' @ s"] by simp
next
  case (Bare w)
  then have "CHR '' '' \<notin> set w" "w \<noteq> []" "hd w \<noteq> quote" using assms(1) by simp_all
  then show ?thesis using Bare take_word [OF _ assms(2), of w] by (cases w) simp_all
qed

lemma spaced_fields: "spaced (concat (map render_field fs) @ '' .'')"
  by (cases fs) (simp_all add: spaced_def render_field_def)

lemma read_fields_render: "\<forall>f \<in> set fs. readable f \<Longrightarrow> read_fields (concat (map render_field fs) @ '' .'') = Some fs"
proof (induction fs)
  case Nil
  show ?case by (simp add: read_fields.simps)
next
  case (Cons f fs)
  obtain p v where f: "f = (p, v)" by force
  define t where "t = concat (map render_field fs) @ '' .''"
  have t: "spaced t" "read_fields t = Some fs" using Cons spaced_fields by (simp_all add: t_def)
  have p: "CHR '' '' \<notin> set p" using Cons.prems f by (cases v) simp_all
  have sp: "spaced ('' '' @ render_value v @ t)" by (simp add: spaced_def)
  have "read_fields ('' ; '' @ p @ '' '' @ render_value v @ t) = Some ((p, v) # fs)"
    using take_word [OF p sp] read_value_render [of p v t] t Cons.prems f
    by (subst read_fields.simps) simp
  then show ?case by (simp add: f render_field_def [of "(p, v)"] t_def)
qed

lemma read_record_render:
  assumes "CHR '' '' \<notin> set cls" "\<forall>f \<in> set fs. readable f"
  shows "read_record (render_record (cls, fs)) = Some (cls, fs)"
  using take_word [OF assms(1) spaced_fields [of fs]] read_fields_render [OF assms(2)]
  by (simp add: read_record_def render_record_def)


lemma render_value_breaks: "readable (p, v) \<Longrightarrow> newline \<notin> set (render_value v)"
  using carrier_lit.esc_no_breaks by (cases v) (auto simp: char_names)

lemma render_record_breaks:
  assumes "newline \<notin> set cls" "\<forall>f \<in> set fs. readable f"
  shows "newline \<notin> set (render_record (cls, fs))"
proof -
  have "newline \<notin> set (render_field f)" if "readable f" for f
  proof -
    obtain p v where f: "f = (p, v)" by force
    have "newline \<notin> set p" using that f by (cases v) simp_all
    moreover have "newline \<notin> set '' ;  ''" by (simp add: newline_def)
    ultimately show ?thesis
      using render_value_breaks [of p v] that f by (auto simp: render_field_def)
  qed
  moreover have "newline \<notin> set ''[] a  .''" by (simp add: newline_def)
  ultimately show ?thesis using assms by (auto simp: render_record_def)
qed

lemma number_readable:
  assumes "\<forall>c \<in> set w. number_char c" "w \<noteq> []" "CHR '' '' \<notin> set p" "newline \<notin> set p"
  shows "readable (p, Bare w)"
  using assms number_char_plain by fastforce

lemma record_type:
  assumes "token (pre @ '':'' @ cls)" "CHR '':'' \<notin> set pre" "type_ns pre = Some ns"
  shows "extract_rdf_type (render_record (pre @ '':'' @ cls, fs)) = Some (ns @ cls)"
proof -
  have "token_ends (concat (map render_field fs) @ '' .'')"
    using spaced_fields [of fs] by (simp add: spaced_def token_ends_def value_ends_def)
  then show ?thesis
    using extract_rdf_type_prefixed [of pre cls "concat (map render_field fs) @ '' .''" ns] assms
    by (simp add: render_record_def)
qed

end
