(* ===== verification/Carrier_Event.thy ===== *)
theory Carrier_Event
  imports Turtle_Record Calendar "HOL-Library.Word"
begin

text \<open>
  The events of libcarrier and their Turtle rendering, \<open>event_to_turtle\<close> of
  \<^verbatim>\<open>src/carrier.rs\<close>.  The tagged union of the C interface is a datatype with one
  constructor per event type and the fields of its data structure; a fixed character array is the
  byte string it holds, a pointer the bytes from its target on, \<open>None\<close> when null.  The reference is
  a list of fields, and a reader that gets the fields back from the line.
\<close>

section \<open>Data of the C interface\<close>

definition nul :: char where "nul = CHR 0x00"

datatype (plugins only: code size) event_data =
    Connected
  | Disconnected
  | AccountReady str str  (* self_uri, display_name *)
  | AccountError "str option"  (* cause *)
  | AccountArchiveReady str  (* path *)
  | SelfId str  (* self_uri *)
  | TrustRequest str "str option" nat  (* from_uri, payload, payload_len *)
  | ContactOnline str  (* contact_uri *)
  | ContactOffline str  (* contact_uri *)
  | ContactName str str  (* contact_uri, display_name *)
  | ContactRestored str str bool  (* contact_uri, display_name, blocked *)
  | TextMessage str str str "str option" nat  (* contact_uri, conversation_id, message_id, text_ptr, text_len *)
  | MessageSent str str str "32 word"  (* contact_uri, conversation_id, message_id, send_status *)
  | GroupMessage str str str str "str option" nat  (* conversation_id, message_id, contact_uri, display_name, text_ptr, text_len *)
  | GroupPeerJoin str str  (* conversation_id, member_uri *)
  | GroupPeerExit str str  (* conversation_id, member_uri *)
  | ConversationRequest str str  (* conversation_id, contact_uri *)
  | ConversationReady str  (* conversation_id *)
  | SavedConversation str  (* conversation_id *)
  | ConversationSyncFinished
  | SwarmCommit str str str  (* conversation_id, message_id, contact_uri *)
  | Reaction str str str str str  (* conversation_id, message_id, reaction_id, contact_uri, reaction_text *)
  | Presence str str  (* contact_uri, status *)
  | FileRecv str str str str str "64 word"  (* conversation_id, contact_uri, message_id, file_id, filename, file_size *)
  | FileProgress str str  (* conversation_id, file_id *)
  | FileComplete str str str  (* conversation_id, file_id, status *)
  | DeviceLinkPin str  (* pin *)
  | DeviceLinked str  (* device_id *)
  | DeviceUnlinked str  (* device_id *)
  | Error str str "str option"  (* err_command, err_class, text_ptr *)
  | System "str option"  (* text_ptr *)

record carrier_event =
  ev_timestamp :: int
  ev_account_id :: str
  ev_data :: event_data

section \<open>Reading C strings\<close>

definition cstr_from_buf :: "str \<Rightarrow> str" where
  "cstr_from_buf buf =
     (let s = takeWhile (\<lambda>b. b \<noteq> nul) buf in case from_utf8 s of Some t \<Rightarrow> t | None \<Rightarrow> [])"

definition cstr_to_string :: "str option \<Rightarrow> str \<Rightarrow> str" where
  "cstr_to_string p fallback =
     (case p of None \<Rightarrow> fallback | Some mem \<Rightarrow> from_utf8_lossy (takeWhile (\<lambda>b. b \<noteq> nul) mem))"

definition bytes_to_string :: "str option \<Rightarrow> nat \<Rightarrow> str" where
  "bytes_to_string p len =
     (case p of None \<Rightarrow> [] | Some mem \<Rightarrow> if len = 0 then [] else from_utf8_lossy (take len mem))"

section \<open>Rendering\<close>

text \<open>\<open> ; carrier:name "value"\<close>, the piece every arm of the match is made of.\<close>

definition lit_field :: "str \<Rightarrow> str \<Rightarrow> str" where
  "lit_field name v = '' ; carrier:'' @ name @ '' '' @ quote # carrier_escape v @ [quote]"

definition ts_field :: "int \<Rightarrow> str" where
  "ts_field ts = '' ; carrier:at '' @ quote # format_timestamp ts @ quote # ''^^xsd:dateTime''"

definition header :: "str \<Rightarrow> str \<Rightarrow> str" where
  "header class account_id =
     (let acct = cstr_from_buf account_id
      in if acct = [] then ''[] a carrier:'' @ class
         else ''[] a carrier:'' @ class @ lit_field ''account'' acct)"

text \<open>The arms of \<open>event_to_turtle\<close>; \<open>acc\<close> is the account of the event, \<open>ts\<close> its time field.\<close>

definition line_connected :: "str \<Rightarrow> str \<Rightarrow> str" where
  "line_connected acc ts = header ''Connected'' acc @ ts @ '' .''"

definition line_disconnected :: "str \<Rightarrow> str \<Rightarrow> str" where
  "line_disconnected acc ts = header ''Disconnected'' acc @ ts @ '' .''"

definition line_account_ready :: "str \<Rightarrow> str \<Rightarrow> str \<Rightarrow> str \<Rightarrow> str" where
  "line_account_ready acc ts uri name =
     header ''AccountReady'' acc @ lit_field ''selfUri'' (cstr_from_buf uri) @
     (let dn = cstr_from_buf name in if dn \<noteq> [] then lit_field ''displayName'' dn else []) @ ts @ '' .''"

definition line_account_error :: "str \<Rightarrow> str \<Rightarrow> str option \<Rightarrow> str" where
  "line_account_error acc ts cau =
     header ''AccountError'' acc @ lit_field ''cause'' (cstr_to_string cau []) @ ts @ '' .''"

definition line_account_archive_ready :: "str \<Rightarrow> str \<Rightarrow> str \<Rightarrow> str" where
  "line_account_archive_ready acc ts p =
     header ''AccountArchiveReady'' acc @ lit_field ''path'' (cstr_from_buf p) @ ts @ '' .''"

definition line_self_id :: "str \<Rightarrow> str \<Rightarrow> str \<Rightarrow> str" where
  "line_self_id acc ts uri = header ''SelfId'' acc @ lit_field ''selfUri'' (cstr_from_buf uri) @ ts @ '' .''"

definition line_trust_request :: "str \<Rightarrow> str \<Rightarrow> str \<Rightarrow> str option \<Rightarrow> nat \<Rightarrow> str" where
  "line_trust_request acc ts uri p len =
     header ''TrustRequest'' acc @ lit_field ''contactUri'' (cstr_from_buf uri) @
     (if p \<noteq> None \<and> len > 0 then lit_field ''payload'' (bytes_to_string p len) else []) @ ts @ '' .''"

definition line_contact_online :: "str \<Rightarrow> str \<Rightarrow> str \<Rightarrow> str" where
  "line_contact_online acc ts uri =
     header ''ContactOnline'' acc @ lit_field ''contactUri'' (cstr_from_buf uri) @ ts @ '' .''"

definition line_contact_offline :: "str \<Rightarrow> str \<Rightarrow> str \<Rightarrow> str" where
  "line_contact_offline acc ts uri =
     header ''ContactOffline'' acc @ lit_field ''contactUri'' (cstr_from_buf uri) @ ts @ '' .''"

definition line_contact_name :: "str \<Rightarrow> str \<Rightarrow> str \<Rightarrow> str \<Rightarrow> str" where
  "line_contact_name acc ts uri name =
     header ''ContactName'' acc @ lit_field ''contactUri'' (cstr_from_buf uri) @
     lit_field ''displayName'' (cstr_from_buf name) @ ts @ '' .''"

definition line_contact_restored :: "str \<Rightarrow> str \<Rightarrow> str \<Rightarrow> str \<Rightarrow> bool \<Rightarrow> str" where
  "line_contact_restored acc ts uri name b =
     header ''ContactRestored'' acc @ lit_field ''contactUri'' (cstr_from_buf uri) @
     lit_field ''displayName'' (cstr_from_buf name) @
     '' ; carrier:blocked '' @ quote # (if b then ''true'' else ''false'') @ [quote] @ ts @ '' .''"

definition line_text_message :: "str \<Rightarrow> str \<Rightarrow> str \<Rightarrow> str \<Rightarrow> str \<Rightarrow> str option \<Rightarrow> nat \<Rightarrow> str" where
  "line_text_message acc ts uri conv msg p len =
     (let body = bytes_to_string p len
      in header ''TextMessage'' acc @ lit_field ''contactUri'' (cstr_from_buf uri) @
         lit_field ''conversationId'' (cstr_from_buf conv) @ lit_field ''messageId'' (cstr_from_buf msg) @
         lit_field ''text'' body @ ts @ '' .'')"

definition line_message_sent :: "str \<Rightarrow> str \<Rightarrow> str \<Rightarrow> str \<Rightarrow> str \<Rightarrow> 32 word \<Rightarrow> str" where
  "line_message_sent acc ts uri conv msg st =
     header ''MessageSent'' acc @ lit_field ''contactUri'' (cstr_from_buf uri) @
     lit_field ''conversationId'' (cstr_from_buf conv) @ lit_field ''messageId'' (cstr_from_buf msg) @
     '' ; carrier:status '' @ int_to_dec (sint st) @ ts @ '' .''"

definition line_group_message ::
  "str \<Rightarrow> str \<Rightarrow> str \<Rightarrow> str \<Rightarrow> str \<Rightarrow> str \<Rightarrow> str option \<Rightarrow> nat \<Rightarrow> str" where
  "line_group_message acc ts conv msg uri name p len =
     (let body = bytes_to_string p len; dn = cstr_from_buf name
      in header ''GroupMessage'' acc @ lit_field ''conversationId'' (cstr_from_buf conv) @
         lit_field ''messageId'' (cstr_from_buf msg) @ lit_field ''contactUri'' (cstr_from_buf uri) @
         (if dn \<noteq> [] then lit_field ''displayName'' dn else []) @ lit_field ''text'' body @ ts @ '' .'')"

definition line_group_peer_join :: "str \<Rightarrow> str \<Rightarrow> str \<Rightarrow> str \<Rightarrow> str" where
  "line_group_peer_join acc ts conv uri =
     header ''GroupPeerJoin'' acc @ lit_field ''conversationId'' (cstr_from_buf conv) @
     lit_field ''memberUri'' (cstr_from_buf uri) @ ts @ '' .''"

definition line_group_peer_exit :: "str \<Rightarrow> str \<Rightarrow> str \<Rightarrow> str \<Rightarrow> str" where
  "line_group_peer_exit acc ts conv uri =
     header ''GroupPeerExit'' acc @ lit_field ''conversationId'' (cstr_from_buf conv) @
     lit_field ''memberUri'' (cstr_from_buf uri) @ ts @ '' .''"

definition line_conversation_request :: "str \<Rightarrow> str \<Rightarrow> str \<Rightarrow> str \<Rightarrow> str" where
  "line_conversation_request acc ts conv uri =
     header ''ConversationRequest'' acc @ lit_field ''conversationId'' (cstr_from_buf conv) @
     lit_field ''contactUri'' (cstr_from_buf uri) @ ts @ '' .''"

definition line_conversation_ready :: "str \<Rightarrow> str \<Rightarrow> str \<Rightarrow> str" where
  "line_conversation_ready acc ts conv =
     header ''ConversationReady'' acc @ lit_field ''conversationId'' (cstr_from_buf conv) @ ts @ '' .''"

definition line_saved_conversation :: "str \<Rightarrow> str \<Rightarrow> str \<Rightarrow> str" where
  "line_saved_conversation acc ts conv =
     header ''SavedConversation'' acc @ lit_field ''conversationId'' (cstr_from_buf conv) @ ts @ '' .''"

definition line_sync_finished :: "str \<Rightarrow> str \<Rightarrow> str" where
  "line_sync_finished acc ts = header ''ConversationSyncFinished'' acc @ ts @ '' .''"

definition line_swarm_commit :: "str \<Rightarrow> str \<Rightarrow> str \<Rightarrow> str \<Rightarrow> str \<Rightarrow> str" where
  "line_swarm_commit acc ts conv msg uri =
     header ''SwarmCommit'' acc @ lit_field ''conversationId'' (cstr_from_buf conv) @
     lit_field ''contactUri'' (cstr_from_buf uri) @ lit_field ''messageId'' (cstr_from_buf msg) @ ts @ '' .''"

definition line_reaction :: "str \<Rightarrow> str \<Rightarrow> str \<Rightarrow> str \<Rightarrow> str \<Rightarrow> str \<Rightarrow> str \<Rightarrow> str" where
  "line_reaction acc ts conv msg rea uri txt =
     (let rid = cstr_from_buf rea
      in header ''Reaction'' acc @ lit_field ''conversationId'' (cstr_from_buf conv) @
         lit_field ''messageId'' (cstr_from_buf msg) @ lit_field ''contactUri'' (cstr_from_buf uri) @
         lit_field ''reaction'' (cstr_from_buf txt) @
         (if rid \<noteq> [] then lit_field ''reactionId'' rid else []) @ ts @ '' .'')"

definition line_presence :: "str \<Rightarrow> str \<Rightarrow> str \<Rightarrow> str \<Rightarrow> str" where
  "line_presence acc ts uri st =
     header ''Presence'' acc @ lit_field ''contactUri'' (cstr_from_buf uri) @
     lit_field ''status'' (cstr_from_buf st) @ ts @ '' .''"

definition line_file_recv ::
  "str \<Rightarrow> str \<Rightarrow> str \<Rightarrow> str \<Rightarrow> str \<Rightarrow> str \<Rightarrow> str \<Rightarrow> 64 word \<Rightarrow> str" where
  "line_file_recv acc ts conv uri msg fid nm sz =
     (let fname = cstr_from_buf nm
      in header ''FileRecv'' acc @ lit_field ''conversationId'' (cstr_from_buf conv) @
         lit_field ''contactUri'' (cstr_from_buf uri) @ lit_field ''messageId'' (cstr_from_buf msg) @
         lit_field ''fileId'' (cstr_from_buf fid) @
         (if fname \<noteq> [] then lit_field ''filename'' fname else []) @
         '' ; carrier:size '' @ nat_to_dec (unat sz) @ ts @ '' .'')"

definition line_file_progress :: "str \<Rightarrow> str \<Rightarrow> str \<Rightarrow> str \<Rightarrow> str" where
  "line_file_progress acc ts conv fid =
     header ''FileProgress'' acc @ lit_field ''conversationId'' (cstr_from_buf conv) @
     lit_field ''fileId'' (cstr_from_buf fid) @ ts @ '' .''"

definition line_file_complete :: "str \<Rightarrow> str \<Rightarrow> str \<Rightarrow> str \<Rightarrow> str \<Rightarrow> str" where
  "line_file_complete acc ts conv fid st =
     header ''FileComplete'' acc @ lit_field ''conversationId'' (cstr_from_buf conv) @
     lit_field ''fileId'' (cstr_from_buf fid) @ lit_field ''status'' (cstr_from_buf st) @ ts @ '' .''"

definition line_device_link_pin :: "str \<Rightarrow> str \<Rightarrow> str \<Rightarrow> str" where
  "line_device_link_pin acc ts p =
     header ''DeviceLinkPin'' acc @ lit_field ''pin'' (cstr_from_buf p) @ ts @ '' .''"

definition line_device_linked :: "str \<Rightarrow> str \<Rightarrow> str \<Rightarrow> str" where
  "line_device_linked acc ts dev =
     header ''DeviceLinked'' acc @ lit_field ''contactUri'' (cstr_from_buf dev) @ ts @ '' .''"

definition line_device_unlinked :: "str \<Rightarrow> str \<Rightarrow> str \<Rightarrow> str" where
  "line_device_unlinked acc ts dev =
     header ''DeviceUnlinked'' acc @ lit_field ''contactUri'' (cstr_from_buf dev) @ ts @ '' .''"

definition line_error :: "str \<Rightarrow> str \<Rightarrow> str \<Rightarrow> str \<Rightarrow> str option \<Rightarrow> str" where
  "line_error acc ts cmd cls txt =
     header ''Error'' acc @ lit_field ''command'' (cstr_from_buf cmd) @ lit_field ''class'' (cstr_from_buf cls) @
     lit_field ''message'' (cstr_to_string txt []) @ ts @ '' .''"

definition line_system :: "str \<Rightarrow> str \<Rightarrow> str option \<Rightarrow> str" where
  "line_system acc ts txt = header ''System'' acc @ lit_field ''message'' (cstr_to_string txt []) @ ts @ '' .''"

definition event_line :: "str \<Rightarrow> str \<Rightarrow> event_data \<Rightarrow> str" where
  "event_line acc ts d =
     (case d of
        Connected \<Rightarrow> line_connected acc ts
      | Disconnected \<Rightarrow> line_disconnected acc ts
      | AccountReady uri dn \<Rightarrow> line_account_ready acc ts uri dn
      | AccountError c \<Rightarrow> line_account_error acc ts c
      | AccountArchiveReady p \<Rightarrow> line_account_archive_ready acc ts p
      | SelfId uri \<Rightarrow> line_self_id acc ts uri
      | TrustRequest uri p len \<Rightarrow> line_trust_request acc ts uri p len
      | ContactOnline uri \<Rightarrow> line_contact_online acc ts uri
      | ContactOffline uri \<Rightarrow> line_contact_offline acc ts uri
      | ContactName uri dn \<Rightarrow> line_contact_name acc ts uri dn
      | ContactRestored uri dn b \<Rightarrow> line_contact_restored acc ts uri dn b
      | TextMessage uri conv msg p len \<Rightarrow> line_text_message acc ts uri conv msg p len
      | MessageSent uri conv msg st \<Rightarrow> line_message_sent acc ts uri conv msg st
      | GroupMessage conv msg uri dn p len \<Rightarrow> line_group_message acc ts conv msg uri dn p len
      | GroupPeerJoin conv uri \<Rightarrow> line_group_peer_join acc ts conv uri
      | GroupPeerExit conv uri \<Rightarrow> line_group_peer_exit acc ts conv uri
      | ConversationRequest conv uri \<Rightarrow> line_conversation_request acc ts conv uri
      | ConversationReady conv \<Rightarrow> line_conversation_ready acc ts conv
      | SavedConversation conv \<Rightarrow> line_saved_conversation acc ts conv
      | ConversationSyncFinished \<Rightarrow> line_sync_finished acc ts
      | SwarmCommit conv msg uri \<Rightarrow> line_swarm_commit acc ts conv msg uri
      | Reaction conv msg rea uri txt \<Rightarrow> line_reaction acc ts conv msg rea uri txt
      | Presence uri st \<Rightarrow> line_presence acc ts uri st
      | FileRecv conv uri msg fid nm sz \<Rightarrow> line_file_recv acc ts conv uri msg fid nm sz
      | FileProgress conv fid \<Rightarrow> line_file_progress acc ts conv fid
      | FileComplete conv fid st \<Rightarrow> line_file_complete acc ts conv fid st
      | DeviceLinkPin p \<Rightarrow> line_device_link_pin acc ts p
      | DeviceLinked dev \<Rightarrow> line_device_linked acc ts dev
      | DeviceUnlinked dev \<Rightarrow> line_device_unlinked acc ts dev
      | Error cmd cls txt \<Rightarrow> line_error acc ts cmd cls txt
      | System txt \<Rightarrow> line_system acc ts txt)"

definition event_to_turtle :: "carrier_event \<Rightarrow> str option" where
  "event_to_turtle ev = Some (event_line (ev_account_id ev) (ts_field (ev_timestamp ev)) (ev_data ev))"

text \<open>
  The callback given to libcarrier: null pointers are ignored, otherwise the rendered event is sent
  to the queue of the client, here a list.
\<close>

definition event_callback :: "carrier_event option \<Rightarrow> bool \<Rightarrow> str list \<Rightarrow> str list" where
  "event_callback event userdata_null queue =
     (case event of
        None \<Rightarrow> queue
      | Some ev \<Rightarrow>
          if userdata_null then queue
          else (case event_to_turtle ev of None \<Rightarrow> queue | Some turtle \<Rightarrow> queue @ [turtle]))"

section \<open>The record an event stands for\<close>

text \<open>The names of a record of an event are those of the carrier vocabulary.\<close>

definition carrier_name :: "str \<times> field_value \<Rightarrow> str \<times> field_value" where
  "carrier_name f = (''carrier:'' @ fst f, snd f)"

definition carrier_field :: "str \<times> field_value \<Rightarrow> str" where
  "carrier_field f = '' ; carrier:'' @ fst f @ '' '' @ render_value (snd f)"

lemma render_carrier_name [simp]: "render_field (carrier_name f) = carrier_field f"
  by (simp add: render_field_def carrier_name_def carrier_field_def)

definition buf_field :: "str \<Rightarrow> str \<Rightarrow> str \<times> field_value" where
  "buf_field name buf = (name, Lit (cstr_from_buf buf))"

definition opt_field :: "str \<Rightarrow> str \<Rightarrow> (str \<times> field_value) list" where
  "opt_field name buf = (if cstr_from_buf buf = [] then [] else [buf_field name buf])"

text \<open>The class and the fields of each event type.\<close>

fun event_class :: "event_data \<Rightarrow> str" where
  "event_class Connected = ''Connected''"
| "event_class Disconnected = ''Disconnected''"
| "event_class (AccountReady _ _) = ''AccountReady''"
| "event_class (AccountError _) = ''AccountError''"
| "event_class (AccountArchiveReady _) = ''AccountArchiveReady''"
| "event_class (SelfId _) = ''SelfId''"
| "event_class (TrustRequest _ _ _) = ''TrustRequest''"
| "event_class (ContactOnline _) = ''ContactOnline''"
| "event_class (ContactOffline _) = ''ContactOffline''"
| "event_class (ContactName _ _) = ''ContactName''"
| "event_class (ContactRestored _ _ _) = ''ContactRestored''"
| "event_class (TextMessage _ _ _ _ _) = ''TextMessage''"
| "event_class (MessageSent _ _ _ _) = ''MessageSent''"
| "event_class (GroupMessage _ _ _ _ _ _) = ''GroupMessage''"
| "event_class (GroupPeerJoin _ _) = ''GroupPeerJoin''"
| "event_class (GroupPeerExit _ _) = ''GroupPeerExit''"
| "event_class (ConversationRequest _ _) = ''ConversationRequest''"
| "event_class (ConversationReady _) = ''ConversationReady''"
| "event_class (SavedConversation _) = ''SavedConversation''"
| "event_class ConversationSyncFinished = ''ConversationSyncFinished''"
| "event_class (SwarmCommit _ _ _) = ''SwarmCommit''"
| "event_class (Reaction _ _ _ _ _) = ''Reaction''"
| "event_class (Presence _ _) = ''Presence''"
| "event_class (FileRecv _ _ _ _ _ _) = ''FileRecv''"
| "event_class (FileProgress _ _) = ''FileProgress''"
| "event_class (FileComplete _ _ _) = ''FileComplete''"
| "event_class (DeviceLinkPin _) = ''DeviceLinkPin''"
| "event_class (DeviceLinked _) = ''DeviceLinked''"
| "event_class (DeviceUnlinked _) = ''DeviceUnlinked''"
| "event_class (Error _ _ _) = ''Error''"
| "event_class (System _) = ''System''"

fun event_fields :: "event_data \<Rightarrow> (str \<times> field_value) list" where
  "event_fields (AccountReady uri dn) = buf_field ''selfUri'' uri # opt_field ''displayName'' dn"
| "event_fields (AccountError c) = [(''cause'', Lit (cstr_to_string c []))]"
| "event_fields (AccountArchiveReady p) = [buf_field ''path'' p]"
| "event_fields (SelfId uri) = [buf_field ''selfUri'' uri]"
| "event_fields (TrustRequest uri p len) = buf_field ''contactUri'' uri #
     (if p \<noteq> None \<and> len > 0 then [(''payload'', Lit (bytes_to_string p len))] else [])"
| "event_fields (ContactOnline uri) = [buf_field ''contactUri'' uri]"
| "event_fields (ContactOffline uri) = [buf_field ''contactUri'' uri]"
| "event_fields (ContactName uri dn) = [buf_field ''contactUri'' uri, buf_field ''displayName'' dn]"
| "event_fields (ContactRestored uri dn b) = [buf_field ''contactUri'' uri, buf_field ''displayName'' dn,
     (''blocked'', Lit (if b then ''true'' else ''false''))]"
| "event_fields (TextMessage uri conv msg p len) = [buf_field ''contactUri'' uri,
     buf_field ''conversationId'' conv, buf_field ''messageId'' msg, (''text'', Lit (bytes_to_string p len))]"
| "event_fields (MessageSent uri conv msg st) = [buf_field ''contactUri'' uri,
     buf_field ''conversationId'' conv, buf_field ''messageId'' msg, (''status'', Bare (int_to_dec (sint st)))]"
| "event_fields (GroupMessage conv msg uri dn p len) = buf_field ''conversationId'' conv #
     buf_field ''messageId'' msg # buf_field ''contactUri'' uri # opt_field ''displayName'' dn @
     [(''text'', Lit (bytes_to_string p len))]"
| "event_fields (GroupPeerJoin conv uri) = [buf_field ''conversationId'' conv, buf_field ''memberUri'' uri]"
| "event_fields (GroupPeerExit conv uri) = [buf_field ''conversationId'' conv, buf_field ''memberUri'' uri]"
| "event_fields (ConversationRequest conv uri) = [buf_field ''conversationId'' conv, buf_field ''contactUri'' uri]"
| "event_fields (ConversationReady conv) = [buf_field ''conversationId'' conv]"
| "event_fields (SavedConversation conv) = [buf_field ''conversationId'' conv]"
| "event_fields (SwarmCommit conv msg uri) = [buf_field ''conversationId'' conv, buf_field ''contactUri'' uri,
     buf_field ''messageId'' msg]"
| "event_fields (Reaction conv msg rea uri txt) = buf_field ''conversationId'' conv # buf_field ''messageId'' msg #
     buf_field ''contactUri'' uri # buf_field ''reaction'' txt # opt_field ''reactionId'' rea"
| "event_fields (Presence uri st) = [buf_field ''contactUri'' uri, buf_field ''status'' st]"
| "event_fields (FileRecv conv uri msg fid nm sz) = buf_field ''conversationId'' conv # buf_field ''contactUri'' uri #
     buf_field ''messageId'' msg # buf_field ''fileId'' fid # opt_field ''filename'' nm @
     [(''size'', Bare (nat_to_dec (unat sz)))]"
| "event_fields (FileProgress conv fid) = [buf_field ''conversationId'' conv, buf_field ''fileId'' fid]"
| "event_fields (FileComplete conv fid st) = [buf_field ''conversationId'' conv, buf_field ''fileId'' fid,
     buf_field ''status'' st]"
| "event_fields (DeviceLinkPin p) = [buf_field ''pin'' p]"
| "event_fields (DeviceLinked dev) = [buf_field ''contactUri'' dev]"
| "event_fields (DeviceUnlinked dev) = [buf_field ''contactUri'' dev]"
| "event_fields (Error cmd cls txt) = [buf_field ''command'' cmd, buf_field ''class'' cls,
     (''message'', Lit (cstr_to_string txt []))]"
| "event_fields (System txt) = [(''message'', Lit (cstr_to_string txt []))]"
| "event_fields _ = []"

definition event_record :: "carrier_event \<Rightarrow> str \<times> (str \<times> field_value) list" where
  "event_record ev = (''carrier:'' @ event_class (ev_data ev), map carrier_name (
     opt_field ''account'' (ev_account_id ev) @ event_fields (ev_data ev) @
     [(''at'', Dated (format_timestamp (ev_timestamp ev)))]))"

section \<open>The lines are the rendered records\<close>

lemmas line_defs = line_connected_def line_disconnected_def line_account_ready_def line_account_error_def
  line_account_archive_ready_def line_self_id_def line_trust_request_def line_contact_online_def
  line_contact_offline_def line_contact_name_def line_contact_restored_def line_text_message_def
  line_message_sent_def line_group_message_def line_group_peer_join_def line_group_peer_exit_def
  line_conversation_request_def line_conversation_ready_def line_saved_conversation_def
  line_sync_finished_def line_swarm_commit_def line_reaction_def line_presence_def line_file_recv_def
  line_file_progress_def line_file_complete_def line_device_link_pin_def line_device_linked_def
  line_device_unlinked_def line_error_def line_system_def

lemma format_timestamp_number: "\<forall>c \<in> set (format_timestamp ts). number_char c"
proof -
  obtain y m d where "civil_of_days (tdiv (tdiv ts 1000) 86400) = (y, m, d)" by (metis prod_cases3)
  then show ?thesis
    by (simp add: format_timestamp_def render_civil_def Let_def ball_Un pad_int_number)
qed

lemma ts_field_render: "ts_field ts = carrier_field (''at'', Dated (format_timestamp ts))"
  by (simp add: ts_field_def carrier_field_def carrier_escape_number [OF format_timestamp_number])

lemma lit_field_render: "lit_field name (cstr_from_buf b) = carrier_field (buf_field name b)"
    "lit_field name v = carrier_field (name, Lit v)"
  by (simp_all add: lit_field_def carrier_field_def buf_field_def)

lemma header_render: "header class acc = ''[] a carrier:'' @ class @ concat (map carrier_field (opt_field ''account'' acc))"
  by (simp add: header_def opt_field_def lit_field_render Let_def buf_field_def)

lemma bare_render: "'' ; carrier:'' @ name @ '' '' @ w = carrier_field (name, Bare w)"
  by (simp add: carrier_field_def)

lemma bool_render: "carrier_escape (if b then ''true'' else ''false'') = (if b then ''true'' else ''false'')"
  by (rule carrier_lit.esc_id) (simp add: char_names)

lemma opt_render: "(let v = cstr_from_buf b in if v \<noteq> [] then lit_field name v else [])
    = concat (map carrier_field (opt_field name b))"
  by (simp add: opt_field_def Let_def lit_field_render buf_field_def)

lemma opt_lit_render: "(if cstr_from_buf b = [] then [] else lit_field name (cstr_from_buf b))
    = concat (map carrier_field (opt_field name b))"
    "(if cstr_from_buf b \<noteq> [] then lit_field name (cstr_from_buf b) else [])
    = concat (map carrier_field (opt_field name b))"
  by (simp_all add: opt_field_def lit_field_render buf_field_def)

lemma buf_render: "lit_field name (cstr_from_buf b) = carrier_field (buf_field name b)"
  by (simp add: lit_field_def carrier_field_def buf_field_def)

lemma text_render: "lit_field name (bytes_to_string p n) = carrier_field (name, Lit (bytes_to_string p n))"
    "lit_field name (cstr_to_string p s) = carrier_field (name, Lit (cstr_to_string p s))"
  by (simp_all add: lit_field_def carrier_field_def)

lemma flag_render: "'' ; carrier:blocked '' @ quote # (if b then ''true'' else ''false'') @ quote # s
    = carrier_field (''blocked'', Lit (if b then ''true'' else ''false'')) @ s"
  by (simp add: carrier_field_def bool_render)

lemma number_render:
    "'' ; carrier:status '' @ w @ s = carrier_field (''status'', Bare w) @ s"
    "'' ; carrier:size '' @ w @ s = carrier_field (''size'', Bare w) @ s"
  by (simp_all add: carrier_field_def)

lemmas render_rules = header_render opt_lit_render buf_render text_render flag_render number_render

lemma event_line_render:
  "event_line acc (carrier_field (''at'', Dated t)) d =
    render_record (''carrier:'' @ event_class d, map carrier_name (opt_field ''account'' acc @ event_fields d @ [(''at'', Dated t)]))"
proof -
  define T where "T = carrier_field (''at'', Dated t)"
  have "event_line acc T d = ''[] a carrier:'' @ event_class d @ concat (map carrier_field (opt_field ''account'' acc))
      @ concat (map carrier_field (event_fields d)) @ T @ '' .''"
    unfolding event_line_def
    by (cases d) (simp_all add: line_defs render_rules Let_def del: append_Cons)
  then show ?thesis by (simp add: render_record_def T_def o_def del: append_Cons)
qed

lemma event_to_turtle_render: "event_to_turtle ev = Some (render_record (event_record ev))"
  by (simp add: event_to_turtle_def event_record_def ts_field_render event_line_render del: append_Cons)

lemma event_class_token: "token (event_class d)" "newline \<notin> set (event_class d)"
  by (cases d; simp add: token_def plain_char_def ascii_white_def value_ends_def newline_def)+

lemma opt_field_readable: "CHR '' '' \<notin> set p \<Longrightarrow> newline \<notin> set p \<Longrightarrow> \<forall>f \<in> set (opt_field p b). readable f"
  by (simp add: opt_field_def buf_field_def)

lemma event_fields_readable: "\<forall>f \<in> set (event_fields d). readable f"
proof -
  have "int_to_dec (sint st) \<noteq> []" for st :: "32 word" by (simp add: int_to_dec_def)
  then have "readable (''status'', Bare (int_to_dec (sint st)))" for st :: "32 word"
    by (rule number_readable [OF int_to_dec_number]) (simp_all add: newline_def)
  moreover have "readable (''size'', Bare (nat_to_dec n))" for n
    by (rule number_readable [OF nat_to_dec_number]) (simp_all add: newline_def)
  moreover have "\<forall>f \<in> set (opt_field ''displayName'' b) \<union> set (opt_field ''reactionId'' b) \<union> set (opt_field ''filename'' b). readable f" for b
    by (simp add: opt_field_def buf_field_def newline_def)
  ultimately show ?thesis
    by (cases d) (simp_all add: buf_field_def newline_def ball_Un del: readable.simps(1))
qed

lemma event_record_readable: "\<forall>f \<in> set (snd (event_record ev)). readable f"
proof -
  have "readable f \<Longrightarrow> readable (carrier_name f)" for f
    by (cases f rule: readable.cases) (simp_all add: carrier_name_def newline_def)
  then show ?thesis
    using event_fields_readable opt_field_readable [of "''account''"]
    by (auto simp: event_record_def newline_def)
qed

section \<open>Properties\<close>

text \<open>
  C4: for every event of every type and whatever its buffers, texts and pointers hold, the line that
  \<open>event_to_turtle\<close> makes is one line, has the event's class as its type, and is read back as
  exactly the event's account, fields and time: no content of a field, chosen by a remote peer, can
  end its literal or add a field.
\<close>

theorem event_line_reads_back:
  "\<exists>line. event_to_turtle ev = Some line \<and> newline \<notin> set line \<and>
     extract_rdf_type line = Some (carrier_ns @ event_class (ev_data ev)) \<and>
     read_record line = Some (event_record ev)"
proof -
  let ?cls = "event_class (ev_data ev)"
  obtain fs where r: "event_record ev = (''carrier:'' @ ?cls, fs)" by (simp add: event_record_def)
  have fs: "\<forall>f \<in> set fs. readable f" using event_record_readable [of ev] r by simp
  have cls: "CHR '' '' \<notin> set (''carrier:'' @ ?cls)" "newline \<notin> set (''carrier:'' @ ?cls)"
    using event_class_token [of "ev_data ev"] by (auto simp: token_def value_ends_def newline_def)
  have "token (''carrier'' @ '':'' @ ?cls)"
    using event_class_token(1) [of "ev_data ev"] by (simp add: token_def plain_char_def ascii_white_def value_ends_def)
  from record_type [OF this, of carrier_ns fs]
  have "extract_rdf_type (render_record (''carrier:'' @ ?cls, fs)) = Some (carrier_ns @ ?cls)"
    by (simp add: type_ns_def)
  then show ?thesis
    using event_to_turtle_render [of ev] read_record_render [OF cls(1) fs] render_record_breaks [OF cls(2) fs] r
    by simp
qed

end
