(* ===== verification/Carrier_Client.thy ===== *)
theory Carrier_Client
  imports Carrier_Event
begin

text \<open>
  The safe wrapper of libcarrier, \<open>CarrierClient\<close> of \<^verbatim>\<open>src/carrier.rs\<close>.  The C library is
  not part of the repository: it is a parameter, a function from its state and a call to its new
  state, the return code, the contents of the output buffer and the events it reported during the
  call.  The calls are a datatype with one constructor per \<open>extern "C"\<close> function.  Each method
  converts its texts to C strings in order, makes one call, and turns a negative return code into
  an error.
\<close>

section \<open>The C interface\<close>

datatype (plugins only: code size) ccall =
    C_new str
  | C_free
  | C_iterate
  | C_iteration_interval
  | C_clock_fd
  | C_set_event_callback bool
  | C_set_log_callback bool
  | C_set_log_level int
  | C_create_account "str option" "str option" "str option"
  | C_load_account str
  | C_export_account str str "str option"
  | C_remove_account str
  | C_get_id str
  | C_set_nick str str
  | C_apply_dht_preset str
  | C_set_account_config str int "str option" "str option" "str option" "str option" "str option" "str option"
  | C_send_trust_request str str "str option"
  | C_accept_trust_request str str
  | C_discard_trust_request str str
  | C_remove_contact str str
  | C_block_peer str str
  | C_unblock_peer str str
  | C_send_message str str str
  | C_create_conversation str "str option"
  | C_get_saved_conversation str
  | C_send_conversation_message str str str
  | C_load_conversation_messages str str str nat
  | C_clear_conversation_cache str str
  | C_accept_conversation_request str str
  | C_decline_conversation_request str str
  | C_invite_to_conversation str str str
  | C_remove_conversation str str
  | C_send_reaction str str str str
  | C_subscribe_presence str str bool
  | C_send_file str str str "str option"
  | C_accept_file str str str str str
  | C_cancel_file str str str
  | C_create_linking_account
  | C_authorize_device str str
  | C_revoke_device str str

record cresult =
  c_rc :: "32 word"
  c_out :: str
  c_events :: "carrier_event list"

type_synonym 'c clib = "'c \<Rightarrow> ccall \<Rightarrow> 'c \<times> cresult"

text \<open>
  The client: the library's state, the queue the event callback sends to, the thread that iterates
  and the path of a pending automatic export.
\<close>

record 'c client =
  cl_lib :: 'c
  cl_queue :: "str list"
  cl_iterate_thread :: "nat option"
  cl_pending_export :: "str option"

definition c_call :: "'c clib \<Rightarrow> ccall \<Rightarrow> 'c client \<Rightarrow> 'c client \<times> cresult" where
  "c_call lib call cl =
     (let (c', res) = lib (cl_lib cl) call
      in (cl\<lparr>cl_lib := c',
             cl_queue := fold (\<lambda>ev q. event_callback (Some ev) False q) (c_events res) (cl_queue cl)\<rparr>, res))"

section \<open>C strings\<close>

text \<open>\<open>CString::new\<close>, with the error as it is printed.\<close>

definition cstring :: "str \<Rightarrow> str + str" where
  "cstring s =
     (if nul \<in> set s
      then Inl (''nul byte found in provided data at position: '' @ nat_to_dec (length (takeWhile (\<lambda>c. c \<noteq> nul) s)))
      else Inr s)"

definition opt_cstring :: "str option \<Rightarrow> str + str option" where
  "opt_cstring s = (case s of None \<Rightarrow> Inr None | Some t \<Rightarrow> and_then (cstring t) (\<lambda>u. Inr (Some u)))"

text \<open>The operator \<open>?\<close> in a method that has a state.\<close>

definition attempt :: "'s \<Rightarrow> 'e + 'a \<Rightarrow> ('a \<Rightarrow> 's \<times> ('e + 'b)) \<Rightarrow> 's \<times> ('e + 'b)" where
  "attempt s r f = (case r of Inl e \<Rightarrow> (s, Inl e) | Inr a \<Rightarrow> f a)"

lemma attempt_simps [simp]: "attempt s (Inl e) f = (s, Inl e)" "attempt s (Inr a) f = f a"
  by (simp_all add: attempt_def)

definition failed :: "str \<Rightarrow> 32 word \<Rightarrow> str" where
  "failed name rc = name @ '' failed: '' @ int_to_dec (sint rc)"

definition checked :: "'c clib \<Rightarrow> str \<Rightarrow> ccall \<Rightarrow> 'c client \<Rightarrow> 'c client \<times> (str + unit)" where
  "checked lib name call cl =
     (let (cl', res) = c_call lib call cl
      in (cl', if sint (c_rc res) < 0 then Inl (failed name (c_rc res)) else Inr ()))"

definition checked_id :: "'c clib \<Rightarrow> str \<Rightarrow> ccall \<Rightarrow> 'c client \<Rightarrow> 'c client \<times> (str + str)" where
  "checked_id lib name call cl =
     (let (cl', res) = c_call lib call cl
      in (cl', if sint (c_rc res) < 0 then Inl (failed name (c_rc res)) else Inr (cstr_from_buf (c_out res))))"

section \<open>Life of a client\<close>

definition carrier_log_debug :: int where "carrier_log_debug = 3"

text \<open>
  \<open>CarrierClient::new\<close>: \<open>lib0\<close> is the state of the library before; a null pointer is reported as a
  negative code.
\<close>

definition client_new :: "'c clib \<Rightarrow> str \<Rightarrow> 'c \<Rightarrow> str + 'c client" where
  "client_new lib data_dir lib0 =
     and_then (cstring data_dir) (\<lambda>dir.
       let (c1, res) = lib lib0 (C_new dir)
       in if sint (c_rc res) < 0 then Inl ''carrier_new returned NULL''
          else let c2 = fst (lib c1 (C_set_log_level carrier_log_debug));
                   c3 = fst (lib c2 (C_set_event_callback True))
               in Inr \<lparr>cl_lib = c3, cl_queue = [], cl_iterate_thread = None, cl_pending_export = None\<rparr>)"

definition client_drop :: "'c clib \<Rightarrow> 'c client \<Rightarrow> 'c" where
  "client_drop lib cl =
     (let c1 = fst (lib (cl_lib cl) (C_set_event_callback False));
          c2 = fst (lib c1 (C_set_log_callback False))
      in fst (lib c2 C_free))"

definition set_pending_auto_export :: "str \<Rightarrow> 'c client \<Rightarrow> 'c client" where
  "set_pending_auto_export p cl = cl\<lparr>cl_pending_export := Some p\<rparr>"

definition take_pending_auto_export :: "'c client \<Rightarrow> 'c client \<times> str option" where
  "take_pending_auto_export cl = (cl\<lparr>cl_pending_export := None\<rparr>, cl_pending_export cl)"

text \<open>
  \<open>iterate\<close> on thread \<open>tid\<close>; a call from another thread than the first panics in a debug build,
  the result \<open>None\<close>.
\<close>

definition iterate :: "'c clib \<Rightarrow> bool \<Rightarrow> nat \<Rightarrow> 'c client \<Rightarrow> ('c client \<times> (str + unit)) option" where
  "iterate lib debug_build tid cl =
     (let owner = (case cl_iterate_thread cl of Some t \<Rightarrow> t | None \<Rightarrow> tid);
          cl1 = cl\<lparr>cl_iterate_thread := Some owner\<rparr>
      in if debug_build \<and> owner \<noteq> tid then None
         else Some (let (cl2, res) = c_call lib C_iterate cl1
                    in (cl2, if sint (c_rc res) < 0
                             then Inl (''carrier_iterate returned '' @ int_to_dec (sint (c_rc res)))
                             else Inr ())))"

text \<open>In milliseconds.\<close>

definition iteration_interval :: "'c clib \<Rightarrow> 'c client \<Rightarrow> 'c client \<times> int" where
  "iteration_interval lib cl =
     (let (cl', res) = c_call lib C_iteration_interval cl in (cl', max (sint (c_rc res)) 1))"

definition carrier_clock_fd :: "'c clib \<Rightarrow> 'c client \<Rightarrow> 'c client \<times> int option" where
  "carrier_clock_fd lib cl =
     (let (cl', res) = c_call lib C_clock_fd cl; fd = sint (c_rc res)
      in (cl', if fd < 0 then None else Some fd))"

section \<open>The methods\<close>

definition load_account :: "'c clib \<Rightarrow> str \<Rightarrow> 'c client \<Rightarrow> 'c client \<times> (str + unit)" where
  "load_account lib acc cl =
     attempt cl (cstring acc) (\<lambda>acc_c.
       checked lib ''carrier_load_account'' (C_load_account acc_c) cl)"

definition remove_account :: "'c clib \<Rightarrow> str \<Rightarrow> 'c client \<Rightarrow> 'c client \<times> (str + unit)" where
  "remove_account lib acc cl =
     attempt cl (cstring acc) (\<lambda>acc_c.
       checked lib ''carrier_remove_account'' (C_remove_account acc_c) cl)"

definition get_id :: "'c clib \<Rightarrow> str \<Rightarrow> 'c client \<Rightarrow> 'c client \<times> (str + unit)" where
  "get_id lib acc cl =
     attempt cl (cstring acc) (\<lambda>acc_c.
       checked lib ''carrier_get_id'' (C_get_id acc_c) cl)"

definition set_nick :: "'c clib \<Rightarrow> str \<Rightarrow> str \<Rightarrow> 'c client \<Rightarrow> 'c client \<times> (str + unit)" where
  "set_nick lib acc nick cl =
     attempt cl (cstring acc) (\<lambda>acc_c.
     attempt cl (cstring nick) (\<lambda>nick_c.
       checked lib ''carrier_set_nick'' (C_set_nick acc_c nick_c) cl))"

definition apply_dht_preset :: "'c clib \<Rightarrow> str \<Rightarrow> 'c client \<Rightarrow> 'c client \<times> (str + unit)" where
  "apply_dht_preset lib acc cl =
     attempt cl (cstring acc) (\<lambda>acc_c.
       checked lib ''carrier_apply_dht_preset'' (C_apply_dht_preset acc_c) cl)"

definition send_trust_request :: "'c clib \<Rightarrow> str \<Rightarrow> str \<Rightarrow> str option \<Rightarrow> 'c client \<Rightarrow> 'c client \<times> (str + unit)" where
  "send_trust_request lib acc uri message cl =
     attempt cl (cstring acc) (\<lambda>acc_c.
     attempt cl (cstring uri) (\<lambda>uri_c.
     attempt cl (opt_cstring message) (\<lambda>message_c.
       checked lib ''carrier_send_trust_request'' (C_send_trust_request acc_c uri_c message_c) cl)))"

definition accept_trust_request :: "'c clib \<Rightarrow> str \<Rightarrow> str \<Rightarrow> 'c client \<Rightarrow> 'c client \<times> (str + unit)" where
  "accept_trust_request lib acc uri cl =
     attempt cl (cstring acc) (\<lambda>acc_c.
     attempt cl (cstring uri) (\<lambda>uri_c.
       checked lib ''carrier_accept_trust_request'' (C_accept_trust_request acc_c uri_c) cl))"

definition discard_trust_request :: "'c clib \<Rightarrow> str \<Rightarrow> str \<Rightarrow> 'c client \<Rightarrow> 'c client \<times> (str + unit)" where
  "discard_trust_request lib acc uri cl =
     attempt cl (cstring acc) (\<lambda>acc_c.
     attempt cl (cstring uri) (\<lambda>uri_c.
       checked lib ''carrier_discard_trust_request'' (C_discard_trust_request acc_c uri_c) cl))"

definition remove_contact :: "'c clib \<Rightarrow> str \<Rightarrow> str \<Rightarrow> 'c client \<Rightarrow> 'c client \<times> (str + unit)" where
  "remove_contact lib acc uri cl =
     attempt cl (cstring acc) (\<lambda>acc_c.
     attempt cl (cstring uri) (\<lambda>uri_c.
       checked lib ''carrier_remove_contact'' (C_remove_contact acc_c uri_c) cl))"

definition block_peer :: "'c clib \<Rightarrow> str \<Rightarrow> str \<Rightarrow> 'c client \<Rightarrow> 'c client \<times> (str + unit)" where
  "block_peer lib acc uri cl =
     attempt cl (cstring acc) (\<lambda>acc_c.
     attempt cl (cstring uri) (\<lambda>uri_c.
       checked lib ''carrier_block_peer'' (C_block_peer acc_c uri_c) cl))"

definition unblock_peer :: "'c clib \<Rightarrow> str \<Rightarrow> str \<Rightarrow> 'c client \<Rightarrow> 'c client \<times> (str + unit)" where
  "unblock_peer lib acc uri cl =
     attempt cl (cstring acc) (\<lambda>acc_c.
     attempt cl (cstring uri) (\<lambda>uri_c.
       checked lib ''carrier_unblock_peer'' (C_unblock_peer acc_c uri_c) cl))"

definition send_message :: "'c clib \<Rightarrow> str \<Rightarrow> str \<Rightarrow> str \<Rightarrow> 'c client \<Rightarrow> 'c client \<times> (str + unit)" where
  "send_message lib acc uri text cl =
     attempt cl (cstring acc) (\<lambda>acc_c.
     attempt cl (cstring uri) (\<lambda>uri_c.
     attempt cl (cstring text) (\<lambda>text_c.
       checked lib ''carrier_send_message'' (C_send_message acc_c uri_c text_c) cl)))"

definition create_conversation :: "'c clib \<Rightarrow> str \<Rightarrow> str option \<Rightarrow> 'c client \<Rightarrow> 'c client \<times> (str + str)" where
  "create_conversation lib acc privacy cl =
     attempt cl (cstring acc) (\<lambda>acc_c.
     attempt cl (opt_cstring privacy) (\<lambda>privacy_c.
       checked_id lib ''carrier_create_conversation'' (C_create_conversation acc_c privacy_c) cl))"

definition get_saved_conversation :: "'c clib \<Rightarrow> str \<Rightarrow> 'c client \<Rightarrow> 'c client \<times> (str + unit)" where
  "get_saved_conversation lib acc cl =
     attempt cl (cstring acc) (\<lambda>acc_c.
       checked lib ''carrier_get_saved_conversation'' (C_get_saved_conversation acc_c) cl)"

definition send_conversation_message :: "'c clib \<Rightarrow> str \<Rightarrow> str \<Rightarrow> str \<Rightarrow> 'c client \<Rightarrow> 'c client \<times> (str + unit)" where
  "send_conversation_message lib acc conv text cl =
     attempt cl (cstring acc) (\<lambda>acc_c.
     attempt cl (cstring conv) (\<lambda>conv_c.
     attempt cl (cstring text) (\<lambda>text_c.
       checked lib ''carrier_send_conversation_message'' (C_send_conversation_message acc_c conv_c text_c) cl)))"

definition load_conversation_messages :: "'c clib \<Rightarrow> str \<Rightarrow> str \<Rightarrow> str \<Rightarrow> nat \<Rightarrow> 'c client \<Rightarrow> 'c client \<times> (str + unit)" where
  "load_conversation_messages lib acc conv from_msg n cl =
     attempt cl (cstring acc) (\<lambda>acc_c.
     attempt cl (cstring conv) (\<lambda>conv_c.
     attempt cl (cstring from_msg) (\<lambda>from_msg_c.
       checked lib ''carrier_load_conversation_messages'' (C_load_conversation_messages acc_c conv_c from_msg_c n) cl)))"

definition clear_conversation_cache :: "'c clib \<Rightarrow> str \<Rightarrow> str \<Rightarrow> 'c client \<Rightarrow> 'c client \<times> (str + unit)" where
  "clear_conversation_cache lib acc conv cl =
     attempt cl (cstring acc) (\<lambda>acc_c.
     attempt cl (cstring conv) (\<lambda>conv_c.
       checked lib ''carrier_clear_conversation_cache'' (C_clear_conversation_cache acc_c conv_c) cl))"

definition accept_conversation_request :: "'c clib \<Rightarrow> str \<Rightarrow> str \<Rightarrow> 'c client \<Rightarrow> 'c client \<times> (str + unit)" where
  "accept_conversation_request lib acc conv cl =
     attempt cl (cstring acc) (\<lambda>acc_c.
     attempt cl (cstring conv) (\<lambda>conv_c.
       checked lib ''carrier_accept_conversation_request'' (C_accept_conversation_request acc_c conv_c) cl))"

definition decline_conversation_request :: "'c clib \<Rightarrow> str \<Rightarrow> str \<Rightarrow> 'c client \<Rightarrow> 'c client \<times> (str + unit)" where
  "decline_conversation_request lib acc conv cl =
     attempt cl (cstring acc) (\<lambda>acc_c.
     attempt cl (cstring conv) (\<lambda>conv_c.
       checked lib ''carrier_decline_conversation_request'' (C_decline_conversation_request acc_c conv_c) cl))"

definition invite_to_conversation :: "'c clib \<Rightarrow> str \<Rightarrow> str \<Rightarrow> str \<Rightarrow> 'c client \<Rightarrow> 'c client \<times> (str + unit)" where
  "invite_to_conversation lib acc conv uri cl =
     attempt cl (cstring acc) (\<lambda>acc_c.
     attempt cl (cstring conv) (\<lambda>conv_c.
     attempt cl (cstring uri) (\<lambda>uri_c.
       checked lib ''carrier_invite_to_conversation'' (C_invite_to_conversation acc_c conv_c uri_c) cl)))"

definition remove_conversation :: "'c clib \<Rightarrow> str \<Rightarrow> str \<Rightarrow> 'c client \<Rightarrow> 'c client \<times> (str + unit)" where
  "remove_conversation lib acc conv cl =
     attempt cl (cstring acc) (\<lambda>acc_c.
     attempt cl (cstring conv) (\<lambda>conv_c.
       checked lib ''carrier_remove_conversation'' (C_remove_conversation acc_c conv_c) cl))"

definition send_reaction :: "'c clib \<Rightarrow> str \<Rightarrow> str \<Rightarrow> str \<Rightarrow> str \<Rightarrow> 'c client \<Rightarrow> 'c client \<times> (str + unit)" where
  "send_reaction lib acc conv msg react cl =
     attempt cl (cstring acc) (\<lambda>acc_c.
     attempt cl (cstring conv) (\<lambda>conv_c.
     attempt cl (cstring msg) (\<lambda>msg_c.
     attempt cl (cstring react) (\<lambda>react_c.
       checked lib ''carrier_send_reaction'' (C_send_reaction acc_c conv_c msg_c react_c) cl))))"

definition subscribe_presence :: "'c clib \<Rightarrow> str \<Rightarrow> str \<Rightarrow> bool \<Rightarrow> 'c client \<Rightarrow> 'c client \<times> (str + unit)" where
  "subscribe_presence lib acc uri subscribe cl =
     attempt cl (cstring acc) (\<lambda>acc_c.
     attempt cl (cstring uri) (\<lambda>uri_c.
       checked lib ''carrier_subscribe_presence'' (C_subscribe_presence acc_c uri_c subscribe) cl))"

definition send_file :: "'c clib \<Rightarrow> str \<Rightarrow> str \<Rightarrow> str \<Rightarrow> str option \<Rightarrow> 'c client \<Rightarrow> 'c client \<times> (str + unit)" where
  "send_file lib acc conv pth name cl =
     attempt cl (cstring acc) (\<lambda>acc_c.
     attempt cl (cstring conv) (\<lambda>conv_c.
     attempt cl (cstring pth) (\<lambda>pth_c.
     attempt cl (opt_cstring name) (\<lambda>name_c.
       checked lib ''carrier_send_file'' (C_send_file acc_c conv_c pth_c name_c) cl))))"

definition accept_file :: "'c clib \<Rightarrow> str \<Rightarrow> str \<Rightarrow> str \<Rightarrow> str \<Rightarrow> str \<Rightarrow> 'c client \<Rightarrow> 'c client \<times> (str + unit)" where
  "accept_file lib acc conv msg fid pth cl =
     attempt cl (cstring acc) (\<lambda>acc_c.
     attempt cl (cstring conv) (\<lambda>conv_c.
     attempt cl (cstring msg) (\<lambda>msg_c.
     attempt cl (cstring fid) (\<lambda>fid_c.
     attempt cl (cstring pth) (\<lambda>pth_c.
       checked lib ''carrier_accept_file'' (C_accept_file acc_c conv_c msg_c fid_c pth_c) cl)))))"

definition cancel_file :: "'c clib \<Rightarrow> str \<Rightarrow> str \<Rightarrow> str \<Rightarrow> 'c client \<Rightarrow> 'c client \<times> (str + unit)" where
  "cancel_file lib acc conv fid cl =
     attempt cl (cstring acc) (\<lambda>acc_c.
     attempt cl (cstring conv) (\<lambda>conv_c.
     attempt cl (cstring fid) (\<lambda>fid_c.
       checked lib ''carrier_cancel_file'' (C_cancel_file acc_c conv_c fid_c) cl)))"

definition create_linking_account :: "'c clib \<Rightarrow> 'c client \<Rightarrow> 'c client \<times> (str + str)" where
  "create_linking_account lib cl =
       checked_id lib ''carrier_create_linking_account'' C_create_linking_account cl"

definition authorize_device :: "'c clib \<Rightarrow> str \<Rightarrow> str \<Rightarrow> 'c client \<Rightarrow> 'c client \<times> (str + unit)" where
  "authorize_device lib acc pin cl =
     attempt cl (cstring acc) (\<lambda>acc_c.
     attempt cl (cstring pin) (\<lambda>pin_c.
       checked lib ''carrier_authorize_device'' (C_authorize_device acc_c pin_c) cl))"

definition revoke_device :: "'c clib \<Rightarrow> str \<Rightarrow> str \<Rightarrow> 'c client \<Rightarrow> 'c client \<times> (str + unit)" where
  "revoke_device lib acc did cl =
     attempt cl (cstring acc) (\<lambda>acc_c.
     attempt cl (cstring did) (\<lambda>did_c.
       checked lib ''carrier_revoke_device'' (C_revoke_device acc_c did_c) cl))"

definition export_account :: "'c clib \<Rightarrow> str \<Rightarrow> str \<Rightarrow> str option \<Rightarrow> 'c client \<Rightarrow> 'c client \<times> (str + unit)" where
  "export_account lib acc dest pw cl =
     attempt cl (cstring acc) (\<lambda>acc_c.
     attempt cl (cstring dest) (\<lambda>dest_c.
     attempt cl (opt_cstring pw) (\<lambda>pw_c.
       checked lib ''carrier_export_account'' (C_export_account acc_c dest_c pw_c) cl)))"

definition create_account :: "'c clib \<Rightarrow> str option \<Rightarrow> str option \<Rightarrow> str option \<Rightarrow> 'c client \<Rightarrow> 'c client \<times> (str + str)" where
  "create_account lib name arch pw cl =
     attempt cl (opt_cstring name) (\<lambda>name_c.
     attempt cl (opt_cstring arch) (\<lambda>arch_c.
     attempt cl (opt_cstring pw) (\<lambda>pw_c.
       checked_id lib ''carrier_create_account'' (C_create_account name_c arch_c pw_c) cl)))"

record net_config =
  nc_proxy_enabled :: "bool option"
  nc_dht_proxy_list_url :: "str option"
  nc_proxy_server :: "str option"
  nc_bootstrap :: "str option"
  nc_turn_server :: "str option"
  nc_turn_username :: "str option"
  nc_turn_password :: "str option"

text \<open>An empty text counts as absent and becomes a null pointer.\<close>

definition config_cstring :: "str option \<Rightarrow> str + str option" where
  "config_cstring s = opt_cstring (opt_filter (\<lambda>v. v \<noteq> []) s)"

definition proxy_flag :: "bool option \<Rightarrow> int" where
  "proxy_flag b = (case b of None \<Rightarrow> - 1 | Some False \<Rightarrow> 0 | Some True \<Rightarrow> 1)"

definition set_account_config :: "'c clib \<Rightarrow> str \<Rightarrow> net_config \<Rightarrow> 'c client \<Rightarrow> 'c client \<times> (str + unit)" where
  "set_account_config lib acc cfg cl =
     attempt cl (cstring acc) (\<lambda>acc_c.
     attempt cl (config_cstring (nc_dht_proxy_list_url cfg)) (\<lambda>dht_c.
     attempt cl (config_cstring (nc_proxy_server cfg)) (\<lambda>proxy_c.
     attempt cl (config_cstring (nc_bootstrap cfg)) (\<lambda>boot_c.
     attempt cl (config_cstring (nc_turn_server cfg)) (\<lambda>turn_c.
     attempt cl (config_cstring (nc_turn_username cfg)) (\<lambda>tuser_c.
     attempt cl (config_cstring (nc_turn_password cfg)) (\<lambda>tpass_c.
       checked lib ''carrier_set_account_config''
         (C_set_account_config acc_c (proxy_flag (nc_proxy_enabled cfg)) dht_c proxy_c boot_c turn_c tuser_c tpass_c)
         cl)))))))"

section \<open>What every method does\<close>

text \<open>
  The methods, indexed by the call each makes; the answer of one that returns an identifier is
  \<open>Some\<close>.
\<close>

definition plain_result :: "'s \<times> (str + unit) \<Rightarrow> 's \<times> (str + str option)" where
  "plain_result r = (fst r, map_sum id (\<lambda>_. None) (snd r))"

definition id_result :: "'s \<times> (str + str) \<Rightarrow> 's \<times> (str + str option)" where
  "id_result r = (fst r, map_sum id Some (snd r))"

fun client_method :: "'c clib \<Rightarrow> ccall \<Rightarrow> 'c client \<Rightarrow> ('c client \<times> (str + str option)) option" where
  "client_method lib (C_load_account acc) cl = Some (plain_result (load_account lib acc cl))"
| "client_method lib (C_remove_account acc) cl = Some (plain_result (remove_account lib acc cl))"
| "client_method lib (C_get_id acc) cl = Some (plain_result (get_id lib acc cl))"
| "client_method lib (C_set_nick acc nick) cl = Some (plain_result (set_nick lib acc nick cl))"
| "client_method lib (C_apply_dht_preset acc) cl = Some (plain_result (apply_dht_preset lib acc cl))"
| "client_method lib (C_send_trust_request acc uri message) cl = Some (plain_result (send_trust_request lib acc uri message cl))"
| "client_method lib (C_accept_trust_request acc uri) cl = Some (plain_result (accept_trust_request lib acc uri cl))"
| "client_method lib (C_discard_trust_request acc uri) cl = Some (plain_result (discard_trust_request lib acc uri cl))"
| "client_method lib (C_remove_contact acc uri) cl = Some (plain_result (remove_contact lib acc uri cl))"
| "client_method lib (C_block_peer acc uri) cl = Some (plain_result (block_peer lib acc uri cl))"
| "client_method lib (C_unblock_peer acc uri) cl = Some (plain_result (unblock_peer lib acc uri cl))"
| "client_method lib (C_send_message acc uri text) cl = Some (plain_result (send_message lib acc uri text cl))"
| "client_method lib (C_create_conversation acc privacy) cl = Some (id_result (create_conversation lib acc privacy cl))"
| "client_method lib (C_get_saved_conversation acc) cl = Some (plain_result (get_saved_conversation lib acc cl))"
| "client_method lib (C_send_conversation_message acc conv text) cl = Some (plain_result (send_conversation_message lib acc conv text cl))"
| "client_method lib (C_load_conversation_messages acc conv from_msg n) cl = Some (plain_result (load_conversation_messages lib acc conv from_msg n cl))"
| "client_method lib (C_clear_conversation_cache acc conv) cl = Some (plain_result (clear_conversation_cache lib acc conv cl))"
| "client_method lib (C_accept_conversation_request acc conv) cl = Some (plain_result (accept_conversation_request lib acc conv cl))"
| "client_method lib (C_decline_conversation_request acc conv) cl = Some (plain_result (decline_conversation_request lib acc conv cl))"
| "client_method lib (C_invite_to_conversation acc conv uri) cl = Some (plain_result (invite_to_conversation lib acc conv uri cl))"
| "client_method lib (C_remove_conversation acc conv) cl = Some (plain_result (remove_conversation lib acc conv cl))"
| "client_method lib (C_send_reaction acc conv msg react) cl = Some (plain_result (send_reaction lib acc conv msg react cl))"
| "client_method lib (C_subscribe_presence acc uri subscribe) cl = Some (plain_result (subscribe_presence lib acc uri subscribe cl))"
| "client_method lib (C_send_file acc conv pth name) cl = Some (plain_result (send_file lib acc conv pth name cl))"
| "client_method lib (C_accept_file acc conv msg fid pth) cl = Some (plain_result (accept_file lib acc conv msg fid pth cl))"
| "client_method lib (C_cancel_file acc conv fid) cl = Some (plain_result (cancel_file lib acc conv fid cl))"
| "client_method lib C_create_linking_account cl = Some (id_result (create_linking_account lib cl))"
| "client_method lib (C_authorize_device acc pin) cl = Some (plain_result (authorize_device lib acc pin cl))"
| "client_method lib (C_revoke_device acc did) cl = Some (plain_result (revoke_device lib acc did cl))"
| "client_method lib (C_export_account acc dest pw) cl = Some (plain_result (export_account lib acc dest pw cl))"
| "client_method lib (C_create_account name arch pw) cl = Some (id_result (create_account lib name arch pw cl))"
| "client_method lib _ cl = None"

text \<open>The texts a call passes, in the order they are converted.\<close>

definition of_opt :: "str option \<Rightarrow> str list" where
  "of_opt s = (case s of None \<Rightarrow> [] | Some t \<Rightarrow> [t])"

fun call_texts :: "ccall \<Rightarrow> str list" where
  "call_texts (C_load_account acc) = [acc]"
| "call_texts (C_remove_account acc) = [acc]"
| "call_texts (C_get_id acc) = [acc]"
| "call_texts (C_set_nick acc nick) = [acc] @ [nick]"
| "call_texts (C_apply_dht_preset acc) = [acc]"
| "call_texts (C_send_trust_request acc uri message) = [acc] @ [uri] @ of_opt message"
| "call_texts (C_accept_trust_request acc uri) = [acc] @ [uri]"
| "call_texts (C_discard_trust_request acc uri) = [acc] @ [uri]"
| "call_texts (C_remove_contact acc uri) = [acc] @ [uri]"
| "call_texts (C_block_peer acc uri) = [acc] @ [uri]"
| "call_texts (C_unblock_peer acc uri) = [acc] @ [uri]"
| "call_texts (C_send_message acc uri text) = [acc] @ [uri] @ [text]"
| "call_texts (C_create_conversation acc privacy) = [acc] @ of_opt privacy"
| "call_texts (C_get_saved_conversation acc) = [acc]"
| "call_texts (C_send_conversation_message acc conv text) = [acc] @ [conv] @ [text]"
| "call_texts (C_load_conversation_messages acc conv from_msg _) = [acc] @ [conv] @ [from_msg]"
| "call_texts (C_clear_conversation_cache acc conv) = [acc] @ [conv]"
| "call_texts (C_accept_conversation_request acc conv) = [acc] @ [conv]"
| "call_texts (C_decline_conversation_request acc conv) = [acc] @ [conv]"
| "call_texts (C_invite_to_conversation acc conv uri) = [acc] @ [conv] @ [uri]"
| "call_texts (C_remove_conversation acc conv) = [acc] @ [conv]"
| "call_texts (C_send_reaction acc conv msg react) = [acc] @ [conv] @ [msg] @ [react]"
| "call_texts (C_subscribe_presence acc uri _) = [acc] @ [uri]"
| "call_texts (C_send_file acc conv pth name) = [acc] @ [conv] @ [pth] @ of_opt name"
| "call_texts (C_accept_file acc conv msg fid pth) = [acc] @ [conv] @ [msg] @ [fid] @ [pth]"
| "call_texts (C_cancel_file acc conv fid) = [acc] @ [conv] @ [fid]"
| "call_texts C_create_linking_account = []"
| "call_texts (C_authorize_device acc pin) = [acc] @ [pin]"
| "call_texts (C_revoke_device acc did) = [acc] @ [did]"
| "call_texts (C_export_account acc dest pw) = [acc] @ [dest] @ of_opt pw"
| "call_texts (C_create_account name arch pw) = of_opt name @ of_opt arch @ of_opt pw"
| "call_texts (C_set_account_config acc _ dht proxy boot turn tuser tpass) =
     [acc] @ of_opt dht @ of_opt proxy @ of_opt boot @ of_opt turn @ of_opt tuser @ of_opt tpass"
| "call_texts _ = []"

fun call_name :: "ccall \<Rightarrow> str" where
  "call_name (C_load_account _) = ''carrier_load_account''"
| "call_name (C_remove_account _) = ''carrier_remove_account''"
| "call_name (C_get_id _) = ''carrier_get_id''"
| "call_name (C_set_nick _ _) = ''carrier_set_nick''"
| "call_name (C_apply_dht_preset _) = ''carrier_apply_dht_preset''"
| "call_name (C_send_trust_request _ _ _) = ''carrier_send_trust_request''"
| "call_name (C_accept_trust_request _ _) = ''carrier_accept_trust_request''"
| "call_name (C_discard_trust_request _ _) = ''carrier_discard_trust_request''"
| "call_name (C_remove_contact _ _) = ''carrier_remove_contact''"
| "call_name (C_block_peer _ _) = ''carrier_block_peer''"
| "call_name (C_unblock_peer _ _) = ''carrier_unblock_peer''"
| "call_name (C_send_message _ _ _) = ''carrier_send_message''"
| "call_name (C_create_conversation _ _) = ''carrier_create_conversation''"
| "call_name (C_get_saved_conversation _) = ''carrier_get_saved_conversation''"
| "call_name (C_send_conversation_message _ _ _) = ''carrier_send_conversation_message''"
| "call_name (C_load_conversation_messages _ _ _ _) = ''carrier_load_conversation_messages''"
| "call_name (C_clear_conversation_cache _ _) = ''carrier_clear_conversation_cache''"
| "call_name (C_accept_conversation_request _ _) = ''carrier_accept_conversation_request''"
| "call_name (C_decline_conversation_request _ _) = ''carrier_decline_conversation_request''"
| "call_name (C_invite_to_conversation _ _ _) = ''carrier_invite_to_conversation''"
| "call_name (C_remove_conversation _ _) = ''carrier_remove_conversation''"
| "call_name (C_send_reaction _ _ _ _) = ''carrier_send_reaction''"
| "call_name (C_subscribe_presence _ _ _) = ''carrier_subscribe_presence''"
| "call_name (C_send_file _ _ _ _) = ''carrier_send_file''"
| "call_name (C_accept_file _ _ _ _ _) = ''carrier_accept_file''"
| "call_name (C_cancel_file _ _ _) = ''carrier_cancel_file''"
| "call_name C_create_linking_account = ''carrier_create_linking_account''"
| "call_name (C_authorize_device _ _) = ''carrier_authorize_device''"
| "call_name (C_revoke_device _ _) = ''carrier_revoke_device''"
| "call_name (C_export_account _ _ _) = ''carrier_export_account''"
| "call_name (C_create_account _ _ _) = ''carrier_create_account''"
| "call_name (C_set_account_config _ _ _ _ _ _ _ _) = ''carrier_set_account_config''"
| "call_name _ = []"

definition gives_id :: "ccall \<Rightarrow> bool" where
  "gives_id call = (case call of C_create_account _ _ _ \<Rightarrow> True | C_create_conversation _ _ \<Rightarrow> True
     | C_create_linking_account \<Rightarrow> True | _ \<Rightarrow> False)"

text \<open>The error of the first text that has a NUL in it.\<close>

fun first_nul :: "str list \<Rightarrow> str option" where
  "first_nul [] = None"
| "first_nul (s # ss) = (case cstring s of Inl e \<Rightarrow> Some e | Inr _ \<Rightarrow> first_nul ss)"

definition call_outcome :: "'c clib \<Rightarrow> ccall \<Rightarrow> 'c client \<Rightarrow> 'c client \<times> (str + str option)" where
  "call_outcome lib call cl =
     (let (cl', res) = c_call lib call cl
      in (cl', if sint (c_rc res) < 0 then Inl (failed (call_name call) (c_rc res))
               else Inr (if gives_id call then Some (cstr_from_buf (c_out res)) else None)))"

text \<open>A computation that is only reached if no text has a NUL in it.\<close>

definition guarded :: "'s \<Rightarrow> str list \<Rightarrow> 's \<times> (str + 'a) \<Rightarrow> 's \<times> (str + 'a)" where
  "guarded s ts r = (case first_nul ts of Some e \<Rightarrow> (s, Inl e) | None \<Rightarrow> r)"

definition method_spec :: "'c clib \<Rightarrow> ccall \<Rightarrow> 'c client \<Rightarrow> 'c client \<times> (str + str option)" where
  "method_spec lib call cl = guarded cl (call_texts call) (call_outcome lib call cl)"

lemma cstring_Inr: "cstring s = Inr t \<Longrightarrow> t = s"
  by (simp add: cstring_def split: if_splits)

lemma first_nul_append: "first_nul (xs @ ys) = (case first_nul xs of Some e \<Rightarrow> Some e | None \<Rightarrow> first_nul ys)"
  by (induction xs) (auto split: sum.splits)

lemma guarded_guarded [simp]: "guarded s xs (guarded s ys r) = guarded s (xs @ ys) r"
  by (simp add: guarded_def first_nul_append split: option.split)

lemma guarded_Nil [simp]: "guarded s [] r = r"
  by (simp add: guarded_def)

lemma attempt_cstring: "attempt cl (cstring s) f = guarded cl [s] (f s)"
  using cstring_Inr by (cases "cstring s") (auto simp: guarded_def)

lemma attempt_opt_cstring: "attempt cl (opt_cstring s) f = guarded cl (of_opt s) (f s)"
  using cstring_Inr by (cases s; cases "cstring (the s)") (auto simp: opt_cstring_def of_opt_def guarded_def)

lemma checked_outcome: "\<not> gives_id call \<Longrightarrow> call_name call = name \<Longrightarrow>
    plain_result (checked lib name call cl) = call_outcome lib call cl"
  by (simp add: plain_result_def checked_def call_outcome_def split_beta Let_def)

lemma checked_id_outcome: "gives_id call \<Longrightarrow> call_name call = name \<Longrightarrow>
    id_result (checked_id lib name call cl) = call_outcome lib call cl"
  by (simp add: id_result_def checked_id_def call_outcome_def split_beta Let_def)

lemma result_guarded [simp]:
  "plain_result (guarded cl ts r) = guarded cl ts (plain_result r)"
  "id_result (guarded cl ts r') = guarded cl ts (id_result r')"
  by (simp_all add: plain_result_def id_result_def guarded_def split: option.split)

lemmas method_defs = load_account_def
  remove_account_def
  get_id_def
  set_nick_def
  apply_dht_preset_def
  send_trust_request_def
  accept_trust_request_def
  discard_trust_request_def
  remove_contact_def
  block_peer_def
  unblock_peer_def
  send_message_def
  create_conversation_def
  get_saved_conversation_def
  send_conversation_message_def
  load_conversation_messages_def
  clear_conversation_cache_def
  accept_conversation_request_def
  decline_conversation_request_def
  invite_to_conversation_def
  remove_conversation_def
  send_reaction_def
  subscribe_presence_def
  send_file_def
  accept_file_def
  cancel_file_def
  create_linking_account_def
  authorize_device_def
  revoke_device_def
  export_account_def
  create_account_def

lemma method_is_spec: "client_method lib call cl = Some r \<Longrightarrow> r = method_spec lib call cl"
  by (cases call)
    (auto simp: method_defs attempt_cstring attempt_opt_cstring method_spec_def
      checked_outcome checked_id_outcome gives_id_def)

lemma c_call_queue:
  "cl_queue (fst (c_call lib call cl)) =
    cl_queue cl @ map (\<lambda>ev. render_record (event_record ev)) (c_events (snd (lib (cl_lib cl) call)))"
proof -
  have "fold (\<lambda>ev q. event_callback (Some ev) False q) evs q = q @ map (\<lambda>ev. render_record (event_record ev)) evs" for evs q
    by (induction evs arbitrary: q) (simp_all add: event_callback_def event_to_turtle_render)
  then show ?thesis by (simp add: c_call_def split_beta Let_def)
qed

lemma c_call_frame [simp]:
  "cl_pending_export (fst (c_call lib call cl)) = cl_pending_export cl"
  "cl_iterate_thread (fst (c_call lib call cl)) = cl_iterate_thread cl"
  "cl_lib (fst (c_call lib call cl)) = fst (lib (cl_lib cl) call)"
  "snd (c_call lib call cl) = snd (lib (cl_lib cl) call)"
  by (simp_all add: c_call_def split_beta Let_def)

lemma first_nul_None: "first_nul ts = None \<longleftrightarrow> (\<forall>t \<in> set ts. nul \<notin> set t)"
  by (induction ts) (auto simp: cstring_def)

definition nonempty :: "str option \<Rightarrow> str option" where
  "nonempty s = opt_filter (\<lambda>v. v \<noteq> []) s"

lemma config_cstring_attempt:
  "attempt cl (config_cstring s) f = guarded cl (of_opt (nonempty s)) (f (nonempty s))"
  by (simp add: config_cstring_def attempt_opt_cstring nonempty_def)

text \<open>The call \<open>set_account_config\<close> makes, and that it is a method like the others.\<close>

definition config_call :: "str \<Rightarrow> net_config \<Rightarrow> ccall" where
  "config_call acc cfg =
     C_set_account_config acc (case nc_proxy_enabled cfg of None \<Rightarrow> - 1 | Some b \<Rightarrow> if b then 1 else 0)
       (nonempty (nc_dht_proxy_list_url cfg)) (nonempty (nc_proxy_server cfg)) (nonempty (nc_bootstrap cfg))
       (nonempty (nc_turn_server cfg)) (nonempty (nc_turn_username cfg)) (nonempty (nc_turn_password cfg))"

lemma set_account_config_guarded:
  "set_account_config lib acc cfg cl =
     guarded cl (call_texts (config_call acc cfg)) (checked lib ''carrier_set_account_config'' (config_call acc cfg) cl)"
proof -
  have "proxy_flag b = (case b of None \<Rightarrow> - 1 | Some b \<Rightarrow> if b then 1 else 0)" for b
    by (simp add: proxy_flag_def split: option.split bool.split)
  then show ?thesis
    by (simp add: set_account_config_def attempt_cstring config_cstring_attempt config_call_def)
qed

lemma set_account_config_spec:
  "plain_result (set_account_config lib acc cfg cl) = method_spec lib (config_call acc cfg) cl"
  by (simp add: set_account_config_guarded method_spec_def checked_outcome config_call_def gives_id_def)

lemmas method_specs = client_method.simps(1-31) [THEN method_is_spec] set_account_config_spec

section \<open>Properties\<close>

text \<open>
  C18: each of the 31 methods that passes texts to libcarrier either finds a NUL in one of them, and
  then leaves the library alone and returns an error, or makes exactly the one call of its name
  with its own arguments; a negative code is the only other error, and the events the library
  reports meanwhile are queued in their order.
\<close>

theorem method_makes_one_checked_call:
  assumes "client_method lib call cl = Some (cl', r)"
  shows "(case first_nul (call_texts call) of
      Some e \<Rightarrow> cl' = cl \<and> r = Inl e
    | None \<Rightarrow>
        cl_lib cl' = fst (lib (cl_lib cl) call) \<and>
        cl_queue cl' = cl_queue cl @ map (\<lambda>ev. render_record (event_record ev)) (c_events (snd (lib (cl_lib cl) call))) \<and>
        r = (let res = snd (lib (cl_lib cl) call)
             in if sint (c_rc res) < 0 then Inl (failed (call_name call) (c_rc res))
                else Inr (if gives_id call then Some (cstr_from_buf (c_out res)) else None)))"
  using method_is_spec [OF assms] c_call_queue [of lib call cl]
  by (cases "first_nul (call_texts call)")
    (simp_all add: method_spec_def guarded_def call_outcome_def split_beta Let_def)

text \<open>A library that counts its calls and refuses the second one.\<close>

theorem method_makes_one_checked_call_witness:
  "\<exists>cl' r. client_method (\<lambda>n call. (n + 1, \<lparr>c_rc = (if n = 0 then 0 else - 2), c_out = [], c_events = []\<rparr>))
      (C_send_message ''a'' ''b'' ''hi'') \<lparr>cl_lib = 1 :: nat, cl_queue = [], cl_iterate_thread = None, cl_pending_export = None\<rparr>
    = Some (cl', r) \<and> cl_lib cl' = 2 \<and> r = Inl ''carrier_send_message failed: -2''"
proof -
  let ?lib = "\<lambda>n call. (n + 1, \<lparr>c_rc = (if n = 0 then 0 else - 2), c_out = [], c_events = []\<rparr>)"
  let ?cl = "\<lparr>cl_lib = 1 :: nat, cl_queue = [], cl_iterate_thread = None, cl_pending_export = None\<rparr>"
  let ?call = "C_send_message ''a'' ''b'' ''hi''"
  obtain cl' r where m: "client_method ?lib ?call ?cl = Some (cl', r)"
    by (cases "send_message ?lib ''a'' ''b'' ''hi'' ?cl") (simp add: plain_result_def)
  have "first_nul (call_texts ?call) = None"
    by (simp add: first_nul_None nul_def del: first_nul.simps)
  moreover have "failed (call_name ?call) (- 2) = ''carrier_send_message failed: -2''"
    by (simp add: failed_def int_to_dec_def nat_to_dec.simps digit_char_def char_of_def bit_0)
  ultimately show ?thesis using method_makes_one_checked_call [OF m] m by auto
qed

text \<open>
  In \<open>set_account_config\<close> an absent or empty field reaches the library as a null pointer, every
  other field as it is, and an absent proxy switch as the code for unchanged; a NUL in a field that
  is passed prevents the call.
\<close>

theorem set_account_config_fields:
  "set_account_config lib acc cfg cl =
    (case first_nul (acc # concat (map (of_opt \<circ> nonempty) [nc_dht_proxy_list_url cfg, nc_proxy_server cfg,
        nc_bootstrap cfg, nc_turn_server cfg, nc_turn_username cfg, nc_turn_password cfg])) of
       Some e \<Rightarrow> (cl, Inl e)
     | None \<Rightarrow> checked lib ''carrier_set_account_config''
        (C_set_account_config acc
          (case nc_proxy_enabled cfg of None \<Rightarrow> - 1 | Some b \<Rightarrow> if b then 1 else 0)
          (nonempty (nc_dht_proxy_list_url cfg)) (nonempty (nc_proxy_server cfg)) (nonempty (nc_bootstrap cfg))
          (nonempty (nc_turn_server cfg)) (nonempty (nc_turn_username cfg)) (nonempty (nc_turn_password cfg))) cl)"
  unfolding set_account_config_guarded guarded_def config_call_def by (simp del: first_nul.simps)

end
