(* ===== verification/Rdf_Store.thy ===== *)
theory Rdf_Store
  imports Turtle_Text
begin

text \<open>
  The wrapper of the triple store, \<^verbatim>\<open>src/store.rs\<close>.  Oxigraph is not part of the
  repository: its operations on a store of type \<open>'s\<close> are the fields of a record that every
  definition takes.  A query answers with the rows of a snapshot, each of which may be an error; an
  update or a load gives the new store or an error.
\<close>

section \<open>The interface of the store\<close>

datatype rdf_term = Named_node str | Blank_node str | Literal_term str

text \<open>A row binds variables in the order of the selection, a triple has three terms.\<close>

type_synonym solution = "(str \<times> rdf_term) list"
type_synonym triple = "rdf_term \<times> rdf_term \<times> rdf_term"

datatype query_results =
    Solutions "(str + solution) list"
  | Boolean bool
  | Graph "(str + triple) list"

text \<open>
  \<open>ox_show\<close> prints a term the way Oxigraph does, \<open>ox_load\<close> parses a Turtle document into the
  default graph or a named one, \<open>ox_iri\<close> checks the text of an IRI.
\<close>

record 's oxigraph =
  ox_open :: "str option \<Rightarrow> str + 's"
  ox_iri :: "str \<Rightarrow> str + unit"
  ox_load :: "'s \<Rightarrow> str \<Rightarrow> str option \<Rightarrow> 's \<times> (str + unit)"
  ox_clear :: "'s \<Rightarrow> str \<Rightarrow> 's \<times> (str + unit)"
  ox_query :: "'s \<Rightarrow> str \<Rightarrow> str + query_results"
  ox_update :: "'s \<Rightarrow> str \<Rightarrow> 's \<times> (str + unit)"
  ox_show :: "rdf_term \<Rightarrow> str"

section \<open>The operations of \<open>RdfStore\<close>\<close>

definition store_open :: "'s oxigraph \<Rightarrow> str option \<Rightarrow> str + 's" where
  "store_open ox path = ox_open ox path"

definition insert_doc :: "str \<Rightarrow> str" where
  "insert_doc turtle = turtle_prefixes @ turtle @ [newline]"

definition insert_turtle :: "'s oxigraph \<Rightarrow> 's \<Rightarrow> str \<Rightarrow> 's \<times> (str + unit)" where
  "insert_turtle ox s turtle = ox_load ox s (insert_doc turtle) None"

definition insert_turtle_to_graph :: "'s oxigraph \<Rightarrow> 's \<Rightarrow> str \<Rightarrow> str \<Rightarrow> 's \<times> (str + unit)" where
  "insert_turtle_to_graph ox s turtle graph =
     (case ox_iri ox graph of
        Inl e \<Rightarrow> (s, Inl e)
      | Inr _ \<Rightarrow> ox_load ox s (insert_doc turtle) (Some graph))"

definition clear_graph :: "'s oxigraph \<Rightarrow> 's \<Rightarrow> str \<Rightarrow> 's \<times> (str + unit)" where
  "clear_graph ox s graph =
     (case ox_iri ox graph of Inl e \<Rightarrow> (s, Inl e) | Inr _ \<Rightarrow> ox_clear ox s graph)"

definition store_query :: "'s oxigraph \<Rightarrow> 's \<Rightarrow> str \<Rightarrow> str + query_results" where
  "store_query ox s sparql = ox_query ox s sparql"

definition store_ask :: "'s oxigraph \<Rightarrow> 's \<Rightarrow> str \<Rightarrow> str + bool" where
  "store_ask ox s sparql =
     (case store_query ox s sparql of
        Inl e \<Rightarrow> Inl e
      | Inr (Boolean b) \<Rightarrow> Inr b
      | Inr _ \<Rightarrow> Inr False)"

definition store_update :: "'s oxigraph \<Rightarrow> 's \<Rightarrow> str \<Rightarrow> 's \<times> (str + unit)" where
  "store_update ox s sparql = ox_update ox s sparql"

text \<open>The rows that are not errors: \<open>flatten\<close> and \<open>filter_map(ok)\<close> drop the others.\<close>

definition good :: "('e + 'a) list \<Rightarrow> 'a list" where
  "good rs = concat (map (\<lambda>r. case r of Inl _ \<Rightarrow> [] | Inr a \<Rightarrow> [a]) rs)"

text \<open>\<open>for row in rows { let row = row?; ... }\<close>: the first error ends the loop.\<close>

fun all_rows :: "('e + 'a) list \<Rightarrow> 'e + 'a list" where
  "all_rows [] = Inr []"
| "all_rows (Inl e # rs) = Inl e"
| "all_rows (Inr a # rs) = and_then (all_rows rs) (\<lambda>as. Inr (a # as))"

lemma all_rows_Inr: "all_rows rs = Inr as \<longleftrightarrow> rs = map Inr as"
proof (induction rs arbitrary: as rule: all_rows.induct)
  case (3 a rs)
  then show ?case by (cases as) (auto simp: and_then_Inr_iff)
qed auto

lemma good_map_Inr [simp]: "good (map Inr as) = as"
  by (induction as) (simp_all add: good_def)

definition solution_get :: "solution \<Rightarrow> str \<Rightarrow> rdf_term option" where
  "solution_get sol v = map_of sol v"

text \<open>
  \<open>dag::term_to_string\<close> and \<open>dag::optional_term\<close>; Oxigraph's fourth kind of term, a quoted triple,
  is not in use.
\<close>

fun term_text :: "rdf_term \<Rightarrow> str" where
  "term_text (Literal_term v) = v"
| "term_text (Named_node i) = i"
| "term_text (Blank_node b) = b"

definition term_to_string :: "rdf_term option \<Rightarrow> str" where
  "term_to_string t = (case t of Some x \<Rightarrow> term_text x | None \<Rightarrow> [])"

definition optional_term :: "rdf_term option \<Rightarrow> str option" where
  "optional_term t = map_option term_text t"

end
