(* ===== verification/Dag.thy ===== *)
theory Dag
  imports Rdf_Store Channel
begin

text \<open>
  The script graph of \<^verbatim>\<open>src/dag.rs\<close>: how it is read from the store and wired, how messages
  are broadcast to its inboxes, how the emits and the queries of its threads are pumped, and what
  one round of a node thread does.  The rings live in one list, a writer or
  reader handle is an index into it.  The threads run beside the pump: a state holds what they have
  emitted and asked so far, and \<open>dg_readers\<close> is what they do to a ring while a send waits.
\<close>

section \<open>Definitions found in the store\<close>

record node_def =
  nd_uri :: str
  nd_body :: str
  nd_language :: str
  nd_ins :: "str list"
  nd_outs :: "str list"
  nd_where :: "str option"

record router_def =
  rd_uri :: str
  rd_in_a :: str
  rd_in_b :: str
  rd_outs :: "str list"
  rd_backend_type :: str
  rd_endpoint :: str
  rd_model :: str
  rd_system_prompt :: str
  rd_max_tokens :: nat

text \<open>\<open>if let Some(ch) = c { if !list.contains(&ch) { list.push(ch) } }\<close>\<close>

definition push_new :: "str option \<Rightarrow> str list \<Rightarrow> str list" where
  "push_new c xs = (case c of None \<Rightarrow> xs | Some ch \<Rightarrow> if ch \<in> set xs then xs else xs @ [ch])"

text \<open>
  A row of the node query, folded into the map from URI to definition: the first row of a URI
  creates its entry, every row adds its channels.  The map is a list of definitions in the order
  of their creation; the order in which a hash map gives up its values is a parameter.
\<close>

fun upsert :: "('d \<Rightarrow> bool) \<Rightarrow> 'd \<Rightarrow> ('d \<Rightarrow> 'd) \<Rightarrow> 'd list \<Rightarrow> 'd list" where
  "upsert key new f [] = [f new]"
| "upsert key new f (d # ds) = (if key d then f d # ds else d # upsert key new f ds)"

definition node_row :: "solution \<Rightarrow> node_def list \<Rightarrow> node_def list" where
  "node_row sol nodes =
     (let uri = term_to_string (solution_get sol ''node'');
          new = \<lparr>nd_uri = uri, nd_body = term_to_string (solution_get sol ''body''),
                 nd_language = unwrap_or (optional_term (solution_get sol ''language'')) ''javascript'',
                 nd_ins = [], nd_outs = [],
                 nd_where = optional_term (solution_get sol ''where'')\<rparr>
      in upsert (\<lambda>d. nd_uri d = uri) new
           (\<lambda>d. d\<lparr>nd_ins := push_new (optional_term (solution_get sol ''in'')) (nd_ins d),
                  nd_outs := push_new (optional_term (solution_get sol ''out'')) (nd_outs d)\<rparr>) nodes)"

definition trusted_pipeline_graph :: str where
  "trusted_pipeline_graph = ''urn:resonator:trusted-pipeline''"

definition script_nodes_pattern :: str where
  "script_nodes_pattern =
     ''        ?node a antenna:ScriptNode ;'' @ newline #
     ''              antenna:scriptSource ?src .'' @ newline #
     ''        ?src antenna:body ?body .'' @ newline #
     ''        OPTIONAL { ?src antenna:language ?language }'' @ newline #
     ''        OPTIONAL { ?node antenna:in ?in }'' @ newline #
     ''        OPTIONAL { ?node antenna:out ?out }'' @ newline #
     ''        OPTIONAL { ?node antenna:where ?where }''"

text \<open>
  The query, which a build without the feature \<open>peer-scripting\<close> restricts to the trusted graph.
\<close>

definition script_nodes_query :: "bool \<Rightarrow> str" where
  "script_nodes_query peer_scripting =
     ''PREFIX antenna: <'' @ antenna_ns @ ''>'' @ newline #
     ''SELECT ?node ?body ?language ?in ?out ?where WHERE {'' @ newline #
     (if peer_scripting then script_nodes_pattern @ newline # ''}''
      else ''GRAPH <'' @ trusted_pipeline_graph @ ''> {'' @ newline # script_nodes_pattern @ newline # ''}'' @
        newline # ''}'')"

definition query_script_nodes ::
  "'s oxigraph \<Rightarrow> bool \<Rightarrow> (node_def list \<Rightarrow> node_def list) \<Rightarrow> 's \<Rightarrow> str + node_def list" where
  "query_script_nodes ox peer_scripting order s =
     and_then (store_query ox s (script_nodes_query peer_scripting)) (\<lambda>results.
       case results of
         Solutions sols \<Rightarrow> and_then (all_rows sols) (\<lambda>rows. Inr (order (fold node_row rows [])))
       | _ \<Rightarrow> Inr (order []))"

definition router_row :: "solution \<Rightarrow> router_def list \<Rightarrow> router_def list" where
  "router_row sol routers =
     (let uri = term_to_string (solution_get sol ''node'');
          new = \<lparr>rd_uri = uri, rd_in_a = term_to_string (solution_get sol ''inA''),
                 rd_in_b = term_to_string (solution_get sol ''inB''), rd_outs = [],
                 rd_backend_type = term_to_string (solution_get sol ''backendType''),
                 rd_endpoint = unwrap_or (optional_term (solution_get sol ''endpoint'')) [],
                 rd_model = unwrap_or (optional_term (solution_get sol ''model'')) ''default'',
                 rd_system_prompt = unwrap_or (optional_term (solution_get sol ''systemPrompt'')) [],
                 rd_max_tokens = unwrap_or (Option.bind (optional_term (solution_get sol ''maxTokens''))
                    (parse_uint 10 (2 ^ 32 - 1))) 512\<rparr>
      in upsert (\<lambda>d. rd_uri d = uri) new
           (\<lambda>d. d\<lparr>rd_outs := push_new (optional_term (solution_get sol ''out'')) (rd_outs d)\<rparr>) routers)"

definition semantic_routers_query :: str where
  "semantic_routers_query = newline #
     ''        PREFIX antenna: <http://resonator.network/v2/antenna#>'' @ newline #
     ''        SELECT ?node ?inA ?inB ?out ?backendType ?endpoint ?model ?systemPrompt ?maxTokens WHERE {'' @ newline #
     ''            ?node a antenna:SemanticRouter ;'' @ newline #
     ''                  antenna:inA ?inA ;'' @ newline #
     ''                  antenna:inB ?inB ;'' @ newline #
     ''                  antenna:llmBackend ?backend .'' @ newline #
     ''            ?backend antenna:backendType ?backendType .'' @ newline #
     ''            OPTIONAL { ?backend antenna:endpoint ?endpoint }'' @ newline #
     ''            OPTIONAL { ?backend antenna:model ?model }'' @ newline #
     ''            OPTIONAL { ?node antenna:out ?out }'' @ newline #
     ''            OPTIONAL { ?node antenna:systemPrompt ?systemPrompt }'' @ newline #
     ''            OPTIONAL { ?node antenna:maxTokens ?maxTokens }'' @ newline #
     ''        }'' @ newline # ''    ''"

definition query_semantic_routers ::
  "'s oxigraph \<Rightarrow> (router_def list \<Rightarrow> router_def list) \<Rightarrow> 's \<Rightarrow> str + router_def list" where
  "query_semantic_routers ox order s =
     and_then (store_query ox s semantic_routers_query) (\<lambda>results.
       case results of
         Solutions sols \<Rightarrow> and_then (all_rows sols) (\<lambda>rows. Inr (order (fold router_row rows [])))
       | _ \<Rightarrow> Inr (order []))"

definition short_uri :: "str \<Rightarrow> str" where
  "short_uri uri =
     unwrap_or (map_option snd
       (or_else (or_else (rsplit_once (CHR ''#'') uri) (rsplit_once (CHR ''/'') uri)) (rsplit_once (CHR '':'') uri))) uri"

section \<open>The running graph\<close>

definition default_channel_capacity :: nat where "default_channel_capacity = 65536"

text \<open>
  What a thread of the graph was given: its readers (ring and channel URI) and its program; a router
  also the platform channels, the ring its requests are written to and the ring its answers are read
  from, when its backend is the platform.
\<close>

datatype dag_thread =
    Node_thread str str "(nat \<times> str) list"
  | Router_thread str nat nat "(nat \<times> nat) option" router_def

record emit_route =
  er_rx :: "str list"
  er_outs :: "str list"

type_synonym row_values = "(str \<times> str) list"

record dag =
  dg_rings :: "channel list"
  dg_writers :: "str \<rightharpoonup> nat list"
  dg_routes :: "emit_route list"
  dg_threads :: "(str \<times> dag_thread) list"
  dg_finished :: "bool list"
  dg_reported :: "str list"
  dg_queries :: "(str \<times> nat) list"
  dg_answers :: "(nat \<times> row_values list) list"
  dg_readers :: "nat \<Rightarrow> nat \<Rightarrow> ring \<Rightarrow> ring"
  dg_syscalls :: "syscall list"

definition empty_dag :: dag where
  "empty_dag = \<lparr>dg_rings = [], dg_writers = Map.empty, dg_routes = [], dg_threads = [], dg_finished = [],
     dg_reported = [], dg_queries = [], dg_answers = [], dg_readers = (\<lambda>_. idle), dg_syscalls = []\<rparr>"

text \<open>
  \<open>InternalChannel::new\<close> for the next ring, whose clock (or the failure to make one) comes from
  \<open>clocks\<close>, and \<open>broadcast_map.entry(uri).or_default().push(writer)\<close>.
\<close>

definition io_error :: str where "io_error = ''cannot create a clock''"

definition new_ring :: "(nat \<Rightarrow> clock option) \<Rightarrow> dag \<Rightarrow> str + dag \<times> nat" where
  "new_ring clocks d =
     (let n = length (dg_rings d)
      in case channel_new default_channel_capacity (clocks n) of
           None \<Rightarrow> Inl io_error
         | Some c \<Rightarrow> Inr (d\<lparr>dg_rings := dg_rings d @ [c]\<rparr>, n))"

definition subscribe :: "str \<Rightarrow> nat \<Rightarrow> dag \<Rightarrow> dag" where
  "subscribe uri n d = d\<lparr>dg_writers := (dg_writers d)(uri \<mapsto> unwrap_or (dg_writers d uri) [] @ [n])\<rparr>"

text \<open>Phase 1: the inboxes of one node, in the order of its channels.\<close>

fun add_inboxes :: "(nat \<Rightarrow> clock option) \<Rightarrow> str list \<Rightarrow> dag \<Rightarrow> str + dag \<times> (nat \<times> str) list" where
  "add_inboxes clocks [] d = Inr (d, [])"
| "add_inboxes clocks (uri # uris) d =
     and_then (new_ring clocks d) (\<lambda>(d1, n).
     and_then (add_inboxes clocks uris (subscribe uri n d1)) (\<lambda>(d2, boxes).
       Inr (d2, (n, uri) # boxes)))"

fun add_nodes :: "(nat \<Rightarrow> clock option) \<Rightarrow> node_def list \<Rightarrow> dag \<Rightarrow> str + dag \<times> (node_def \<times> (nat \<times> str) list) list" where
  "add_nodes clocks [] d = Inr (d, [])"
| "add_nodes clocks (nd # nds) d =
     and_then (add_inboxes clocks (nd_ins nd) d) (\<lambda>(d1, boxes).
     and_then (add_nodes clocks nds d1) (\<lambda>(d2, pending).
       Inr (d2, (nd, boxes) # pending)))"

text \<open>Phase 2: a thread and an emit route for each node; the system may refuse a thread.\<close>

definition spawn :: "(nat \<Rightarrow> bool) \<Rightarrow> str \<Rightarrow> dag_thread \<Rightarrow> str list \<Rightarrow> dag \<Rightarrow> str + dag" where
  "spawn spawns name t outs d =
     (if spawns (length (dg_threads d))
      then Inr (d\<lparr>dg_threads := dg_threads d @ [(name, t)],
                  dg_finished := dg_finished d @ [False],
                  dg_routes := dg_routes d @ [\<lparr>er_rx = [], er_outs = outs\<rparr>]\<rparr>)
      else Inl ''cannot spawn a thread'')"

fun spawn_nodes :: "(nat \<Rightarrow> bool) \<Rightarrow> (node_def \<times> (nat \<times> str) list) list \<Rightarrow> dag \<Rightarrow> str + dag" where
  "spawn_nodes spawns [] d = Inr d"
| "spawn_nodes spawns ((nd, boxes) # pending) d =
     and_then (spawn spawns (''node:'' @ short_uri (nd_uri nd)) (Node_thread (nd_uri nd) (nd_body nd) boxes)
         (nd_outs nd) d)
       (spawn_nodes spawns pending)"

text \<open>
  Phase 3: the platform channels \<open>plat\<close>, then two inboxes, a backend and a thread for each router.
  \<open>backend\<close> is whether \<open>create_backend\<close> succeeds.
\<close>

definition platform_channels :: "nat \<times> nat \<Rightarrow> router_def \<Rightarrow> (nat \<times> nat) option" where
  "platform_channels plat rd = (if rd_backend_type rd = ''platform'' then Some plat else None)"

fun add_routers :: "(nat \<Rightarrow> clock option) \<Rightarrow> (nat \<Rightarrow> bool) \<Rightarrow> (router_def \<Rightarrow> str + unit) \<Rightarrow> nat \<times> nat \<Rightarrow>
    router_def list \<Rightarrow> dag \<Rightarrow> str + dag" where
  "add_routers clocks spawns backend plat [] d = Inr d"
| "add_routers clocks spawns backend plat (rd # rds) d =
     and_then (new_ring clocks d) (\<lambda>(d1, a).
     and_then (new_ring clocks d1) (\<lambda>(d2, b).
     and_then (backend rd) (\<lambda>_.
     and_then (spawn spawns (''router:'' @ short_uri (rd_uri rd))
         (Router_thread (rd_uri rd) a b (platform_channels plat rd) rd) (rd_outs rd)
         (subscribe (rd_in_b rd) b (subscribe (rd_in_a rd) a d2)))
       (add_routers clocks spawns backend plat rds))))"

definition add_platform :: "(nat \<Rightarrow> clock option) \<Rightarrow> dag \<Rightarrow> str + dag \<times> (nat \<times> nat)" where
  "add_platform clocks d =
     and_then (new_ring clocks d) (\<lambda>(d1, req).
     and_then (new_ring clocks d1) (\<lambda>(d2, resp).
       Inr (subscribe (antenna_ns @ ''llmRequest'') req d2, (req, resp))))"

definition build_dag :: "(nat \<Rightarrow> clock option) \<Rightarrow> (nat \<Rightarrow> bool) \<Rightarrow> (router_def \<Rightarrow> str + unit) \<Rightarrow>
    node_def list \<Rightarrow> router_def list \<Rightarrow> str + dag" where
  "build_dag clocks spawns backend nodes routers =
     (if nodes = [] \<and> routers = [] then Inr empty_dag
      else and_then (add_nodes clocks nodes empty_dag) (\<lambda>(d1, pending).
           and_then (spawn_nodes spawns pending d1) (\<lambda>d2.
           and_then (add_platform clocks d2) (\<lambda>(d3, plat).
             add_routers clocks spawns backend plat routers d3))))"

definition dag_load :: "'s oxigraph \<Rightarrow> bool \<Rightarrow> (node_def list \<Rightarrow> node_def list) \<Rightarrow> (router_def list \<Rightarrow> router_def list)
    \<Rightarrow> (nat \<Rightarrow> clock option) \<Rightarrow> (nat \<Rightarrow> bool) \<Rightarrow> (router_def \<Rightarrow> str + unit) \<Rightarrow> 's \<Rightarrow> str + dag" where
  "dag_load ox peer_scripting order order' clocks spawns backend s =
     and_then (query_script_nodes ox peer_scripting order s) (\<lambda>nodes.
     and_then (query_semantic_routers ox order' s) (\<lambda>routers.
       build_dag clocks spawns backend nodes routers))"

section \<open>Broadcasting\<close>

definition send_to :: "str \<Rightarrow> nat \<Rightarrow> dag \<Rightarrow> dag" where
  "send_to turtle w d =
     (let (c, sent, sleeps, sys) = channel_send (dg_readers d w) (dg_rings d ! w) turtle
      in d\<lparr>dg_rings := (dg_rings d)[w := c], dg_syscalls := dg_syscalls d @ sys\<rparr>)"

definition broadcast :: "str \<Rightarrow> str \<Rightarrow> dag \<Rightarrow> dag" where
  "broadcast uri turtle d =
     (case dg_writers d uri of None \<Rightarrow> d | Some ws \<Rightarrow> fold (send_to turtle) ws d)"

definition before_insert :: "str \<Rightarrow> dag \<Rightarrow> dag" where
  "before_insert turtle d = broadcast (antenna_ns @ ''beforeInsert'') turtle d"

definition after_insert :: "str \<Rightarrow> dag \<Rightarrow> dag" where
  "after_insert turtle d = broadcast (antenna_ns @ ''afterInsert'') turtle d"

section \<open>Pumping\<close>

text \<open>One route: every pending emit goes to every out channel of the node, in order.\<close>

definition pump_route :: "emit_route \<Rightarrow> dag \<Rightarrow> dag" where
  "pump_route r d = fold (\<lambda>turtle d. fold (\<lambda>uri d. broadcast uri turtle d) (er_outs r) d) (er_rx r) d"

definition pump_emits :: "dag \<Rightarrow> dag \<times> str list" where
  "pump_emits d =
     (let d' = fold pump_route (dg_routes d) d
      in (d'\<lparr>dg_routes := map (\<lambda>r. r\<lparr>er_rx := []\<rparr>) (dg_routes d')\<rparr>, concat (map er_rx (dg_routes d))))"

text \<open>A query of a script: literals and IRIs as plain text, other terms as printed.\<close>

definition script_value :: "'s oxigraph \<Rightarrow> rdf_term \<Rightarrow> str" where
  "script_value ox t = (case t of Literal_term v \<Rightarrow> v | Named_node i \<Rightarrow> i | _ \<Rightarrow> ox_show ox t)"

definition query_rows :: "'s oxigraph \<Rightarrow> 's \<Rightarrow> str \<Rightarrow> row_values list" where
  "query_rows ox s sparql =
     (case store_query ox s sparql of
        Inl e \<Rightarrow> []
      | Inr (Solutions sols) \<Rightarrow> map (map (\<lambda>(var, term). (var, script_value ox term))) (good sols)
      | Inr _ \<Rightarrow> [])"

definition pump_queries :: "'s oxigraph \<Rightarrow> 's \<Rightarrow> dag \<Rightarrow> dag" where
  "pump_queries ox s d =
     d\<lparr>dg_queries := [],
       dg_answers := dg_answers d @ map (\<lambda>(sparql, tx). (tx, query_rows ox s sparql)) (dg_queries d)\<rparr>"

text \<open>The threads that ended since they were last looked at, each name once.\<close>

fun newly_dead :: "(str \<times> bool) list \<Rightarrow> str list \<Rightarrow> str list \<times> str list" where
  "newly_dead [] reported = (reported, [])"
| "newly_dead ((name, finished) # ts) reported =
     (if finished \<and> name \<notin> set reported
      then (let (reported', dead) = newly_dead ts (reported @ [name]) in (reported', name # dead))
      else newly_dead ts reported)"

definition health_check :: "dag \<Rightarrow> dag \<times> str list" where
  "health_check d =
     (let (reported, dead) = newly_dead (zip (map fst (dg_threads d)) (dg_finished d)) (dg_reported d)
      in (d\<lparr>dg_reported := reported\<rparr>, dead))"

section \<open>Definitions are unique and their channels distinct\<close>

lemma upsert_keys:
  assumes "\<And>d. g (f d) = g d" "\<And>d. key d \<longleftrightarrow> g d = g new"
  shows "map g (upsert key new f ds) = (if g new \<in> g ` set ds then map g ds else map g ds @ [g new])"
  by (induction ds) (use assms in auto)

lemma upsert_all: "P (f new) \<Longrightarrow> (\<And>d. P d \<Longrightarrow> P (f d)) \<Longrightarrow> \<forall>d \<in> set ds. P d \<Longrightarrow> \<forall>d \<in> set (upsert key new f ds). P d"
  by (induction ds) auto

lemma distinct_push_new: "distinct xs \<Longrightarrow> distinct (push_new c xs)"
  by (auto simp: push_new_def split: option.split)

definition good_node :: "node_def \<Rightarrow> bool" where
  "good_node d \<longleftrightarrow> distinct (nd_ins d) \<and> distinct (nd_outs d)"

lemma node_row_good:
  assumes "distinct (map nd_uri nodes)" "\<forall>d \<in> set nodes. good_node d"
  shows "distinct (map nd_uri (node_row sol nodes))" "\<forall>d \<in> set (node_row sol nodes). good_node d"
proof -
  define uri where "uri = term_to_string (solution_get sol ''node'')"
  define f where "f = (\<lambda>d :: node_def. d\<lparr>nd_ins := push_new (optional_term (solution_get sol ''in'')) (nd_ins d),
      nd_outs := push_new (optional_term (solution_get sol ''out'')) (nd_outs d)\<rparr>)"
  obtain new where row: "node_row sol nodes = upsert (\<lambda>d. nd_uri d = uri) new f nodes"
      and new: "nd_uri new = uri" "nd_ins new = []" "nd_outs new = []"
    by (simp add: node_row_def Let_def uri_def f_def)
  have "map nd_uri (node_row sol nodes)
      = (if uri \<in> nd_uri ` set nodes then map nd_uri nodes else map nd_uri nodes @ [uri])"
    unfolding row by (subst upsert_keys) (simp_all add: f_def new)
  then show "distinct (map nd_uri (node_row sol nodes))" using assms(1) by simp
  show "\<forall>d \<in> set (node_row sol nodes). good_node d"
    unfolding row using assms(2)
    by (intro upsert_all) (simp_all add: good_node_def f_def new distinct_push_new)
qed

lemma node_rows_good:
  "distinct (map nd_uri nodes) \<Longrightarrow> \<forall>d \<in> set nodes. good_node d \<Longrightarrow>
    distinct (map nd_uri (fold node_row rows nodes)) \<and> (\<forall>d \<in> set (fold node_row rows nodes). good_node d)"
proof (induction rows arbitrary: nodes)
  case (Cons sol rows)
  show ?case
    unfolding fold_simps by (rule Cons.IH [OF node_row_good [OF Cons.prems]])
qed simp

section \<open>Wiring\<close>

definition subscribers :: "dag \<Rightarrow> str \<Rightarrow> nat list" where
  "subscribers d uri = unwrap_or (dg_writers d uri) []"

text \<open>Every ring is written through at most one URI and at most once.\<close>

definition wired :: "dag \<Rightarrow> bool" where
  "wired d \<longleftrightarrow>
     (\<forall>uri. distinct (subscribers d uri) \<and> (\<forall>n \<in> set (subscribers d uri). n < length (dg_rings d))) \<and>
     (\<forall>uri uri' n. n \<in> set (subscribers d uri) \<longrightarrow> n \<in> set (subscribers d uri') \<longrightarrow> uri = uri')"

definition unwritten :: "dag \<Rightarrow> nat \<Rightarrow> bool" where
  "unwritten d n \<longleftrightarrow> (\<forall>uri. n \<notin> set (subscribers d uri))"

lemma subscribers_subscribe [simp]:
  "subscribers (subscribe uri n d) uri' = subscribers d uri' @ (if uri' = uri then [n] else [])"
  by (simp add: subscribers_def subscribe_def)

lemma subscribe_frame [simp]:
  "dg_rings (subscribe uri n d) = dg_rings d" "dg_threads (subscribe uri n d) = dg_threads d"
  "dg_routes (subscribe uri n d) = dg_routes d"
  by (simp_all add: subscribe_def)

lemma new_ring_step:
  assumes "new_ring clocks d = Inr (d', n)"
  shows "n = length (dg_rings d) \<and> length (dg_rings d') = Suc n \<and> subscribers d' = subscribers d \<and>
    dg_threads d' = dg_threads d \<and> dg_routes d' = dg_routes d"
  using assms by (auto simp: new_ring_def Let_def subscribers_def fun_eq_iff split: option.splits)

lemma wired_subscribe: "wired d \<Longrightarrow> unwritten d n \<Longrightarrow> n < length (dg_rings d) \<Longrightarrow> wired (subscribe uri n d)"
  unfolding wired_def unwritten_def by auto

lemma wired_new_ring:
  assumes "wired d" "new_ring clocks d = Inr (d', n)"
  shows "wired d' \<and> unwritten d' n"
proof -
  note st = new_ring_step [OF assms(2)]
  have "m < n" if "m \<in> set (subscribers d uri)" for m uri
    using assms(1) that st by (auto simp: wired_def)
  then show ?thesis using assms(1) st unfolding wired_def unwritten_def by (metis less_SucI less_irrefl)
qed

text \<open>
  What a step of the loading does: the rings grow, what was not written stays so below the old end,
  what is subscribed stays so, and the number of subscribers of each URI grows by the given count.
\<close>

definition grows :: "dag \<Rightarrow> dag \<Rightarrow> (str \<Rightarrow> nat) \<Rightarrow> bool" where
  "grows d d' k \<longleftrightarrow> (wired d \<longrightarrow> wired d') \<and> length (dg_rings d) \<le> length (dg_rings d') \<and>
     (\<forall>n < length (dg_rings d). unwritten d n \<longrightarrow> unwritten d' n) \<and>
     (\<forall>uri. set (subscribers d uri) \<subseteq> set (subscribers d' uri)) \<and>
     (\<forall>uri. length (subscribers d' uri) = length (subscribers d uri) + k uri)"

text \<open>The inboxes of a thread, each with the channel that it is for, and that all of them are subscribed to it.\<close>

fun thread_inboxes :: "dag_thread \<Rightarrow> (nat \<times> str) list" where
  "thread_inboxes (Node_thread uri body boxes) = boxes"
| "thread_inboxes (Router_thread uri a b plat rd) = [(a, rd_in_a rd), (b, rd_in_b rd)]"

definition fed :: "dag \<Rightarrow> (nat \<times> str) list \<Rightarrow> bool" where
  "fed d boxes \<longleftrightarrow> (\<forall>(n, uri) \<in> set boxes. n \<in> set (subscribers d uri))"

lemma fed_simps [simp]:
  "fed d []" "fed d ((n, uri) # boxes) \<longleftrightarrow> n \<in> set (subscribers d uri) \<and> fed d boxes"
  "fed d (boxes @ boxes') \<longleftrightarrow> fed d boxes \<and> fed d boxes'"
  by (auto simp: fed_def)

lemma fed_grows: "grows d d' k \<Longrightarrow> fed d boxes \<Longrightarrow> fed d' boxes"
  unfolding grows_def fed_def by blast

text \<open>The thread of a node and that of a router.\<close>

definition node_thread :: "node_def \<Rightarrow> str \<times> dag_thread \<Rightarrow> bool" where
  "node_thread nd t \<longleftrightarrow> (\<exists>boxes. map snd boxes = nd_ins nd \<and>
     t = (''node:'' @ short_uri (nd_uri nd), Node_thread (nd_uri nd) (nd_body nd) boxes))"

definition router_thread :: "nat \<times> nat \<Rightarrow> router_def \<Rightarrow> str \<times> dag_thread \<Rightarrow> bool" where
  "router_thread plat rd t \<longleftrightarrow> (\<exists>a b.
     t = (''router:'' @ short_uri (rd_uri rd), Router_thread (rd_uri rd) a b (platform_channels plat rd) rd))"

abbreviation inboxes_of :: "(str \<times> dag_thread) list \<Rightarrow> (nat \<times> str) list" where
  "inboxes_of ts \<equiv> concat (map (thread_inboxes \<circ> snd) ts)"

lemma grows_refl: "grows d d (\<lambda>_. 0)"
  by (simp add: grows_def)

lemma grows_trans: "grows d d1 k \<Longrightarrow> grows d1 d2 l \<Longrightarrow> grows d d2 (\<lambda>u. k u + l u)"
  unfolding grows_def by (intro conjI) (auto, blast+)

lemma grows_new_ring: "new_ring clocks d = Inr (d', n) \<Longrightarrow> grows d d' (\<lambda>_. 0)"
  using new_ring_step [of clocks d d' n] wired_new_ring [of d clocks d' n]
  by (auto simp: grows_def unwritten_def)

lemma grows_inbox:
  assumes "new_ring clocks d = Inr (d', n)"
  shows "grows d (subscribe uri n d') (\<lambda>u. if u = uri then 1 else 0)"
  using new_ring_step [OF assms] wired_new_ring [OF _ assms] wired_subscribe [of d' n uri]
  by (auto simp: grows_def unwritten_def)

lemma add_inboxes_grows:
  "add_inboxes clocks uris d = Inr (d', boxes) \<Longrightarrow>
    grows d d' (count_list uris) \<and> map snd boxes = uris \<and> map fst boxes = [length (dg_rings d)..<length (dg_rings d')] \<and>
    fed d' boxes \<and> dg_threads d' = dg_threads d \<and> dg_routes d' = dg_routes d"
proof (induction uris arbitrary: d boxes)
  case (Cons uri uris)
  obtain d1 n bs where r: "new_ring clocks d = Inr (d1, n)"
      "add_inboxes clocks uris (subscribe uri n d1) = Inr (d', bs)" "boxes = (n, uri) # bs"
    using Cons.prems by (auto simp: and_then_Inr_iff)
  have "(\<lambda>u. (if u = uri then 1 else 0) + count_list uris u) = count_list (uri # uris)"
    by auto
  then have "grows d d' (count_list (uri # uris))"
    using grows_trans [OF grows_inbox [OF r(1), of uri]] Cons.IH [OF r(2)] by metis
  moreover note IH = Cons.IH [OF r(2)] and n = new_ring_step [OF r(1)]
  moreover have "set (subscribers (subscribe uri n d1) uri) \<subseteq> set (subscribers d' uri)"
    using IH by (simp only: grows_def)
  then have "n \<in> set (subscribers d' uri)" by simp
  moreover have "length (dg_rings (subscribe uri n d1)) \<le> length (dg_rings d')"
    using IH by (simp only: grows_def)
  then have "length (dg_rings d) < length (dg_rings d')" using n by simp
  ultimately show ?case
    using r(3) by (simp del: count_list.simps add: upt_conv_Cons)
qed (simp add: grows_def)

definition node_subscriptions :: "node_def list \<Rightarrow> str \<Rightarrow> nat" where
  "node_subscriptions nodes uri = sum_list (map (\<lambda>nd. count_list (nd_ins nd) uri) nodes)"

definition router_subscriptions :: "router_def list \<Rightarrow> str \<Rightarrow> nat" where
  "router_subscriptions routers uri =
     sum_list (map (\<lambda>rd. (if uri = rd_in_a rd then 1 else 0) + (if uri = rd_in_b rd then 1 else 0)) routers)"

lemma upt_join: "a \<le> b \<Longrightarrow> b \<le> c \<Longrightarrow> [a..<b] @ [b..<c] = [a..<c]"
  by (metis le_iff_add upt_add_eq_append)

lemma add_nodes_grows:
  "add_nodes clocks nodes d = Inr (d', pending) \<Longrightarrow>
    grows d d' (node_subscriptions nodes) \<and> map fst pending = nodes \<and>
    map (map snd \<circ> snd) pending = map nd_ins nodes \<and>
    map fst (concat (map snd pending)) = [length (dg_rings d)..<length (dg_rings d')] \<and>
    fed d' (concat (map snd pending)) \<and> dg_threads d' = dg_threads d \<and> dg_routes d' = dg_routes d"
proof (induction nodes arbitrary: d pending)
  case Nil
  then show ?case by (simp add: grows_def node_subscriptions_def)
next
  case (Cons nd nodes)
  obtain d1 boxes p where r: "add_inboxes clocks (nd_ins nd) d = Inr (d1, boxes)"
      "add_nodes clocks nodes d1 = Inr (d', p)" "pending = (nd, boxes) # p"
    using Cons.prems by (auto simp: and_then_Inr_iff)
  note box = add_inboxes_grows [OF r(1)] and IH = Cons.IH [OF r(2)]
  have "(\<lambda>u. count_list (nd_ins nd) u + node_subscriptions nodes u) = node_subscriptions (nd # nodes)"
    by (simp add: node_subscriptions_def fun_eq_iff)
  then have "grows d d' (node_subscriptions (nd # nodes))"
    using grows_trans [of d d1 "count_list (nd_ins nd)" d' "node_subscriptions nodes"] box IH
    by simp
  moreover have g: "grows d d1 (count_list (nd_ins nd))" "grows d1 d' (node_subscriptions nodes)"
    using box IH by simp_all
  then have "fed d' boxes" using fed_grows box by blast
  moreover have "[length (dg_rings d)..<length (dg_rings d1)] @ [length (dg_rings d1)..<length (dg_rings d')]
      = [length (dg_rings d)..<length (dg_rings d')]"
    by (rule upt_join) (use g in \<open>simp_all add: grows_def\<close>)
  ultimately show ?case using box IH r(3) by simp
qed

lemma spawn_step:
  assumes "spawn spawns name t outs d = Inr d'"
  shows "subscribers d' = subscribers d \<and> dg_rings d' = dg_rings d \<and>
    dg_threads d' = dg_threads d @ [(name, t)] \<and> map er_outs (dg_routes d') = map er_outs (dg_routes d) @ [outs]"
  using assms by (auto simp: spawn_def subscribers_def fun_eq_iff split: if_splits)

lemma grows_same: "subscribers d' = subscribers d \<Longrightarrow> dg_rings d' = dg_rings d \<Longrightarrow> grows d d' (\<lambda>_. 0)"
  by (simp add: grows_def wired_def unwritten_def)

lemma spawn_nodes_grows:
  "spawn_nodes spawns pending d = Inr d' \<Longrightarrow>
    grows d d' (\<lambda>_. 0) \<and> length (dg_rings d') = length (dg_rings d) \<and>
    dg_threads d' = dg_threads d @ map (\<lambda>(nd, boxes).
      (''node:'' @ short_uri (nd_uri nd), Node_thread (nd_uri nd) (nd_body nd) boxes)) pending \<and>
    map er_outs (dg_routes d') = map er_outs (dg_routes d) @ map (nd_outs \<circ> fst) pending"
proof (induction spawns pending d rule: spawn_nodes.induct)
  case (1 spawns d)
  then show ?case by (simp add: grows_refl)
next
  case (2 spawns nd boxes pending d)
  then obtain d1 where r: "spawn spawns (''node:'' @ short_uri (nd_uri nd)) (Node_thread (nd_uri nd) (nd_body nd) boxes)
      (nd_outs nd) d = Inr d1" "spawn_nodes spawns pending d1 = Inr d'"
    by (auto simp: and_then_Inr_iff)
  note s = spawn_step [OF r(1)] and IH = "2.IH" [OF r(2)]
  have "grows d d' (\<lambda>_. 0)"
    using grows_trans [OF grows_same [of d1 d], of d' "\<lambda>_. 0"] s IH by simp
  then show ?case using s IH by simp
qed

lemma add_routers_grows:
  "add_routers clocks spawns backend plat routers d = Inr d' \<Longrightarrow>
    grows d d' (router_subscriptions routers) \<and>
    (\<exists>us. dg_threads d' = dg_threads d @ us \<and> list_all2 (router_thread plat) routers us \<and> fed d' (inboxes_of us) \<and>
       map fst (inboxes_of us) = [length (dg_rings d)..<length (dg_rings d')]) \<and>
    map er_outs (dg_routes d') = map er_outs (dg_routes d) @ map rd_outs routers"
proof (induction routers arbitrary: d)
  case Nil
  then show ?case by (simp add: grows_def router_subscriptions_def)
next
  case (Cons rd rds)
  obtain d1 a d2 b d3 where r: "new_ring clocks d = Inr (d1, a)" "new_ring clocks d1 = Inr (d2, b)"
      "spawn spawns (''router:'' @ short_uri (rd_uri rd))
         (Router_thread (rd_uri rd) a b (platform_channels plat rd) rd) (rd_outs rd)
         (subscribe (rd_in_b rd) b (subscribe (rd_in_a rd) a d2)) = Inr d3"
      "add_routers clocks spawns backend plat rds d3 = Inr d'"
    using Cons.prems by (auto simp: and_then_Inr_iff)
  note n1 = new_ring_step [OF r(1)] and n2 = new_ring_step [OF r(2)] and s = spawn_step [OF r(3)]
  obtain us where IH: "grows d3 d' (router_subscriptions rds)" "dg_threads d' = dg_threads d3 @ us"
      "list_all2 (router_thread plat) rds us" "fed d' (inboxes_of us)"
      "map fst (inboxes_of us) = [length (dg_rings d3)..<length (dg_rings d')]"
      "map er_outs (dg_routes d') = map er_outs (dg_routes d3) @ map rd_outs rds"
    using Cons.IH [OF r(4)] by blast
  define e where "e = subscribe (rd_in_b rd) b (subscribe (rd_in_a rd) a d2)"
  have "grows d e (\<lambda>u. (if u = rd_in_a rd then 1 else 0) + (if u = rd_in_b rd then 1 else 0))"
    unfolding grows_def
  proof (intro conjI impI allI)
    assume "wired d"
    then have d1: "wired d1" "unwritten d1 a" using wired_new_ring [OF _ r(1)] by simp_all
    then have "wired d2" "unwritten d2 b" "unwritten d2 a"
      using wired_new_ring [OF d1(1) r(2)] n2 by (simp_all add: unwritten_def)
    then have w: "wired (subscribe (rd_in_a rd) a d2)" "unwritten (subscribe (rd_in_a rd) a d2) b"
      using wired_subscribe [of d2 a] n1 n2 by (auto simp: unwritten_def)
    show "wired e" unfolding e_def by (rule wired_subscribe [OF w]) (use n1 n2 in simp)
  qed (use n1 n2 in \<open>auto simp: e_def unwritten_def\<close>)
  moreover have "grows e d3 (\<lambda>_. 0)" using s by (intro grows_same) (simp_all add: e_def)
  ultimately have "grows d d' (router_subscriptions (rd # rds))"
    using grows_trans [OF grows_trans [of d e _ d3 "\<lambda>_. 0"] IH(1)]
    by (simp add: router_subscriptions_def [abs_def])
  moreover define t where "t = (''router:'' @ short_uri (rd_uri rd), Router_thread (rd_uri rd) a b (platform_channels plat rd) rd)"
  moreover have "length (dg_rings d3) = Suc (Suc (length (dg_rings d)))" "length (dg_rings d3) \<le> length (dg_rings d')"
    using s n1 n2 IH(1) by (simp_all add: grows_def)
  then have "map fst (inboxes_of (t # us)) = [length (dg_rings d)..<length (dg_rings d')]"
    using IH(5) n1 n2 by (simp add: t_def upt_conv_Cons)
  moreover have "fed d3 (thread_inboxes (snd t))" using s by (simp add: t_def)
  then have "fed d' (inboxes_of (t # us))" using fed_grows [OF IH(1)] IH(4) by simp
  moreover have "list_all2 (router_thread plat) (rd # rds) (t # us)"
    using IH(3) by (auto simp: t_def router_thread_def)
  moreover have "dg_threads d' = dg_threads d @ (t # us)" using IH(2) s n1 n2 by (simp add: t_def)
  moreover have "map er_outs (dg_routes d') = map er_outs (dg_routes d) @ map rd_outs (rd # rds)"
    using IH(6) s n1 n2 by simp
  ultimately show ?case by blast
qed

text \<open>The ring from which platform backends read their answers is the second platform ring.\<close>

lemma add_platform_grows:
  assumes "add_platform clocks d = Inr (d', plat)"
  shows "plat = (length (dg_rings d), Suc (length (dg_rings d))) \<and> fed d' [(fst plat, antenna_ns @ ''llmRequest'')] \<and>
    grows d d' (\<lambda>u. if u = antenna_ns @ ''llmRequest'' then 1 else 0) \<and>
    length (dg_rings d') = length (dg_rings d) + 2 \<and>
    dg_threads d' = dg_threads d \<and> dg_routes d' = dg_routes d \<and>
    (wired d \<longrightarrow> unwritten d' (Suc (length (dg_rings d))))"
proof -
  obtain d1 req d2 resp where r: "new_ring clocks d = Inr (d1, req)" "new_ring clocks d1 = Inr (d2, resp)"
      "d' = subscribe (antenna_ns @ ''llmRequest'') req d2" "plat = (req, resp)"
    using assms by (auto simp: add_platform_def and_then_Inr_iff)
  note n1 = new_ring_step [OF r(1)] and n2 = new_ring_step [OF r(2)]
  have w: "wired d' \<and> unwritten d' resp" if "wired d"
  proof -
    have "wired d1" "unwritten d1 req" using wired_new_ring [OF that r(1)] by simp_all
    moreover have "wired d2" "unwritten d2 resp" using wired_new_ring [OF \<open>wired d1\<close> r(2)] by simp_all
    ultimately show ?thesis
      using wired_subscribe [of d2 req] n1 n2 r(3) by (auto simp: unwritten_def)
  qed
  moreover have "grows d d' (\<lambda>u. if u = antenna_ns @ ''llmRequest'' then 1 else 0)"
    using n1 n2 w by (auto simp: grows_def r(3) unwritten_def)
  ultimately show ?thesis using n1 n2 r(3,4) by simp
qed

lemma wired_empty: "wired empty_dag" "subscribers empty_dag uri = []"
  by (simp_all add: wired_def subscribers_def empty_dag_def)

lemma map_snd_fst: "map fst ps = ns \<Longrightarrow> map (\<lambda>p. f (fst p)) ps = map f ns"
  by auto

lemma node_threads:
  assumes "map (map snd \<circ> snd) p = map nd_ins nodes" "map fst p = nodes"
  defines "ts \<equiv> map (\<lambda>(nd, boxes). (''node:'' @ short_uri (nd_uri nd), Node_thread (nd_uri nd) (nd_body nd) boxes)) p"
  shows "list_all2 node_thread nodes ts" "inboxes_of ts = concat (map snd p)"
  using assms(1,2) unfolding ts_def by (induction p arbitrary: nodes) (auto simp: node_thread_def)

text \<open>
  What the loading of a graph that is not empty makes: the inboxes of the nodes, two platform rings, and
  the inboxes of the routers, in this order and each ring once.
\<close>

definition loaded :: "node_def list \<Rightarrow> router_def list \<Rightarrow> dag \<Rightarrow> nat \<Rightarrow> bool" where
  "loaded nodes routers d k \<longleftrightarrow>
     (\<exists>ts us. dg_threads d = ts @ us \<and>
        list_all2 node_thread nodes ts \<and> list_all2 (router_thread (k, Suc k)) routers us \<and>
        map fst (inboxes_of ts) = [0..<k] \<and>
        map fst (inboxes_of us) = [Suc (Suc k)..<length (dg_rings d)]) \<and>
     fed d (inboxes_of (dg_threads d)) \<and>
     Suc k < length (dg_rings d) \<and> k \<in> set (subscribers d (antenna_ns @ ''llmRequest'')) \<and> unwritten d (Suc k) \<and>
     map er_outs (dg_routes d) = map nd_outs nodes @ map rd_outs routers"

lemma build_dag_wiring:
  assumes "build_dag clocks spawns backend nodes routers = Inr d" "nodes \<noteq> [] \<or> routers \<noteq> []"
  shows "wired d" (is ?w)
    and "length (subscribers d uri) = node_subscriptions nodes uri +
      (if uri = antenna_ns @ ''llmRequest'' then 1 else 0) + router_subscriptions routers uri" (is ?c)
    and "\<exists>k. loaded nodes routers d k"
proof -
  obtain d1 p d2 d3 plat where r: "add_nodes clocks nodes empty_dag = Inr (d1, p)" "spawn_nodes spawns p d1 = Inr d2"
      "add_platform clocks d2 = Inr (d3, plat)" "add_routers clocks spawns backend plat routers d3 = Inr d"
    using assms by (auto simp: build_dag_def and_then_Inr_iff split: if_splits)
  note g1 = add_nodes_grows [OF r(1)] and g2 = spawn_nodes_grows [OF r(2)]
    and g3 = add_platform_grows [OF r(3)] and g4 = add_routers_grows [OF r(4)]
  have g: "grows empty_dag d2 (\<lambda>u. node_subscriptions nodes u + 0)"
    using grows_trans [of empty_dag d1 _ d2] g1 g2 by blast
  have w2: "wired d2" using g wired_empty by (simp add: grows_def)
  then have w3: "wired d3" using g3 by (simp add: grows_def)
  then show ?w using g4 by (simp add: grows_def)
  show ?c using g g3 g4 wired_empty(2) [of uri] by (simp add: grows_def)
  define k where "k = length (dg_rings d2)"
  obtain us where us: "dg_threads d = dg_threads d3 @ us" "list_all2 (router_thread plat) routers us"
      "fed d (inboxes_of us)" "map fst (inboxes_of us) = [length (dg_rings d3)..<length (dg_rings d)]"
    using g4 by blast
  have plat: "plat = (k, Suc k)" "length (dg_rings d3) = Suc (Suc k)" using g3 by (simp_all add: k_def)
  define ts where "ts = map (\<lambda>(nd, boxes). (''node:'' @ short_uri (nd_uri nd), Node_thread (nd_uri nd) (nd_body nd) boxes)) p"
  have ts: "list_all2 node_thread nodes ts" "inboxes_of ts = concat (map snd p)"
    using node_threads [of p nodes] g1 by (simp_all add: ts_def)
  have empty: "dg_threads empty_dag = []" "length (dg_rings empty_dag) = 0" "dg_routes empty_dag = []"
    by (simp_all add: empty_dag_def)
  have threads: "dg_threads d = ts @ us" using us(1) g1 g2 g3 empty by (simp add: ts_def)
  have gr: "grows d1 d2 (\<lambda>_. 0)" "grows d2 d3 (\<lambda>u. if u = antenna_ns @ ''llmRequest'' then 1 else 0)"
      "grows d3 d (router_subscriptions routers)" using g2 g3 g4 by simp_all
  have "fed d1 (inboxes_of ts)" using g1 ts(2) by simp
  then have "fed d (inboxes_of ts)" by (rule fed_grows [OF gr(3) fed_grows [OF gr(2) fed_grows [OF gr(1)]]])
  moreover have "fed d3 [(fst plat, antenna_ns @ ''llmRequest'')]" using g3 by blast
  then have "fed d3 [(k, antenna_ns @ ''llmRequest'')]" by (simp only: plat(1) fst_conv)
  then have "fed d [(k, antenna_ns @ ''llmRequest'')]" by (rule fed_grows [OF gr(3)])
  then have "k \<in> set (subscribers d (antenna_ns @ ''llmRequest''))" by simp
  moreover have "unwritten d3 (Suc k)" "Suc k < length (dg_rings d3)" using g3 w2 plat by (simp_all add: k_def)
  then have "unwritten d (Suc k)" "Suc k < length (dg_rings d)" using gr(3) by (simp_all add: grows_def)
  moreover have "map fst (inboxes_of ts) = [0..<k]" using g1 g2 ts(2) empty by (simp add: k_def)
  moreover have "map (nd_outs \<circ> fst) p = map nd_outs nodes" using g1 by (metis map_map)
  then have "map er_outs (dg_routes d) = map nd_outs nodes @ map rd_outs routers"
    using g1 g2 g3 g4 empty by simp
  ultimately show "\<exists>k. loaded nodes routers d k"
    using ts(1) us(2-4) plat threads unfolding loaded_def by (intro exI [of _ k]) (simp, blast)
qed

section \<open>Where a broadcast goes\<close>

lemma send_to_frame [simp]:
  "length (dg_rings (send_to t w d)) = length (dg_rings d)" "dg_writers (send_to t w d) = dg_writers d"
  "dg_readers (send_to t w d) = dg_readers d" "dg_routes (send_to t w d) = dg_routes d"
  "dg_threads (send_to t w d) = dg_threads d" "dg_queries (send_to t w d) = dg_queries d"
  by (simp_all add: send_to_def split_beta Let_def)

lemma send_to_rings: "dg_rings (send_to t w d) =
    (dg_rings d)[w := fst (channel_send (dg_readers d w) (dg_rings d ! w) t)]"
  by (simp add: send_to_def split_beta Let_def)

lemma fold_send_frame [simp]:
  "length (dg_rings (fold (send_to t) ws d)) = length (dg_rings d)"
  "dg_writers (fold (send_to t) ws d) = dg_writers d" "dg_readers (fold (send_to t) ws d) = dg_readers d"
  "dg_routes (fold (send_to t) ws d) = dg_routes d" "dg_threads (fold (send_to t) ws d) = dg_threads d"
  "dg_queries (fold (send_to t) ws d) = dg_queries d"
  by (induction ws arbitrary: d) simp_all

lemma fold_send_rings:
  "distinct ws \<Longrightarrow> \<forall>w \<in> set ws. w < length (dg_rings d) \<Longrightarrow>
    dg_rings (fold (send_to t) ws d) ! n =
      (if n \<in> set ws then fst (channel_send (dg_readers d n) (dg_rings d ! n) t) else dg_rings d ! n)"
proof (induction ws arbitrary: d)
  case (Cons w ws)
  then have "dg_rings (fold (send_to t) ws (send_to t w d)) ! n =
      (if n \<in> set ws then fst (channel_send (dg_readers d n) (dg_rings (send_to t w d) ! n) t)
       else dg_rings (send_to t w d) ! n)"
    by simp
  then show ?case using Cons.prems by (auto simp: send_to_rings nth_list_update)
qed simp

lemma broadcast_frame [simp]:
  "length (dg_rings (broadcast uri t d)) = length (dg_rings d)" "dg_writers (broadcast uri t d) = dg_writers d"
  "dg_readers (broadcast uri t d) = dg_readers d" "dg_routes (broadcast uri t d) = dg_routes d"
  "dg_threads (broadcast uri t d) = dg_threads d" "dg_queries (broadcast uri t d) = dg_queries d"
  by (simp_all add: broadcast_def split: option.split)

lemma broadcast_rings:
  "wired d \<Longrightarrow> dg_rings (broadcast uri t d) ! n =
    (if n \<in> set (subscribers d uri) then fst (channel_send (dg_readers d n) (dg_rings d ! n) t) else dg_rings d ! n)"
  using fold_send_rings [of "subscribers d uri" d t n]
  by (auto simp: broadcast_def subscribers_def wired_def split: option.splits)

lemma channel_send_room:
  assumes "ring_inv (ch_ring c)" "channel_text t"
    and "frames_size (ring_msgs (ch_ring c)) + (4 + length t) \<le> ring_limit (ch_ring c)"
  shows "ring_msgs (ch_ring (fst (channel_send sched c t))) = ring_msgs (ch_ring c) @ [bytes_of t]"
    and "fst (snd (channel_send sched c t))"
proof -
  note ok = channel_text_sendable [OF assms(2)]
  have acc: "snd (ring_push (ch_ring c) (bytes_of t))"
    using ring_fifo.accepts_iff [OF assms(1) ok] assms(3) by (simp add: frames_size_sum frame_len_def)
  have "send_loop sched 0 send_attempts (ch_ring c) (bytes_of t)
      = (fst (ring_push (ch_ring c) (bytes_of t)), True, [])"
    using acc by (simp add: send_attempts_def eval_nat_numeral split_beta)
  then show "ring_msgs (ch_ring (fst (channel_send sched c t))) = ring_msgs (ch_ring c) @ [bytes_of t]"
      "fst (snd (channel_send sched c t))"
    using acc ring_push_msgs(1) [OF assms(1) ok] by (simp_all add: channel_send_def)
qed



section \<open>What pumping does\<close>

lemma pump_route_broadcasts:
  "pump_route r d = fold (\<lambda>(uri, t) d. broadcast uri t d) [(uri, t). t \<leftarrow> er_rx r, uri \<leftarrow> er_outs r] d"
proof -
  have "fold (\<lambda>uri d. broadcast uri t d) us d = fold (\<lambda>(uri, t) d. broadcast uri t d) [(uri, t). uri \<leftarrow> us] d" for us t d
    by (induction us arbitrary: d) simp_all
  then have "fold (\<lambda>t d. fold (\<lambda>uri d. broadcast uri t d) (er_outs r) d) ts d
      = fold (\<lambda>(uri, t) d. broadcast uri t d) [(uri, t). t \<leftarrow> ts, uri \<leftarrow> er_outs r] d" for ts
    by (induction ts arbitrary: d) simp_all
  then show ?thesis by (simp add: pump_route_def)
qed

lemma fold_broadcast_frame [simp]:
  "dg_routes (fold (\<lambda>(uri, t) d. broadcast uri t d) bs d) = dg_routes d"
  "dg_writers (fold (\<lambda>(uri, t) d. broadcast uri t d) bs d) = dg_writers d"
  by (induction bs arbitrary: d) (auto simp: split_beta)

lemma fold_broadcast_shape [simp]:
  "dg_threads (fold (\<lambda>(uri, t) d. broadcast uri t d) bs d) = dg_threads d"
  "length (dg_rings (fold (\<lambda>(uri, t) d. broadcast uri t d) bs d)) = length (dg_rings d)"
  by (induction bs arbitrary: d) (auto simp: split_beta)

lemma pump_routes_broadcasts:
  "fold pump_route rs d = fold (\<lambda>(uri, t) d. broadcast uri t d) [(uri, t). r \<leftarrow> rs, t \<leftarrow> er_rx r, uri \<leftarrow> er_outs r] d"
  by (induction rs arbitrary: d) (simp_all add: pump_route_broadcasts)

lemma newly_dead_spec:
  assumes "newly_dead ts rep = (rep', dead)"
  shows "rep' = rep @ dead \<and> distinct dead \<and> set dead = {n. (n, True) \<in> set ts} - set rep"
  using assms
proof (induction ts rep arbitrary: rep' dead rule: newly_dead.induct)
  case (2 name fin ts rep)
  show ?case
  proof (cases "fin \<and> name \<notin> set rep")
    case True
    obtain rep1 dead1 where r: "newly_dead ts (rep @ [name]) = (rep1, dead1)" by force
    then have d: "rep' = rep1" "dead = name # dead1" using "2.prems" True by simp_all
    have IH: "rep1 = (rep @ [name]) @ dead1 \<and> distinct dead1 \<and>
        set dead1 = {n. (n, True) \<in> set ts} - set (rep @ [name])"
      by (rule "2.IH"(1) [OF True r])
    moreover have "{n. (n, True) \<in> set ((name, fin) # ts)} = insert name {n. (n, True) \<in> set ts}"
      using True by auto
    ultimately show ?thesis using d True by auto
  next
    case False
    have "newly_dead ts rep = (rep', dead)"
      using "2.prems" by (simp only: newly_dead.simps if_not_P [OF False])
    then have IH: "rep' = rep @ dead \<and> distinct dead \<and> set dead = {n. (n, True) \<in> set ts} - set rep"
      by (rule "2.IH"(2) [OF False])
    moreover have "{n. (n, True) \<in> set ((name, fin) # ts)} - set rep = {n. (n, True) \<in> set ts} - set rep"
      using False by auto
    ultimately show ?thesis by simp
  qed
qed simp

section \<open>A round of a node thread\<close>

text \<open>
  After \<open>poll\<close> a thread clears the clock of every inbox that was reported readable and empties the
  inbox, running the script on each message that is not empty.  \<open>exec\<close> is a run of the script on
  the state of its engine; errors and panics of the script are only logged.
\<close>

definition exec_all :: "('v \<Rightarrow> str \<Rightarrow> str \<Rightarrow> str \<Rightarrow> 'v) \<Rightarrow> str \<Rightarrow> str \<Rightarrow> str list \<Rightarrow> 'v \<Rightarrow> 'v" where
  "exec_all exec body uri msgs vm = fold (\<lambda>m vm. if m = [] then vm else exec vm body m uri) msgs vm"

fun node_round :: "('v \<Rightarrow> str \<Rightarrow> str \<Rightarrow> str \<Rightarrow> 'v) \<Rightarrow> str \<Rightarrow> ((nat \<times> str) \<times> bool) list \<Rightarrow> dag \<Rightarrow> 'v \<Rightarrow> (dag \<times> 'v) option" where
  "node_round exec body [] d vm = Some (d, vm)"
| "node_round exec body (((n, uri), readable) # boxes) d vm =
     (if readable
      then (case drain channel_recv (dg_rings d ! n) of
              None \<Rightarrow> None
            | Some (c, msgs) \<Rightarrow>
                node_round exec body boxes
                  (d\<lparr>dg_rings := (dg_rings d)[n := c],
                     dg_syscalls := dg_syscalls d @ clock_consume (ch_clock (dg_rings d ! n))\<rparr>)
                  (exec_all exec body uri msgs vm))
      else node_round exec body boxes d vm)"

text \<open>
  The clock of every ring was made on Linux: one event descriptor, among those in \<open>E\<close>, for both
  ends.  What eventfd(2) documents of a descriptor: a write of fewer than eight bytes fails and
  changes nothing.
\<close>

definition linux_clocks :: "int set \<Rightarrow> dag \<Rightarrow> bool" where
  "linux_clocks E d \<longleftrightarrow> (\<forall>c \<in> set (dg_rings d). \<exists>fd \<in> E. clock_new_linux fd = Some (ch_clock c))"

definition eventfd_writes :: "int set \<Rightarrow> ('os \<Rightarrow> syscall \<Rightarrow> 'os) \<Rightarrow> bool" where
  "eventfd_writes E step \<longleftrightarrow> (\<forall>os. \<forall>fd \<in> E. \<forall>bytes. length bytes < 8 \<longrightarrow> step os (Sys_write fd bytes) = os)"

lemma channel_send_syscalls:
  "snd (snd (snd (channel_send sched c t))) = [] \<or> snd (snd (snd (channel_send sched c t))) = clock_signal (ch_clock c)"
  "ch_clock (fst (channel_send sched c t)) = ch_clock c"
  by (simp_all add: channel_send_def split_beta)

lemma send_to_silent:
  assumes "eventfd_writes E step" "linux_clocks E d" "w < length (dg_rings d)"
  shows "run_syscalls step os (dg_syscalls (send_to t w d)) = run_syscalls step os (dg_syscalls d)
    \<and> linux_clocks E (send_to t w d)"
proof -
  have "dg_rings d ! w \<in> set (dg_rings d)" using assms(3) by simp
  then obtain fd where fd: "fd \<in> E" "clock_new_linux fd = Some (ch_clock (dg_rings d ! w))"
    using assms(2) by (auto simp: linux_clocks_def)
  then have "write_fd (ch_clock (dg_rings d ! w)) \<in> E"
    by (auto simp: clock_new_linux_def split: if_splits dest!: arg_cong [of _ _ write_fd])
  then have "run_syscalls step os' (clock_signal (ch_clock (dg_rings d ! w))) = os'" for os'
    using assms(1) by (simp add: clock_signal_def eventfd_writes_def)
  then have "run_syscalls step os (dg_syscalls (send_to t w d)) = run_syscalls step os (dg_syscalls d)"
    using channel_send_syscalls(1) [of "dg_readers d w" "dg_rings d ! w" t]
    by (auto simp: send_to_def split_beta Let_def)
  moreover have "linux_clocks E (send_to t w d)"
    unfolding linux_clocks_def send_to_rings
  proof
    fix c assume "c \<in> set ((dg_rings d)[w := fst (channel_send (dg_readers d w) (dg_rings d ! w) t)])"
    then have "c \<in> set (dg_rings d) \<or> ch_clock c = ch_clock (dg_rings d ! w)"
      using set_update_subset_insert channel_send_syscalls(2) by (metis (no_types, lifting) insertE subsetD)
    then show "\<exists>fd \<in> E. clock_new_linux fd = Some (ch_clock c)"
      using assms(2) fd by (metis linux_clocks_def)
  qed
  ultimately show ?thesis by blast
qed

lemma broadcast_silent:
  assumes "eventfd_writes E step" "linux_clocks E d" "wired d"
  shows "run_syscalls step os (dg_syscalls (broadcast uri t d)) = run_syscalls step os (dg_syscalls d)
    \<and> linux_clocks E (broadcast uri t d)"
proof -
  have "run_syscalls step os (dg_syscalls (fold (send_to t) ws d)) = run_syscalls step os (dg_syscalls d)
      \<and> linux_clocks E (fold (send_to t) ws d)" if "\<forall>w \<in> set ws. w < length (dg_rings d)" for ws
    using that assms(2)
  proof (induction ws arbitrary: d)
    case (Cons w ws)
    then show ?case using send_to_silent [OF assms(1) Cons.prems(2), of w os t] by simp
  qed simp
  moreover have "broadcast uri t d = fold (send_to t) (subscribers d uri) d"
    by (simp add: broadcast_def subscribers_def split: option.split)
  ultimately show ?thesis using assms(3) by (simp add: wired_def)
qed

lemma wired_broadcast: "wired (broadcast uri t d) = wired d"
  by (simp add: wired_def subscribers_def)

lemma broadcasts_silent:
  "eventfd_writes E step \<Longrightarrow> linux_clocks E d \<Longrightarrow> wired d \<Longrightarrow>
    run_syscalls step os (dg_syscalls (fold (\<lambda>(uri, t) d. broadcast uri t d) bs d)) = run_syscalls step os (dg_syscalls d)"
  by (induction bs arbitrary: d) (auto simp: broadcast_silent wired_broadcast)

lemma broadcasts_clock:
  "wired d \<Longrightarrow> ch_clock (dg_rings (fold (\<lambda>(uri, t) d. broadcast uri t d) bs d) ! n) = ch_clock (dg_rings d ! n)"
  by (induction bs arbitrary: d)
    (auto simp: broadcast_rings wired_broadcast channel_send_syscalls(2))

lemma node_round_unreadable: "\<forall>b \<in> set boxes. \<not> snd b \<Longrightarrow> node_round exec body boxes d vm = Some (d, vm)"
  by (induction exec body boxes d vm rule: node_round.induct) auto

section \<open>Properties\<close>

text \<open>
  C21: \<open>Dag::load\<close> makes an empty graph when the store has neither nodes nor routers.  Otherwise every
  node and router found there has one thread, a thread of a node with one inbox per input in the order
  of the inputs, a thread of a router with two; the inboxes of all threads and the two platform rings
  \<open>k\<close> and \<open>k + 1\<close> are all the rings, each once; every inbox is subscribed to the channel it is for,
  there are no other subscribers than these and the platform request ring, and no two URIs share a
  ring.  A router with the platform backend is given these two: requests are written to one that is
  subscribed to \<open>antenna:llmRequest\<close>, and answers are read from one that nothing ever writes to.  Each
  thread has an emit route with its out channels.
\<close>

theorem dag_load_wires_every_input:
  assumes "dag_load ox peer_scripting order order' clocks spawns backend s = Inr d"
  shows "\<exists>nodes routers. query_script_nodes ox peer_scripting order s = Inr nodes \<and>
    query_semantic_routers ox order' s = Inr routers \<and>
    (if nodes = [] \<and> routers = [] then d = empty_dag
     else wired d \<and>
       (\<forall>uri. length (subscribers d uri) = node_subscriptions nodes uri +
          (if uri = antenna_ns @ ''llmRequest'' then 1 else 0) + router_subscriptions routers uri) \<and>
       (\<exists>k ts us. dg_threads d = ts @ us \<and>
          list_all2 node_thread nodes ts \<and> list_all2 (router_thread (k, Suc k)) routers us \<and>
          map fst (inboxes_of ts) = [0..<k] \<and>
          map fst (inboxes_of us) = [Suc (Suc k)..<length (dg_rings d)] \<and>
          (\<forall>t \<in> set (ts @ us). \<forall>(n, uri) \<in> set (thread_inboxes (snd t)). n \<in> set (subscribers d uri)) \<and>
          Suc k < length (dg_rings d) \<and> k \<in> set (subscribers d (antenna_ns @ ''llmRequest'')) \<and>
          (\<forall>uri. Suc k \<notin> set (subscribers d uri)) \<and>
          map er_outs (dg_routes d) = map nd_outs nodes @ map rd_outs routers))"
proof -
  obtain nodes routers where q: "query_script_nodes ox peer_scripting order s = Inr nodes"
      "query_semantic_routers ox order' s = Inr routers" "build_dag clocks spawns backend nodes routers = Inr d"
    using assms by (auto simp: dag_load_def and_then_Inr_iff)
  show ?thesis
  proof (cases "nodes = [] \<and> routers = []")
    case True
    then show ?thesis using q by (simp add: build_dag_def)
  next
    case False
    then have "nodes \<noteq> [] \<or> routers \<noteq> []" by blast
    note w = build_dag_wiring [OF q(3) this]
    obtain k where "loaded nodes routers d k" using w(3) by blast
    then obtain ts us where "dg_threads d = ts @ us" "list_all2 node_thread nodes ts"
        "list_all2 (router_thread (k, Suc k)) routers us" "map fst (inboxes_of ts) = [0..<k]"
        "map fst (inboxes_of us) = [Suc (Suc k)..<length (dg_rings d)]" "fed d (inboxes_of (ts @ us))"
        "Suc k < length (dg_rings d)" "k \<in> set (subscribers d (antenna_ns @ ''llmRequest''))" "unwritten d (Suc k)"
        "map er_outs (dg_routes d) = map nd_outs nodes @ map rd_outs routers"
      unfolding loaded_def by metis
    moreover from this(6) have "\<forall>t \<in> set (ts @ us). \<forall>(n, uri) \<in> set (thread_inboxes (snd t)). n \<in> set (subscribers d uri)"
      by (auto simp: fed_def)
    ultimately show ?thesis
      using q(1,2) False w(1,2) unfolding unwritten_def by (intro exI [of _ nodes] exI [of _ routers]) (simp, blast)
  qed
qed

text \<open>A store with one node that has one input, on Linux.\<close>

theorem dag_load_wires_every_input_witness:
  "\<exists>ox d. dag_load (ox :: unit oxigraph) True id id (\<lambda>n. clock_new_linux (int n)) (\<lambda>_. True) (\<lambda>_. Inr ()) () = Inr d \<and>
     length (subscribers d ''urn:c'') = 1 \<and> map er_outs (dg_routes d) = [[''urn:o'']] \<and>
     (\<exists>boxes. map snd boxes = [''urn:c''] \<and> map fst boxes = [0] \<and> 0 \<in> set (subscribers d ''urn:c'') \<and>
        dg_threads d = [(''node:n'', Node_thread ''urn:n'' ''x'' boxes)])"
proof -
  define row where "row = [(''node'', Named_node ''urn:n''), (''body'', Literal_term ''x''),
    (''in'', Named_node ''urn:c''), (''out'', Named_node ''urn:o'')]"
  define ox :: "unit oxigraph" where "ox =
    \<lparr>ox_open = (\<lambda>_. Inr ()), ox_iri = (\<lambda>_. Inr ()), ox_load = (\<lambda>s _ _. (s, Inr ())), ox_clear = (\<lambda>s _. (s, Inr ())),
     ox_query = (\<lambda>_ q. Inr (Solutions (if q = script_nodes_query True then [Inr row] else []))),
     ox_update = (\<lambda>s _. (s, Inr ())), ox_show = (\<lambda>t. term_text t)\<rparr>"
  define nd where "nd = \<lparr>nd_uri = ''urn:n'', nd_body = ''x'', nd_language = ''javascript'', nd_ins = [''urn:c''],
      nd_outs = [''urn:o''], nd_where = None\<rparr>"
  have "node_row row [] = [nd]"
    by (simp add: node_row_def row_def nd_def solution_get_def term_to_string_def optional_term_def push_new_def)
  then have nodes: "query_script_nodes ox True id () = Inr [nd]"
    by (simp add: query_script_nodes_def store_query_def ox_def)
  have "script_nodes_query True \<noteq> semantic_routers_query"
    by (simp add: script_nodes_query_def semantic_routers_query_def)
  then have routers: "query_semantic_routers ox id () = Inr []"
    by (simp add: query_semantic_routers_def store_query_def ox_def)
  have "is_ok (build_dag (\<lambda>n. clock_new_linux (int n)) (\<lambda>_. True) (\<lambda>_. Inr ()) [nd] [])"
    by (simp add: build_dag_def nd_def new_ring_def channel_new_def clock_new_linux_def spawn_def add_platform_def Let_def)
  then obtain d where d: "dag_load ox True id id (\<lambda>n. clock_new_linux (int n)) (\<lambda>_. True) (\<lambda>_. Inr ()) () = Inr d"
    using nodes routers by (auto simp: is_ok_iff dag_load_def)
  have "node_subscriptions [nd] ''urn:c'' = 1" "router_subscriptions [] ''urn:c'' = 0"
    by (simp_all add: node_subscriptions_def router_subscriptions_def nd_def)
  moreover have "''urn:c'' \<noteq> antenna_ns @ ''llmRequest''" by (simp add: antenna_ns_def)
  moreover have "map nd_outs [nd] = [[''urn:o'']]" by (simp add: nd_def)
  moreover obtain k ts where l: "length (subscribers d ''urn:c'') = node_subscriptions [nd] ''urn:c'' +
          (if ''urn:c'' = antenna_ns @ ''llmRequest'' then 1 else 0) + router_subscriptions [] ''urn:c''"
      "dg_threads d = ts" "list_all2 node_thread [nd] ts" "map fst (inboxes_of ts) = [0..<k]"
      "\<forall>t \<in> set ts. \<forall>(n, uri) \<in> set (thread_inboxes (snd t)). n \<in> set (subscribers d uri)"
      "map er_outs (dg_routes d) = map nd_outs [nd]"
    using dag_load_wires_every_input [OF d] nodes routers by auto
  moreover obtain t where t: "ts = [t]" "node_thread nd t" using l(3) by (auto simp: list_all2_Cons1)
  moreover have "short_uri ''urn:n'' = ''n''" by code_simp
  ultimately have "\<exists>boxes. map snd boxes = [''urn:c''] \<and> map fst boxes = [0..<k] \<and>
      (\<forall>(n, uri) \<in> set boxes. n \<in> set (subscribers d uri)) \<and>
      dg_threads d = [(''node:n'', Node_thread ''urn:n'' ''x'' boxes)]"
    by (auto simp: node_thread_def nd_def)
  then obtain boxes where b: "map snd boxes = [''urn:c'']" "map fst boxes = [0..<k]"
      "\<forall>(n, uri) \<in> set boxes. n \<in> set (subscribers d uri)" "dg_threads d = [(''node:n'', Node_thread ''urn:n'' ''x'' boxes)]"
    by (elim exE conjE)
  have "length boxes = 1" using b(1) by (metis length_map length_Cons list.size(3) One_nat_def)
  moreover have "length boxes = k" using b(2) by (metis length_map length_upt diff_zero)
  ultimately have "k = 1" by simp
  then have "map fst boxes = [0] \<and> 0 \<in> set (subscribers d ''urn:c'')" using b(1-3) by auto
  then show ?thesis
    using b d l(1,6) \<open>node_subscriptions [nd] ''urn:c'' = 1\<close> \<open>router_subscriptions [] ''urn:c'' = 0\<close>
      \<open>''urn:c'' \<noteq> antenna_ns @ ''llmRequest''\<close> \<open>map nd_outs [nd] = [[''urn:o'']]\<close>
    by (intro exI [of _ ox] exI [of _ d]) auto
qed



text \<open>
  \<open>pump_emits\<close> returns everything the scripts have emitted, in the order of the nodes and of
  their emits, leaves nothing behind, and its effect on the rings is that of broadcasting each emit
  to each out channel of its node in that order.
\<close>

theorem pump_emits_broadcasts_in_order:
  "snd (pump_emits d) = [t. r \<leftarrow> dg_routes d, t \<leftarrow> er_rx r] \<and>
   map er_rx (dg_routes (fst (pump_emits d))) = map (\<lambda>_. []) (dg_routes d) \<and>
   map er_outs (dg_routes (fst (pump_emits d))) = map er_outs (dg_routes d) \<and>
   dg_rings (fst (pump_emits d)) =
     dg_rings (fold (\<lambda>(uri, t) d. broadcast uri t d)
       [(uri, t). r \<leftarrow> dg_routes d, t \<leftarrow> er_rx r, uri \<leftarrow> er_outs r] d)"
  by (simp add: pump_emits_def Let_def pump_routes_broadcasts comp_def)

text \<open>
  \<open>health_check\<close> reports exactly the names of ended threads that it has not reported before, each
  once, and asking again reports nothing.
\<close>

theorem health_check_reports_once:
  assumes "health_check d = (d', dead)"
  shows "distinct dead \<and>
    set dead = {n. (n, True) \<in> set (zip (map fst (dg_threads d)) (dg_finished d))} - set (dg_reported d) \<and>
    snd (health_check d') = []"
proof -
  obtain rep where r: "newly_dead (zip (map fst (dg_threads d)) (dg_finished d)) (dg_reported d) = (rep, dead)"
      "d' = d\<lparr>dg_reported := rep\<rparr>"
    using assms by (auto simp: health_check_def split: prod.splits)
  note s = newly_dead_spec [OF r(1)]
  obtain rep2 dead2 where r2: "newly_dead (zip (map fst (dg_threads d)) (dg_finished d)) rep = (rep2, dead2)" by force
  have "set dead2 = {}" using newly_dead_spec [OF r2] s by auto
  then show ?thesis using s r(2) r2 by (simp add: health_check_def)
qed

theorem health_check_reports_once_witness:
  "health_check (empty_dag\<lparr>dg_threads := [(''node:a'', Node_thread [] [] []), (''node:b'', Node_thread [] [] [])],
      dg_finished := [True, False]\<rparr>) = (empty_dag\<lparr>dg_threads := [(''node:a'', Node_thread [] [] []),
        (''node:b'', Node_thread [] [] [])], dg_finished := [True, False], dg_reported := [''node:a'']\<rparr>, [''node:a'']) \<and>
   snd (health_check (empty_dag\<lparr>dg_threads := [(''node:a'', Node_thread [] [] []), (''node:b'', Node_thread [] [] [])],
      dg_finished := [True, False], dg_reported := [''node:a'']\<rparr>)) = []"
proof -
  have run: "health_check (empty_dag\<lparr>dg_threads := [(''node:a'', Node_thread [] [] []), (''node:b'', Node_thread [] [] [])],
      dg_finished := [True, False]\<rparr>) = (empty_dag\<lparr>dg_threads := [(''node:a'', Node_thread [] [] []),
        (''node:b'', Node_thread [] [] [])], dg_finished := [True, False], dg_reported := [''node:a'']\<rparr>, [''node:a''])"
    by (simp add: health_check_def empty_dag_def)
  then show ?thesis using health_check_reports_once [OF run] by simp
qed

text \<open>
  C33: on Linux, where a clock is an event descriptor and the kernel refuses a write of fewer than
  eight bytes to it, no broadcast wakes a node: if no inbox was reported readable before, none is
  after any sequence of broadcasts, and the round of the thread that follows reads nothing and runs
  no script, although the messages are in its rings.
\<close>

theorem linux_broadcast_wakes_no_node:
  assumes "eventfd_writes E step" "linux_clocks E d" "wired d"
    and "\<forall>(n, uri) \<in> set boxes. \<not> readable (run_syscalls step os (dg_syscalls d)) (read_fd (ch_clock (dg_rings d ! n)))"
    and "d' = fold (\<lambda>(uri, t) d. broadcast uri t d) bs d"
  shows "node_round exec body
      (map (\<lambda>(n, uri). ((n, uri), readable (run_syscalls step os (dg_syscalls d')) (read_fd (ch_clock (dg_rings d' ! n))))) boxes)
      d' vm = Some (d', vm)"
  by (rule node_round_unreadable)
    (use assms(4) broadcasts_silent [OF assms(1-3)] broadcasts_clock [OF assms(3)] in \<open>auto simp: assms(5)\<close>)

text \<open>A kernel whose state is the set of readable descriptors, one inbox, one message.\<close>

theorem linux_broadcast_wakes_no_node_witness:
  "\<exists>d. ring_msgs (ch_ring (dg_rings d ! 0)) = [bytes_of ''hi''] \<and>
     node_round (\<lambda>vm _ m _. vm @ [m]) ''body'' [((0, ''urn:c''), False)] d [] = Some (d, [])"
proof -
  let ?d = "empty_dag\<lparr>dg_rings := [\<lparr>ch_ring = ring_new 64, ch_clock = \<lparr>read_fd = 3, write_fd = 3\<rparr>\<rparr>],
      dg_writers := [''urn:c'' \<mapsto> [0]]\<rparr>"
  let ?step = "\<lambda>(os :: int set) c. case c of Sys_write fd bs \<Rightarrow> if length bs < 8 then os else insert fd os | _ \<Rightarrow> os"
  have new: "ring_inv (ring_new 64)" "ring_msgs (ring_new 64) = []" "ring_limit (ring_new 64) = 64"
    using ring_new_inv [of 64] by (simp_all add: ring_limit_def ring_new_def)
  have subs: "subscribers ?d uri = (if uri = ''urn:c'' then [0] else [])" for uri
    by (simp add: subscribers_def empty_dag_def)
  then have wired: "wired ?d" by (simp add: wired_def)
  have ef: "eventfd_writes {3} ?step" "linux_clocks {3} ?d"
    by (simp_all add: eventfd_writes_def linux_clocks_def clock_new_linux_def)
  have "channel_text ''hi''" by (simp add: channel_text_def bv_def)
  then have "ring_msgs (ch_ring (dg_rings (broadcast ''urn:c'' ''hi'' ?d) ! 0)) = [bytes_of ''hi'']"
    using broadcast_rings [OF wired, of "''urn:c''" "''hi''" 0] channel_send_room(1) [of "\<lparr>ch_ring = ring_new 64, ch_clock = \<lparr>read_fd = 3, write_fd = 3\<rparr>\<rparr>" "''hi''"] subs new
    by simp
  moreover have "dg_syscalls ?d = []" by (simp add: empty_dag_def)
  moreover have "run_syscalls ?step {} (dg_syscalls (broadcast ''urn:c'' ''hi'' ?d)) = {}"
    using broadcast_silent [OF ef wired, of "{}"] by (simp add: empty_dag_def)
  ultimately show ?thesis
    using linux_broadcast_wakes_no_node [OF ef wired, of "[(0, ''urn:c'')]" "\<lambda>os fd. fd \<in> os" "{}"
        "broadcast ''urn:c'' ''hi'' ?d" "[(''urn:c'', ''hi'')]" "\<lambda>vm _ m _. vm @ [m]" "''body''" "[]"]
    by (intro exI [of _ "broadcast ''urn:c'' ''hi'' ?d"]) simp
qed

end
