(* ===== verification/Theme.thy ===== *)
theory Theme
  imports Rdf_Store
begin

text \<open>
  The theme resolver, \<^verbatim>\<open>src/theme.rs\<close>: the active theme is selected by two queries, its
  chain of parents is walked one hop per query, and three stored queries are instantiated with the
  chain and run.  The walk follows answers of the store, so it is a loop that need not end; it ends
  on every store in which finitely many themes can be reached from the active one.
\<close>

definition theme_graph :: str where "theme_graph = ''urn:design:theme''"

definition resolver_queries :: "str list" where
  "resolver_queries =
     [''urn:resolver:theme/role-bindings'', ''urn:resolver:theme/has-token'', ''urn:resolver:theme/stroke-width'']"

text \<open>\<open>load_resolver\<close> reads a file first, \<open>load_resolver_str\<close> has the text.\<close>

definition load_resolver_str :: "'s oxigraph \<Rightarrow> 's \<Rightarrow> str \<Rightarrow> 's \<times> (str + unit)" where
  "load_resolver_str ox s ttl = insert_turtle_to_graph ox s ttl theme_graph"

definition load_resolver :: "'s oxigraph \<Rightarrow> (str \<Rightarrow> str option) \<Rightarrow> 's \<Rightarrow> str \<Rightarrow> 's \<times> (str + unit)" where
  "load_resolver ox files s p =
     (case files p of
        None \<Rightarrow> (s, Inl (''read '' @ p))
      | Some ttl \<Rightarrow> insert_turtle_to_graph ox s ttl theme_graph)"

text \<open>The first row decides: an error in it is an error, an unbound variable is no answer.\<close>

definition first_binding :: "'s oxigraph \<Rightarrow> 's \<Rightarrow> str \<Rightarrow> str \<Rightarrow> str + str option" where
  "first_binding ox s sparql var =
     and_then (store_query ox s sparql) (\<lambda>results.
       case results of
         Solutions (row # _) \<Rightarrow> and_then row (\<lambda>sol. Inr (map_option (ox_show ox) (solution_get sol var)))
       | _ \<Rightarrow> Inr None)"

definition has_theme_query :: str where
  "has_theme_query = ''PREFIX radio: <http://resonator.network/v2/radio#> SELECT ?t WHERE { ?_r radio:hasTheme ?t } LIMIT 1''"

definition active_query :: str where
  "active_query = ''PREFIX design: <'' @ design_ns @ ''> SELECT ?t WHERE { GRAPH <'' @ theme_graph @
     ''> { ?t a design:Theme ; design:active true } } LIMIT 1''"

definition active_theme_iri :: "'s oxigraph \<Rightarrow> 's \<Rightarrow> str + str option" where
  "active_theme_iri ox s =
     and_then (first_binding ox s has_theme_query ''t'') (\<lambda>radio.
       case radio of
         Some iri \<Rightarrow> Inr (Some iri)
       | None \<Rightarrow> first_binding ox s active_query ''t'')"

definition bind_query :: "str \<Rightarrow> str \<Rightarrow> str \<Rightarrow> str" where
  "bind_query query active_display chain_values =
     replace_str ''@@CHAIN@@'' chain_values (replace_str ''@@ACTIVE@@'' active_display query)"

section \<open>The chain of parents\<close>

definition parent_query :: "str \<Rightarrow> str" where
  "parent_query cur = ''PREFIX design: <'' @ design_ns @ ''> SELECT ?p WHERE { GRAPH <'' @ theme_graph @
     ''> { '' @ cur @ '' design:extends ?p } } LIMIT 1''"

definition parent_of :: "'s oxigraph \<Rightarrow> 's \<Rightarrow> str \<Rightarrow> str + str option" where
  "parent_of ox s cur = first_binding ox s (parent_query cur) ''p''"

partial_function (option) walk_chain :: "(str \<Rightarrow> str + str option) \<Rightarrow> str list \<Rightarrow> (str + str list) option" where
  "walk_chain parent chain =
     (case parent (last chain) of
        Inl e \<Rightarrow> Some (Inl e)
      | Inr p \<Rightarrow>
          (if p \<noteq> None \<and> the p \<notin> set chain then walk_chain parent (chain @ [the p])
           else Some (Inr chain)))"

declare walk_chain.simps [code]

definition chain_row :: "nat \<Rightarrow> str \<Rightarrow> str" where
  "chain_row depth iri = ''('' @ iri @ '' '' @ nat_to_dec depth @ '')''"

fun join :: "str \<Rightarrow> str list \<Rightarrow> str" where
  "join sep [] = []"
| "join sep [s] = s"
| "join sep (s # t # ss) = s @ sep @ join sep (t # ss)"

definition chain_values :: "str list \<Rightarrow> str" where
  "chain_values chain = join '' '' (map (\<lambda>(d, iri). chain_row d iri) (enumerate 0 chain))"

definition ancestor_chain_values :: "'s oxigraph \<Rightarrow> 's \<Rightarrow> str \<Rightarrow> (str + str) option" where
  "ancestor_chain_values ox s active =
     map_option (\<lambda>r. and_then r (\<lambda>chain. Inr (chain_values chain))) (walk_chain (parent_of ox s) [active])"

section \<open>Running the resolver\<close>

definition literal_value :: "'s oxigraph \<Rightarrow> rdf_term \<Rightarrow> str" where
  "literal_value ox t = (case t of Literal_term v \<Rightarrow> v | _ \<Rightarrow> ox_show ox t)"

definition resolver_text_query :: "str \<Rightarrow> str" where
  "resolver_text_query q_iri = ''PREFIX sp: <http://spinrdf.org/sp#> SELECT ?text WHERE { GRAPH <'' @ theme_graph @
     ''> { <'' @ q_iri @ ''> sp:text ?text } }''"

definition fetch_query_text :: "'s oxigraph \<Rightarrow> 's \<Rightarrow> str \<Rightarrow> str + str" where
  "fetch_query_text ox s q_iri =
     and_then (store_query ox s (resolver_text_query q_iri)) (\<lambda>results.
       case results of
         Solutions (row # _) \<Rightarrow>
           and_then row (\<lambda>sol.
             case solution_get sol ''text'' of
               Some term \<Rightarrow> Inr (literal_value ox term)
             | None \<Rightarrow> Inl (''?text unbound for '' @ q_iri))
       | _ \<Rightarrow> Inl (''resolver query not found: '' @ q_iri))"

definition run_construct :: "'s oxigraph \<Rightarrow> 's \<Rightarrow> str \<Rightarrow> str + triple list" where
  "run_construct ox s sparql =
     and_then (store_query ox s sparql) (\<lambda>results.
       case results of
         Graph rows \<Rightarrow> all_rows rows
       | _ \<Rightarrow> Inl ''resolver query did not return a CONSTRUCT result'')"

fun run_resolver :: "'s oxigraph \<Rightarrow> 's \<Rightarrow> str \<Rightarrow> str \<Rightarrow> str list \<Rightarrow> str + triple list" where
  "run_resolver ox s active chain [] = Inr []"
| "run_resolver ox s active chain (q # qs) =
     and_then (fetch_query_text ox s q) (\<lambda>text.
     and_then (run_construct ox s (bind_query text active chain)) (\<lambda>ts.
     and_then (run_resolver ox s active chain qs) (\<lambda>us. Inr (ts @ us))))"

definition resolve_active_theme :: "'s oxigraph \<Rightarrow> 's \<Rightarrow> (str + triple list) option" where
  "resolve_active_theme ox s =
     (case active_theme_iri ox s of
        Inl e \<Rightarrow> Some (Inl e)
      | Inr None \<Rightarrow> Some (Inr [])
      | Inr (Some active) \<Rightarrow>
          map_option (\<lambda>r. and_then r (\<lambda>chain. run_resolver ox s active chain resolver_queries))
            (ancestor_chain_values ox s active))"

section \<open>The walk ends\<close>

definition linked :: "(str \<Rightarrow> str + str option) \<Rightarrow> str list \<Rightarrow> bool" where
  "linked parent c \<longleftrightarrow> (\<forall>i. Suc i < length c \<longrightarrow> parent (c ! i) = Inr (Some (c ! Suc i)))"

text \<open>The chain is as long as it can be without a repetition.\<close>

definition chain_ends :: "(str \<Rightarrow> str + str option) \<Rightarrow> str list \<Rightarrow> bool" where
  "chain_ends parent c \<longleftrightarrow>
     parent (last c) = Inr None \<or> (\<exists>p \<in> set c. parent (last c) = Inr (Some p))"

lemma linked_snoc:
  "linked parent c \<Longrightarrow> c \<noteq> [] \<Longrightarrow> parent (last c) = Inr (Some p) \<Longrightarrow> linked parent (c @ [p])"
  by (auto simp: linked_def nth_append last_conv_nth less_Suc_eq_le
      dest!: le_neq_implies_less) (metis One_nat_def Suc_lessI diff_Suc_1 less_Suc_eq)

text \<open>A finite set of themes that has the active one and the parents of its members, as the terms of a finite store are.\<close>

definition theme_closure :: "(str \<Rightarrow> str + str option) \<Rightarrow> str \<Rightarrow> str set \<Rightarrow> bool" where
  "theme_closure parent active A \<longleftrightarrow>
     finite A \<and> active \<in> A \<and> (\<forall>x \<in> A. \<forall>p. parent x = Inr (Some p) \<longrightarrow> p \<in> A)"

definition finite_themes :: "'s oxigraph \<Rightarrow> 's \<Rightarrow> bool" where
  "finite_themes ox s \<longleftrightarrow>
     (\<forall>active. active_theme_iri ox s = Inr (Some active) \<longrightarrow> (\<exists>A. theme_closure (parent_of ox s) active A))"

lemma walk_chain_ends:
  assumes "finite A" "\<forall>x \<in> A. \<forall>p. parent x = Inr (Some p) \<longrightarrow> p \<in> A"
    "chain \<noteq> []" "set chain \<subseteq> A" "distinct chain" "linked parent chain"
  shows "\<exists>r. walk_chain parent chain = Some r \<and>
    (\<forall>c. r = Inr c \<longrightarrow> distinct c \<and> hd c = hd chain \<and> linked parent c \<and> chain_ends parent c)"
  using assms(3-)
proof (induction "card (A - set chain)" arbitrary: chain rule: less_induct)
  case less
  show ?case
  proof (cases "parent (last chain)")
    case (Inl e)
    then show ?thesis by (subst walk_chain.simps) simp
  next
    case (Inr p)
    show ?thesis
    proof (cases "p \<noteq> None \<and> the p \<notin> set chain")
      case False
      then have "chain_ends parent chain" using Inr by (cases p) (auto simp: chain_ends_def)
      then show ?thesis using Inr False less.prems by (subst walk_chain.simps) auto
    next
      case True
      then obtain q where q: "p = Some q" "q \<notin> set chain" by auto
      have "last chain \<in> A" using less.prems(1,2) last_in_set by blast
      then have "q \<in> A" using assms(2) Inr q(1) by blast
      then have sub: "set (chain @ [q]) \<subseteq> A" using less.prems(2) by simp
      have "A - set (chain @ [q]) \<subset> A - set chain" using \<open>q \<in> A\<close> q(2) by auto
      then have "card (A - set (chain @ [q])) < card (A - set chain)"
        using assms(1) by (intro psubset_card_mono) auto
      moreover have "linked parent (chain @ [q])"
        using linked_snoc [OF less.prems(4,1)] Inr q(1) by blast
      moreover have "walk_chain parent chain = walk_chain parent (chain @ [q])"
        using Inr q by (subst walk_chain.simps) simp
      moreover have "hd (chain @ [q]) = hd chain" using less.prems(1) by simp
      ultimately show ?thesis
        using less.hyps [of "chain @ [q]"] sub less.prems(3) q(2) by simp
    qed
  qed
qed

lemma walk_chain_returns:
  "theme_closure (parent_of ox s) active A \<Longrightarrow> walk_chain (parent_of ox s) [active] \<noteq> None"
  using walk_chain_ends [of A "parent_of ox s" "[active]"] by (auto simp: theme_closure_def linked_def)

lemma resolve_active_theme_returns: "finite_themes ox s \<Longrightarrow> resolve_active_theme ox s \<noteq> None"
  by (auto simp: resolve_active_theme_def ancestor_chain_values_def finite_themes_def
      split: sum.split option.split dest: walk_chain_returns)

lemma finite_themesI:
  "(\<And>x. parent_of ox s x = Inr None) \<Longrightarrow> finite_themes ox s"
  by (auto simp: finite_themes_def theme_closure_def)

section \<open>Properties\<close>

text \<open>
  C22: in every state of a store in which finitely many themes can be reached from the active one,
  cyclic inheritance included, the walk along \<open>design:extends\<close> ends; the chain begins with the active theme, goes from each theme to its
  parent, repeats none, and stops only at a theme without a parent or whose parent is in the chain
  already.
\<close>

theorem theme_chain_is_walked_to_its_end:
  assumes "theme_closure (parent_of ox s) active A"
  shows "\<exists>r. walk_chain (parent_of ox s) [active] = Some r \<and>
    ancestor_chain_values ox s active = Some (and_then r (\<lambda>chain. Inr (chain_values chain))) \<and>
    (\<forall>chain. r = Inr chain \<longrightarrow> distinct chain \<and> hd chain = active \<and>
       linked (parent_of ox s) chain \<and> chain_ends (parent_of ox s) chain)"
proof -
  obtain r where "walk_chain (parent_of ox s) [active] = Some r"
      "\<forall>c. r = Inr c \<longrightarrow> distinct c \<and> hd c = hd [active] \<and> linked (parent_of ox s) c \<and> chain_ends (parent_of ox s) c"
    using walk_chain_ends [of A "parent_of ox s" "[active]"] assms by (auto simp: theme_closure_def linked_def)
  then show ?thesis by (simp add: ancestor_chain_values_def)
qed

text \<open>Two themes that extend each other.\<close>

theorem theme_chain_is_walked_to_its_end_witness:
  "\<exists>ox :: unit oxigraph. parent_of ox () ''<a>'' = Inr (Some ''<b>'') \<and> parent_of ox () ''<b>'' = Inr (Some ''<a>'') \<and>
     (\<exists>chain. walk_chain (parent_of ox ()) [''<a>''] = Some (Inr chain) \<and> distinct chain \<and> chain = [''<a>'', ''<b>''] \<and>
        chain_values chain = ''(<a> 0) (<b> 1)'')"
proof -
  define ox :: "unit oxigraph" where "ox =
    \<lparr>ox_open = (\<lambda>_. Inr ()), ox_iri = (\<lambda>_. Inr ()), ox_load = (\<lambda>s _ _. (s, Inr ())), ox_clear = (\<lambda>s _. (s, Inr ())),
     ox_query = (\<lambda>_ q. Inr (Solutions [Inr [(''p'', Named_node (if q = parent_query ''<a>'' then ''<b>'' else ''<a>''))]])),
     ox_update = (\<lambda>s _. (s, Inr ())), ox_show = (\<lambda>t. term_text t)\<rparr>"
  have p: "parent_of ox () x = Inr (Some (if parent_query x = parent_query ''<a>'' then ''<b>'' else ''<a>''))" for x
    by (simp add: parent_of_def first_binding_def store_query_def ox_def solution_get_def)
  have ab: "parent_of ox () ''<a>'' = Inr (Some ''<b>'')" "parent_of ox () ''<b>'' = Inr (Some ''<a>'')"
    by (simp_all add: p parent_query_def)
  have "walk_chain (parent_of ox ()) [''<a>''] = Some (Inr [''<a>'', ''<b>''])"
    by (subst walk_chain.simps, simp add: ab, subst walk_chain.simps, simp add: ab)
  moreover have "chain_values [''<a>'', ''<b>''] = ''(<a> 0) (<b> 1)''"
    by (simp add: chain_values_def chain_row_def nat_to_dec.simps digit_char_def char_of_def bit_0)
  moreover have "theme_closure (parent_of ox ()) ''<a>'' {''<a>'', ''<b>''}" by (simp add: theme_closure_def ab)
  ultimately show ?thesis
    using theme_chain_is_walked_to_its_end [of ox "()" "''<a>''" "{''<a>'', ''<b>''}"] ab by auto
qed

end
