(* ===== verification/Blocklist.thy ===== *)
theory Blocklist
  imports Prelude Utf8 "HOL-Library.Word"
begin

text \<open>
  The signed blocklist, \<^verbatim>\<open>src/blocklist.rs\<close>.  Base64 and Ed25519 are not part of the
  repository: the decoder and the strict verification are parameters, collected in a record.
\<close>

record crypto =
  base64_decode :: "str \<Rightarrow> str option"
  ed25519_key_ok :: "byte list \<Rightarrow> bool"
  ed25519_verify :: "byte list \<Rightarrow> str \<Rightarrow> str \<Rightarrow> bool"

definition blocklist_pubkey :: "byte list" where
  "blocklist_pubkey =
     [0xe7, 0x13, 0x5a, 0xd6, 0x39, 0x8a, 0xdb, 0x9c, 0x0a, 0xcd, 0x80, 0xb1, 0xf8, 0xf9, 0x61, 0xd0,
      0x64, 0xcb, 0xe1, 0xbd, 0x94, 0x33, 0x3d, 0x32, 0xc4, 0xd3, 0xcb, 0x0c, 0xaa, 0xc4, 0x22, 0x06]"

text \<open>The lines of the payload, trimmed, without the blank ones and the comments.\<close>

definition parse_entries :: "str \<Rightarrow> str list" where
  "parse_entries text =
     filter (\<lambda>l. l \<noteq> [] \<and> \<not> starts_with ''#'' l) (map trim (lines_of text))"

definition need :: "'a option \<Rightarrow> str \<Rightarrow> str + 'a" where
  "need x e = (case x of None \<Rightarrow> Inl e | Some a \<Rightarrow> Inr a)"

definition require :: "bool \<Rightarrow> str \<Rightarrow> str + unit" where
  "require b e = (if b then Inr () else Inl e)"

definition verify_signed_blocklist :: "crypto \<Rightarrow> str \<Rightarrow> str \<Rightarrow> byte list \<Rightarrow> str + str list" where
  "verify_signed_blocklist cr payload_b64 sig_b64 pubkey =
     and_then (need (base64_decode cr (trim payload_b64)) ''blocklist payload is not valid base64'') (\<lambda>payload.
     and_then (need (base64_decode cr (trim sig_b64)) ''blocklist signature is not valid base64'') (\<lambda>sig.
     and_then (require (length sig = 64) ''blocklist signature must be 64 bytes'') (\<lambda>_.
     and_then (require (ed25519_key_ok cr pubkey) ''pinned blocklist key is invalid'') (\<lambda>_.
     and_then (require (ed25519_verify cr pubkey payload sig) ''blocklist signature does not verify'') (\<lambda>_.
     and_then (need (from_utf8 payload) ''blocklist payload is not UTF-8'') (\<lambda>text.
       Inr (parse_entries text)))))))"

lemma need_Inr [simp]: "need x e = Inr a \<longleftrightarrow> x = Some a"
  by (simp add: need_def split: option.split)

lemma require_Inr [simp]: "require b e = Inr u \<longleftrightarrow> b"
  by (simp add: require_def)


end
