(* ===== verification/Dispatch.thy ===== *)
theory Dispatch
  imports Carrier_Client Dag Theme Blocklist
begin

text \<open>
  The router of incoming Turtle lines, \<^verbatim>\<open>src/dispatch.rs\<close>: the class of a line decides
  which handler runs, and the handlers act on the store, the script graph, the carrier client and
  the answers sent back.  A handler of a carrier command only acts on the client and the answers.
  The texts it works on are those of \<open>Turtle_Text\<close>.
\<close>

section \<open>State\<close>

text \<open>What is not part of the repository, and the state a dispatch acts on.\<close>

record ('s, 'c) env =
  e_ox :: "'s oxigraph"
  e_crypto :: crypto
  e_lib :: "'c clib"

record ('s, 'c) world =
  w_store :: 's
  w_dag :: dag
  w_client :: "'c client option"
  w_out :: "str list"

definition say :: "str \<Rightarrow> ('s, 'c) world \<Rightarrow> ('s, 'c) world" where
  "say line w = w\<lparr>w_out := w_out w @ [line]\<rparr>"

definition quoted :: "str \<Rightarrow> str" where
  "quoted s = quote # s @ [quote]"

definition antenna_error :: "str \<Rightarrow> str" where
  "antenna_error message = ''[] a antenna:Error ; antenna:message '' @ quoted message @ '' .''"

section \<open>Raw RDF\<close>

definition insert_with_dag :: "('s, 'c) env \<Rightarrow> str \<Rightarrow> ('s, 'c) world \<Rightarrow> ('s, 'c) world" where
  "insert_with_dag env line w =
     (let w1 = w\<lparr>w_dag := before_insert line (w_dag w)\<rparr>
      in case insert_turtle (e_ox env) (w_store w1) line of
           (s, Inl e) \<Rightarrow> w1\<lparr>w_store := s\<rparr>
         | (s, Inr _) \<Rightarrow> say line (w1\<lparr>w_store := s, w_dag := after_insert line (w_dag w1)\<rparr>))"

section \<open>Signed blocklists\<close>

definition missing_field :: "str \<Rightarrow> str \<Rightarrow> str" where
  "missing_field command field = antenna_error (command @ '' missing '' @ field)"

definition sanitize :: "str \<Rightarrow> str" where
  "sanitize s = filter (\<lambda>c. c \<noteq> quote \<and> c \<noteq> backslash) s"

definition blocklist_apply :: "str \<Rightarrow> str" where
  "blocklist_apply uri = ''[] a antenna:BlocklistApply ; antenna:contactUri '' @ quoted (sanitize uri) @ '' .''"

definition blocklist_rejected :: "str \<Rightarrow> str" where
  "blocklist_rejected reason = ''[] a antenna:BlocklistRejected ; antenna:reason '' @ quoted (sanitize reason) @ '' .''"

definition handle_subscribe_blocklist :: "('s, 'c) env \<Rightarrow> str \<Rightarrow> ('s, 'c) world \<Rightarrow> ('s, 'c) world" where
  "handle_subscribe_blocklist env line w =
     (case (extract_property line ''antenna:blocklistPayload'', extract_property line ''antenna:blocklistSig'') of
        (Some payload, Some sig) \<Rightarrow>
          (case verify_signed_blocklist (e_crypto env) payload sig blocklist_pubkey of
             Inr entries \<Rightarrow> fold (\<lambda>uri w. insert_with_dag env (blocklist_apply uri) w) entries w
           | Inl e \<Rightarrow> insert_with_dag env (blocklist_rejected e) w)
      | _ \<Rightarrow> say (missing_field ''SubscribeBlocklist'' ''antenna:blocklistPayload/Sig'') w)"

section \<open>The theme\<close>

text \<open>
  The walk along the parents of a theme may not return for a store with infinitely many parents,
  so the handler has an optional result.
\<close>

definition show_triple :: "'s oxigraph \<Rightarrow> triple \<Rightarrow> str" where
  "show_triple ox t = (case t of (s, p, obj) \<Rightarrow> ox_show ox s @ '' '' @ ox_show ox p @ '' '' @ ox_show ox obj @ '' .'')"

definition handle_design :: "('s, 'c) env \<Rightarrow> str \<Rightarrow> ('s, 'c) world \<Rightarrow> ('s, 'c) world option" where
  "handle_design env rdf_type w =
     (let local = drop (length design_ns) rdf_type
      in if local = ''ResolveActiveTheme''
         then map_option (\<lambda>resolved.
                case resolved of
                  Inr triples \<Rightarrow>
                    say (''[] a design:ThemeBundleComplete ; design:bundleSize '' @ nat_to_dec (length triples) @ '' .'')
                      (fold (\<lambda>t w. say (show_triple (e_ox env) t) w) triples w)
                | Inl e \<Rightarrow> say (antenna_error (''ResolveActiveTheme failed: '' @ dispatch_escape e)) w)
              (resolve_active_theme (e_ox env) (w_store w))
         else Some (say (antenna_error (''Unknown design type: '' @ local)) w))"

section \<open>SPIN queries\<close>

definition result_parts :: "'s oxigraph \<Rightarrow> solution \<Rightarrow> str list" where
  "result_parts ox sol =
     map (\<lambda>(var, term). ''antenna:var_'' @ var @ '' '' @ quoted (dispatch_escape (ox_show ox term))) sol"

definition say_row :: "'s oxigraph \<Rightarrow> solution \<Rightarrow> ('s, 'c) world \<Rightarrow> ('s, 'c) world" where
  "say_row ox sol w =
     (if result_parts ox sol = [] then w
      else say (''[] a antenna:Result ; '' @ join '' ; '' (result_parts ox sol) @ '' .'') w)"

definition sparql_failed :: "str \<Rightarrow> ('s, 'c) world \<Rightarrow> ('s, 'c) world" where
  "sparql_failed e w = say (antenna_error (dispatch_escape e)) w"

definition spin_select :: "('s, 'c) env \<Rightarrow> str \<Rightarrow> ('s, 'c) world \<Rightarrow> ('s, 'c) world" where
  "spin_select env sparql w =
     (case store_query (e_ox env) (w_store w) sparql of
        Inl e \<Rightarrow> sparql_failed e w
      | Inr (Solutions sols) \<Rightarrow> fold (say_row (e_ox env)) (good sols) w
      | Inr _ \<Rightarrow> w)"

definition spin_ask :: "('s, 'c) env \<Rightarrow> str \<Rightarrow> ('s, 'c) world \<Rightarrow> ('s, 'c) world" where
  "spin_ask env sparql w =
     (case store_ask (e_ox env) (w_store w) sparql of
        Inl e \<Rightarrow> sparql_failed e w
      | Inr b \<Rightarrow> say (''[] a sp:AskResult ; sp:boolean '' @ (if b then ''true'' else ''false'') @ '' .'') w)"

text \<open>Every triple is sent, then inserted; whether the insertion succeeds does not matter.\<close>

definition construct_triple :: "'s oxigraph \<Rightarrow> triple \<Rightarrow> ('s, 'c) world \<Rightarrow> ('s, 'c) world" where
  "construct_triple ox t w =
     (let turtle = show_triple ox t
      in (say turtle w)\<lparr>w_store := fst (insert_turtle ox (w_store w) turtle)\<rparr>)"

definition spin_construct :: "('s, 'c) env \<Rightarrow> str \<Rightarrow> ('s, 'c) world \<Rightarrow> ('s, 'c) world" where
  "spin_construct env sparql w =
     (case store_query (e_ox env) (w_store w) sparql of
        Inl e \<Rightarrow> sparql_failed e w
      | Inr (Graph triples) \<Rightarrow> fold (construct_triple (e_ox env)) (good triples) w
      | Inr _ \<Rightarrow> w)"

definition spin_update :: "('s, 'c) env \<Rightarrow> str \<Rightarrow> ('s, 'c) world \<Rightarrow> ('s, 'c) world" where
  "spin_update env sparql w =
     (case store_update (e_ox env) (w_store w) sparql of
        (s, Inl e) \<Rightarrow> sparql_failed e (w\<lparr>w_store := s\<rparr>)
      | (s, Inr _) \<Rightarrow> w\<lparr>w_store := s\<rparr>)"

definition spin_text :: "str \<Rightarrow> str option" where
  "spin_text line =
     or_else (extract_property line ''sp:text'') (extract_property line (''<'' @ sp_ns @ ''text>''))"

definition handle_spin :: "('s, 'c) env \<Rightarrow> str \<Rightarrow> str \<Rightarrow> ('s, 'c) world \<Rightarrow> ('s, 'c) world" where
  "handle_spin env line rdf_type w =
     (let local = drop (length sp_ns) rdf_type
      in case spin_text line of
           None \<Rightarrow> say (antenna_error (''Missing sp:text in '' @ local)) w
         | Some sparql \<Rightarrow>
             if local = ''Select'' then spin_select env sparql w
             else if local = ''Ask'' then spin_ask env sparql w
             else if local = ''Construct'' then spin_construct env sparql w
             else if local \<in> {''InsertData'', ''DeleteData'', ''Modify''} then spin_update env sparql w
             else say (antenna_error (''Unknown SPIN type: '' @ local)) w)"

section \<open>Carrier commands\<close>

definition account_or_default :: "str \<Rightarrow> str \<Rightarrow> str" where
  "account_or_default line dflt = unwrap_or (opt_filter (\<lambda>s. s \<noteq> []) (extract_property line ''carrier:account'')) dflt"

definition carrier_error :: "str \<Rightarrow> str \<Rightarrow> str" where
  "carrier_error command e = antenna_error (command @ '' failed: '' @ dispatch_escape e)"

text \<open>A handler gives the client and what it sends.\<close>

type_synonym 'c answer = "'c client \<times> str list"

text \<open>\<open>if let Err(e) = carrier.method(..) { carrier_error(out, command, &e) }\<close>\<close>

definition report :: "str \<Rightarrow> 'c client \<times> (str + 'a) \<Rightarrow> 'c answer" where
  "report command r = (fst r, case snd r of Inl e \<Rightarrow> [carrier_error command e] | Inr _ \<Rightarrow> [])"

text \<open>\<open>match extract_property(line, field) { Some(v) => v, None => { missing_field(..); return; } }\<close>\<close>

definition with_value :: "str option \<Rightarrow> str \<Rightarrow> str \<Rightarrow> 'c client \<Rightarrow> (str \<Rightarrow> 'c answer) \<Rightarrow> 'c answer" where
  "with_value v command field cl k =
     (case v of None \<Rightarrow> (cl, [missing_field command field]) | Some x \<Rightarrow> k x)"

abbreviation with_field :: "str \<Rightarrow> str \<Rightarrow> str \<Rightarrow> 'c client \<Rightarrow> (str \<Rightarrow> 'c answer) \<Rightarrow> 'c answer" where
  "with_field line command field \<equiv> with_value (extract_property line field) command field"

definition nonempty_property :: "str \<Rightarrow> str \<Rightarrow> str option" where
  "nonempty_property line field = opt_filter (\<lambda>s. s \<noteq> []) (extract_property line field)"

definition on_create_account :: "'c clib \<Rightarrow> str \<Rightarrow> str \<Rightarrow> 'c client \<Rightarrow> 'c answer" where
  "on_create_account lib local line cl =
     (let display_name = extract_property line ''carrier:displayName'';
          archive_path = nonempty_property line ''carrier:archivePath'';
          archive_password = nonempty_property line ''carrier:archivePassword'';
          cl' = (case nonempty_property line ''carrier:autoExportPath'' of
                   Some p \<Rightarrow> set_pending_auto_export p cl
                 | None \<Rightarrow> cl)
      in report local (create_account lib display_name archive_path archive_password cl'))"

definition on_export_account :: "'c clib \<Rightarrow> str \<Rightarrow> str \<Rightarrow> 'c client \<Rightarrow> 'c answer" where
  "on_export_account lib line dflt cl =
     with_field line ''ExportAccount'' ''carrier:path'' cl (\<lambda>path.
       report ''ExportAccount'' (export_account lib (account_or_default line dflt) path
         (nonempty_property line ''carrier:archivePassword'') cl))"

definition on_load_account :: "'c clib \<Rightarrow> str \<Rightarrow> 'c client \<Rightarrow> 'c answer" where
  "on_load_account lib line cl =
     with_value (nonempty_property line ''carrier:account'') ''LoadAccount'' ''carrier:account'' cl (\<lambda>account.
       report ''LoadAccount'' (load_account lib account cl))"

definition on_get_id :: "'c clib \<Rightarrow> str \<Rightarrow> str \<Rightarrow> 'c client \<Rightarrow> 'c answer" where
  "on_get_id lib line dflt cl = report ''GetId'' (get_id lib (account_or_default line dflt) cl)"

definition on_set_nick :: "'c clib \<Rightarrow> str \<Rightarrow> str \<Rightarrow> 'c client \<Rightarrow> 'c answer" where
  "on_set_nick lib line dflt cl =
     with_value (or_else (extract_property line ''carrier:displayName'') (extract_property line ''carrier:nick''))
       ''SetNick'' ''carrier:displayName'' cl (\<lambda>nick.
       report ''SetNick'' (set_nick lib (account_or_default line dflt) nick cl))"

definition on_set_account_config :: "'c clib \<Rightarrow> str \<Rightarrow> str \<Rightarrow> 'c client \<Rightarrow> 'c answer" where
  "on_set_account_config lib line dflt cl =
     (let account = account_or_default line dflt
      in if extract_property line ''carrier:preset'' = Some ''resonator''
         then report ''SetAccountConfig'' (apply_dht_preset lib account cl)
         else report ''SetAccountConfig'' (set_account_config lib account
           \<lparr>nc_proxy_enabled = map_option (\<lambda>v. v = ''true'') (extract_property line ''carrier:proxyEnabled''),
            nc_dht_proxy_list_url = extract_property line ''carrier:dhtProxyListUrl'',
            nc_proxy_server = extract_property line ''carrier:proxyServer'',
            nc_bootstrap = extract_property line ''carrier:bootstrap'',
            nc_turn_server = extract_property line ''carrier:turnServer'',
            nc_turn_username = extract_property line ''carrier:turnUsername'',
            nc_turn_password = extract_property line ''carrier:turnPassword''\<rparr> cl))"

definition on_send_trust_request :: "'c clib \<Rightarrow> str \<Rightarrow> str \<Rightarrow> 'c client \<Rightarrow> 'c answer" where
  "on_send_trust_request lib line dflt cl =
     with_field line ''SendTrustRequest'' ''carrier:contactUri'' cl (\<lambda>uri.
       report ''SendTrustRequest'' (send_trust_request lib (account_or_default line dflt) uri
         (or_else (extract_property line ''carrier:payload'') (extract_property line ''carrier:message'')) cl))"

definition on_accept_trust_request :: "'c clib \<Rightarrow> str \<Rightarrow> str \<Rightarrow> 'c client \<Rightarrow> 'c answer" where
  "on_accept_trust_request lib line dflt cl =
     with_field line ''AcceptTrustRequest'' ''carrier:contactUri'' cl (\<lambda>uri.
       report ''AcceptTrustRequest'' (accept_trust_request lib (account_or_default line dflt) uri cl))"

definition on_discard_trust_request :: "'c clib \<Rightarrow> str \<Rightarrow> str \<Rightarrow> 'c client \<Rightarrow> 'c answer" where
  "on_discard_trust_request lib line dflt cl =
     with_field line ''DiscardTrustRequest'' ''carrier:contactUri'' cl (\<lambda>uri.
       report ''DiscardTrustRequest'' (discard_trust_request lib (account_or_default line dflt) uri cl))"

definition on_remove_contact :: "'c clib \<Rightarrow> str \<Rightarrow> str \<Rightarrow> 'c client \<Rightarrow> 'c answer" where
  "on_remove_contact lib line dflt cl =
     with_field line ''RemoveContact'' ''carrier:contactUri'' cl (\<lambda>uri.
       report ''RemoveContact'' (remove_contact lib (account_or_default line dflt) uri cl))"

definition on_block_contact :: "'c clib \<Rightarrow> str \<Rightarrow> str \<Rightarrow> 'c client \<Rightarrow> 'c answer" where
  "on_block_contact lib line dflt cl =
     with_field line ''BlockContact'' ''carrier:contactUri'' cl (\<lambda>uri.
       report ''BlockContact'' (block_peer lib (account_or_default line dflt) uri cl))"

definition on_unblock_contact :: "'c clib \<Rightarrow> str \<Rightarrow> str \<Rightarrow> 'c client \<Rightarrow> 'c answer" where
  "on_unblock_contact lib line dflt cl =
     with_field line ''UnblockContact'' ''carrier:contactUri'' cl (\<lambda>uri.
       report ''UnblockContact'' (unblock_peer lib (account_or_default line dflt) uri cl))"

definition on_send_msg :: "'c clib \<Rightarrow> str \<Rightarrow> str \<Rightarrow> 'c client \<Rightarrow> 'c answer" where
  "on_send_msg lib line dflt cl =
     with_field line ''SendMsg'' ''carrier:contactUri'' cl (\<lambda>uri.
     with_field line ''SendMsg'' ''carrier:text'' cl (\<lambda>txt.
       report ''SendMsg'' (send_message lib (account_or_default line dflt) uri txt cl)))"

definition on_create_conversation :: "'c clib \<Rightarrow> str \<Rightarrow> str \<Rightarrow> str \<Rightarrow> 'c client \<Rightarrow> 'c answer" where
  "on_create_conversation lib local line dflt cl =
     report local (create_conversation lib (account_or_default line dflt) (extract_property line ''carrier:privacy'') cl)"

definition on_get_saved_conversation :: "'c clib \<Rightarrow> str \<Rightarrow> str \<Rightarrow> 'c client \<Rightarrow> 'c answer" where
  "on_get_saved_conversation lib line dflt cl =
     report ''GetSavedConversation'' (get_saved_conversation lib (account_or_default line dflt) cl)"

definition on_send_conversation_msg :: "'c clib \<Rightarrow> str \<Rightarrow> str \<Rightarrow> 'c client \<Rightarrow> 'c answer" where
  "on_send_conversation_msg lib line dflt cl =
     with_field line ''SendConversationMsg'' ''carrier:conversationId'' cl (\<lambda>conv.
     with_field line ''SendConversationMsg'' ''carrier:text'' cl (\<lambda>txt.
       report ''SendConversationMsg'' (send_conversation_message lib (account_or_default line dflt) conv txt cl)))"

definition on_load_conversation_messages :: "'c clib \<Rightarrow> str \<Rightarrow> str \<Rightarrow> 'c client \<Rightarrow> 'c answer" where
  "on_load_conversation_messages lib line dflt cl =
     with_field line ''LoadConversationMessages'' ''carrier:conversationId'' cl (\<lambda>conv.
       report ''LoadConversationMessages'' (load_conversation_messages lib (account_or_default line dflt) conv
         (unwrap_or (extract_property line ''carrier:fromMessage'') [])
         (unwrap_or (Option.bind (extract_property line ''carrier:limit'') (parse_uint 10 (2 ^ 64 - 1))) 0) cl))"

definition on_clear_conversation_cache :: "'c clib \<Rightarrow> str \<Rightarrow> str \<Rightarrow> 'c client \<Rightarrow> 'c answer" where
  "on_clear_conversation_cache lib line dflt cl =
     with_field line ''ClearConversationCache'' ''carrier:conversationId'' cl (\<lambda>conv.
       report ''ClearConversationCache'' (clear_conversation_cache lib (account_or_default line dflt) conv cl))"

definition on_accept_conversation_request :: "'c clib \<Rightarrow> str \<Rightarrow> str \<Rightarrow> 'c client \<Rightarrow> 'c answer" where
  "on_accept_conversation_request lib line dflt cl =
     with_field line ''AcceptConversationRequest'' ''carrier:conversationId'' cl (\<lambda>conv.
       report ''AcceptConversationRequest'' (accept_conversation_request lib (account_or_default line dflt) conv cl))"

definition on_decline_conversation_request :: "'c clib \<Rightarrow> str \<Rightarrow> str \<Rightarrow> 'c client \<Rightarrow> 'c answer" where
  "on_decline_conversation_request lib line dflt cl =
     with_field line ''DeclineConversationRequest'' ''carrier:conversationId'' cl (\<lambda>conv.
       report ''DeclineConversationRequest'' (decline_conversation_request lib (account_or_default line dflt) conv cl))"

definition on_invite_contact :: "'c clib \<Rightarrow> str \<Rightarrow> str \<Rightarrow> 'c client \<Rightarrow> 'c answer" where
  "on_invite_contact lib line dflt cl =
     with_field line ''InviteContact'' ''carrier:conversationId'' cl (\<lambda>conv.
     with_field line ''InviteContact'' ''carrier:contactUri'' cl (\<lambda>uri.
       report ''InviteContact'' (invite_to_conversation lib (account_or_default line dflt) conv uri cl)))"

definition on_remove_conversation :: "'c clib \<Rightarrow> str \<Rightarrow> str \<Rightarrow> 'c client \<Rightarrow> 'c answer" where
  "on_remove_conversation lib line dflt cl =
     with_field line ''RemoveConversation'' ''carrier:conversationId'' cl (\<lambda>conv.
       report ''RemoveConversation'' (remove_conversation lib (account_or_default line dflt) conv cl))"

definition on_send_reaction :: "'c clib \<Rightarrow> str \<Rightarrow> str \<Rightarrow> 'c client \<Rightarrow> 'c answer" where
  "on_send_reaction lib line dflt cl =
     with_field line ''SendReaction'' ''carrier:conversationId'' cl (\<lambda>conv.
     with_field line ''SendReaction'' ''carrier:messageId'' cl (\<lambda>msg.
     with_field line ''SendReaction'' ''carrier:reaction'' cl (\<lambda>react.
       report ''SendReaction'' (send_reaction lib (account_or_default line dflt) conv msg react cl))))"

definition on_presence :: "'c clib \<Rightarrow> str \<Rightarrow> str \<Rightarrow> str \<Rightarrow> 'c client \<Rightarrow> 'c answer" where
  "on_presence lib command line dflt cl =
     with_field line command ''carrier:contactUri'' cl (\<lambda>uri.
       report command (subscribe_presence lib (account_or_default line dflt) uri (command = ''SubscribePresence'') cl))"

definition on_send_file :: "'c clib \<Rightarrow> str \<Rightarrow> str \<Rightarrow> 'c client \<Rightarrow> 'c answer" where
  "on_send_file lib line dflt cl =
     with_field line ''SendFile'' ''carrier:conversationId'' cl (\<lambda>conv.
     with_field line ''SendFile'' ''carrier:path'' cl (\<lambda>path.
       report ''SendFile'' (send_file lib (account_or_default line dflt) conv path
         (or_else (extract_property line ''carrier:filename'') (extract_property line ''carrier:displayName'')) cl)))"

definition on_accept_file :: "'c clib \<Rightarrow> str \<Rightarrow> str \<Rightarrow> 'c client \<Rightarrow> 'c answer" where
  "on_accept_file lib line dflt cl =
     with_field line ''AcceptFile'' ''carrier:conversationId'' cl (\<lambda>conv.
     with_field line ''AcceptFile'' ''carrier:messageId'' cl (\<lambda>msg.
     with_field line ''AcceptFile'' ''carrier:fileId'' cl (\<lambda>fid.
     with_field line ''AcceptFile'' ''carrier:path'' cl (\<lambda>path.
       report ''AcceptFile'' (accept_file lib (account_or_default line dflt) conv msg fid path cl)))))"

definition on_cancel_file :: "'c clib \<Rightarrow> str \<Rightarrow> str \<Rightarrow> 'c client \<Rightarrow> 'c answer" where
  "on_cancel_file lib line dflt cl =
     with_field line ''CancelFile'' ''carrier:conversationId'' cl (\<lambda>conv.
     with_field line ''CancelFile'' ''carrier:fileId'' cl (\<lambda>fid.
       report ''CancelFile'' (cancel_file lib (account_or_default line dflt) conv fid cl)))"

definition on_link_device :: "'c clib \<Rightarrow> 'c client \<Rightarrow> 'c answer" where
  "on_link_device lib cl = report ''LinkDevice'' (create_linking_account lib cl)"

definition on_authorize_device :: "'c clib \<Rightarrow> str \<Rightarrow> str \<Rightarrow> 'c client \<Rightarrow> 'c answer" where
  "on_authorize_device lib line dflt cl =
     with_field line ''AuthorizeDevice'' ''carrier:pin'' cl (\<lambda>pin.
       report ''AuthorizeDevice'' (authorize_device lib (account_or_default line dflt) pin cl))"

definition on_revoke_device :: "'c clib \<Rightarrow> str \<Rightarrow> str \<Rightarrow> 'c client \<Rightarrow> 'c answer" where
  "on_revoke_device lib line dflt cl =
     with_field line ''RevokeDevice'' ''carrier:contactUri'' cl (\<lambda>device_id.
       report ''RevokeDevice'' (revoke_device lib (account_or_default line dflt) device_id cl))"

text \<open>The commands in the order of the \<open>match\<close>; any other is only logged.\<close>

definition handle_carrier :: "'c clib \<Rightarrow> str \<Rightarrow> str \<Rightarrow> str \<Rightarrow> 'c client \<Rightarrow> 'c answer" where
  "handle_carrier lib line rdf_type dflt cl =
     (let local = drop (length carrier_ns) rdf_type
      in if local = ''CreateAccount'' \<or> local = ''ImportAccount'' then on_create_account lib local line cl
         else if local = ''ExportAccount'' then on_export_account lib line dflt cl
         else if local = ''LoadAccount'' then on_load_account lib line cl
         else if local = ''GetId'' then on_get_id lib line dflt cl
         else if local = ''SetNick'' then on_set_nick lib line dflt cl
         else if local = ''SetAccountConfig'' then on_set_account_config lib line dflt cl
         else if local = ''SendTrustRequest'' then on_send_trust_request lib line dflt cl
         else if local = ''AcceptTrustRequest'' then on_accept_trust_request lib line dflt cl
         else if local = ''DiscardTrustRequest'' then on_discard_trust_request lib line dflt cl
         else if local = ''RemoveContact'' then on_remove_contact lib line dflt cl
         else if local = ''BlockContact'' then on_block_contact lib line dflt cl
         else if local = ''UnblockContact'' then on_unblock_contact lib line dflt cl
         else if local = ''SendMsg'' then on_send_msg lib line dflt cl
         else if local = ''CreateConversation'' \<or> local = ''CreateGroup'' then on_create_conversation lib local line dflt cl
         else if local = ''GetSavedConversation'' then on_get_saved_conversation lib line dflt cl
         else if local = ''SendConversationMsg'' then on_send_conversation_msg lib line dflt cl
         else if local = ''LoadConversationMessages'' then on_load_conversation_messages lib line dflt cl
         else if local = ''ClearConversationCache'' then on_clear_conversation_cache lib line dflt cl
         else if local = ''AcceptConversationRequest'' then on_accept_conversation_request lib line dflt cl
         else if local = ''DeclineConversationRequest'' then on_decline_conversation_request lib line dflt cl
         else if local = ''InviteContact'' then on_invite_contact lib line dflt cl
         else if local = ''RemoveConversation'' then on_remove_conversation lib line dflt cl
         else if local = ''SendReaction'' then on_send_reaction lib line dflt cl
         else if local = ''SubscribePresence'' \<or> local = ''UnsubscribePresence'' then on_presence lib local line dflt cl
         else if local = ''SendFile'' then on_send_file lib line dflt cl
         else if local = ''AcceptFile'' then on_accept_file lib line dflt cl
         else if local = ''CancelFile'' then on_cancel_file lib line dflt cl
         else if local = ''LinkDevice'' then on_link_device lib cl
         else if local = ''AuthorizeDevice'' then on_authorize_device lib line dflt cl
         else if local = ''RevokeDevice'' then on_revoke_device lib line dflt cl
         else (cl, []))"

section \<open>Routing\<close>

definition route :: "('s, 'c) env \<Rightarrow> str \<Rightarrow> str \<Rightarrow> str \<Rightarrow> ('s, 'c) world \<Rightarrow> ('s, 'c) world option" where
  "route env line dflt rdf_type w =
     (if starts_with sp_ns rdf_type then Some (handle_spin env line rdf_type w)
      else if starts_with carrier_ns rdf_type
      then Some (case w_client w of
             Some cl \<Rightarrow> (case handle_carrier (e_lib env) line rdf_type dflt cl of
                 (cl', msgs) \<Rightarrow> fold say msgs (w\<lparr>w_client := Some cl'\<rparr>))
           | None \<Rightarrow> w)
      else if starts_with design_ns rdf_type then handle_design env rdf_type w
      else if rdf_type = antenna_ns @ ''SubscribeBlocklist'' then Some (handle_subscribe_blocklist env line w)
      else Some (insert_with_dag env line w))"

definition dispatch :: "('s, 'c) env \<Rightarrow> str \<Rightarrow> str \<Rightarrow> ('s, 'c) world \<Rightarrow> ('s, 'c) world option" where
  "dispatch env line dflt w =
     (if line = [] \<or> starts_with ''#'' line then Some w
      else let line = strip_leading_directives line
           in if line = [] then Some w
              else case extract_rdf_type line of
                     None \<Rightarrow> Some (insert_with_dag env line w)
                   | Some rdf_type \<Rightarrow> route env line dflt rdf_type w)"

section \<open>The carrier commands as a table\<close>

text \<open>What a command needs in its line, under the names its error uses, and the call it makes.\<close>

datatype need = Field str | Nonempty str | Either str str

fun needed :: "str \<Rightarrow> need \<Rightarrow> str option" where
  "needed line (Field f) = extract_property line f"
| "needed line (Nonempty f) = nonempty_property line f"
| "needed line (Either f g) = or_else (extract_property line f) (extract_property line g)"

fun need_name :: "need \<Rightarrow> str" where
  "need_name (Field f) = f"
| "need_name (Nonempty f) = f"
| "need_name (Either f g) = f"

text \<open>The values of the needs, or the name of the first that is missing.\<close>

fun gather :: "str \<Rightarrow> need list \<Rightarrow> str + str list" where
  "gather line [] = Inr []"
| "gather line (n # ns) =
     (case needed line n of
        None \<Rightarrow> Inl (need_name n)
      | Some v \<Rightarrow> and_then (gather line ns) (\<lambda>vs. Inr (v # vs)))"

definition line_config :: "str \<Rightarrow> net_config" where
  "line_config line =
     \<lparr>nc_proxy_enabled = map_option (\<lambda>v. v = ''true'') (extract_property line ''carrier:proxyEnabled''),
      nc_dht_proxy_list_url = extract_property line ''carrier:dhtProxyListUrl'',
      nc_proxy_server = extract_property line ''carrier:proxyServer'',
      nc_bootstrap = extract_property line ''carrier:bootstrap'',
      nc_turn_server = extract_property line ''carrier:turnServer'',
      nc_turn_username = extract_property line ''carrier:turnUsername'',
      nc_turn_password = extract_property line ''carrier:turnPassword''\<rparr>"

text \<open>A call from the line, the account and the values of the needs.\<close>

type_synonym caller = "str \<Rightarrow> str \<Rightarrow> str list \<Rightarrow> ccall"

definition create_call :: caller where
  "create_call line acc vs = C_create_account (extract_property line ''carrier:displayName'')
     (nonempty_property line ''carrier:archivePath'') (nonempty_property line ''carrier:archivePassword'')"

definition conversation_call :: caller where
  "conversation_call line acc vs = C_create_conversation acc (extract_property line ''carrier:privacy'')"

definition command_table :: "(str \<times> need list \<times> caller) list" where
  "command_table =
    [(''CreateAccount'', [], create_call),
     (''ImportAccount'', [], create_call),
     (''ExportAccount'', [Field ''carrier:path''], \<lambda>line acc vs.
        C_export_account acc (vs ! 0) (nonempty_property line ''carrier:archivePassword'')),
     (''LoadAccount'', [Nonempty ''carrier:account''], \<lambda>line acc vs. C_load_account (vs ! 0)),
     (''GetId'', [], \<lambda>line acc vs. C_get_id acc),
     (''SetNick'', [Either ''carrier:displayName'' ''carrier:nick''], \<lambda>line acc vs. C_set_nick acc (vs ! 0)),
     (''SetAccountConfig'', [], \<lambda>line acc vs.
        if extract_property line ''carrier:preset'' = Some ''resonator'' then C_apply_dht_preset acc
        else config_call acc (line_config line)),
     (''SendTrustRequest'', [Field ''carrier:contactUri''], \<lambda>line acc vs.
        C_send_trust_request acc (vs ! 0)
          (or_else (extract_property line ''carrier:payload'') (extract_property line ''carrier:message''))),
     (''AcceptTrustRequest'', [Field ''carrier:contactUri''], \<lambda>line acc vs. C_accept_trust_request acc (vs ! 0)),
     (''DiscardTrustRequest'', [Field ''carrier:contactUri''], \<lambda>line acc vs. C_discard_trust_request acc (vs ! 0)),
     (''RemoveContact'', [Field ''carrier:contactUri''], \<lambda>line acc vs. C_remove_contact acc (vs ! 0)),
     (''BlockContact'', [Field ''carrier:contactUri''], \<lambda>line acc vs. C_block_peer acc (vs ! 0)),
     (''UnblockContact'', [Field ''carrier:contactUri''], \<lambda>line acc vs. C_unblock_peer acc (vs ! 0)),
     (''SendMsg'', [Field ''carrier:contactUri'', Field ''carrier:text''], \<lambda>line acc vs.
        C_send_message acc (vs ! 0) (vs ! 1)),
     (''CreateConversation'', [], conversation_call),
     (''CreateGroup'', [], conversation_call),
     (''GetSavedConversation'', [], \<lambda>line acc vs. C_get_saved_conversation acc),
     (''SendConversationMsg'', [Field ''carrier:conversationId'', Field ''carrier:text''], \<lambda>line acc vs.
        C_send_conversation_message acc (vs ! 0) (vs ! 1)),
     (''LoadConversationMessages'', [Field ''carrier:conversationId''], \<lambda>line acc vs.
        C_load_conversation_messages acc (vs ! 0) (unwrap_or (extract_property line ''carrier:fromMessage'') [])
          (unwrap_or (Option.bind (extract_property line ''carrier:limit'') (parse_uint 10 (2 ^ 64 - 1))) 0)),
     (''ClearConversationCache'', [Field ''carrier:conversationId''], \<lambda>line acc vs.
        C_clear_conversation_cache acc (vs ! 0)),
     (''AcceptConversationRequest'', [Field ''carrier:conversationId''], \<lambda>line acc vs.
        C_accept_conversation_request acc (vs ! 0)),
     (''DeclineConversationRequest'', [Field ''carrier:conversationId''], \<lambda>line acc vs.
        C_decline_conversation_request acc (vs ! 0)),
     (''InviteContact'', [Field ''carrier:conversationId'', Field ''carrier:contactUri''], \<lambda>line acc vs.
        C_invite_to_conversation acc (vs ! 0) (vs ! 1)),
     (''RemoveConversation'', [Field ''carrier:conversationId''], \<lambda>line acc vs. C_remove_conversation acc (vs ! 0)),
     (''SendReaction'', [Field ''carrier:conversationId'', Field ''carrier:messageId'', Field ''carrier:reaction''],
        \<lambda>line acc vs. C_send_reaction acc (vs ! 0) (vs ! 1) (vs ! 2)),
     (''SubscribePresence'', [Field ''carrier:contactUri''], \<lambda>line acc vs. C_subscribe_presence acc (vs ! 0) True),
     (''UnsubscribePresence'', [Field ''carrier:contactUri''], \<lambda>line acc vs. C_subscribe_presence acc (vs ! 0) False),
     (''SendFile'', [Field ''carrier:conversationId'', Field ''carrier:path''], \<lambda>line acc vs.
        C_send_file acc (vs ! 0) (vs ! 1)
          (or_else (extract_property line ''carrier:filename'') (extract_property line ''carrier:displayName''))),
     (''AcceptFile'', [Field ''carrier:conversationId'', Field ''carrier:messageId'', Field ''carrier:fileId'',
        Field ''carrier:path''], \<lambda>line acc vs. C_accept_file acc (vs ! 0) (vs ! 1) (vs ! 2) (vs ! 3)),
     (''CancelFile'', [Field ''carrier:conversationId'', Field ''carrier:fileId''], \<lambda>line acc vs.
        C_cancel_file acc (vs ! 0) (vs ! 1)),
     (''LinkDevice'', [], \<lambda>line acc vs. C_create_linking_account),
     (''AuthorizeDevice'', [Field ''carrier:pin''], \<lambda>line acc vs. C_authorize_device acc (vs ! 0)),
     (''RevokeDevice'', [Field ''carrier:contactUri''], \<lambda>line acc vs. C_revoke_device acc (vs ! 0))]"

text \<open>The two commands that create an account note where its archive is to be exported.\<close>

definition prepared :: "str \<Rightarrow> str \<Rightarrow> 'c client \<Rightarrow> 'c client" where
  "prepared command line cl =
     (if command \<in> {''CreateAccount'', ''ImportAccount''}
      then case nonempty_property line ''carrier:autoExportPath'' of
             Some p \<Rightarrow> set_pending_auto_export p cl
           | None \<Rightarrow> cl
      else cl)"

definition table_answer ::
  "'c clib \<Rightarrow> str \<Rightarrow> str \<Rightarrow> str \<Rightarrow> 'c client \<Rightarrow> need list \<times> caller \<Rightarrow> 'c answer" where
  "table_answer lib command line dflt cl entry =
     (case gather line (fst entry) of
        Inl field \<Rightarrow> (cl, [missing_field command field])
      | Inr vs \<Rightarrow> report command (method_spec lib (snd entry line (account_or_default line dflt) vs)
          (prepared command line cl)))"

lemma report_plain: "plain_result r = s \<Longrightarrow> report command r = report command s"
  by (cases "snd r") (auto simp: report_def plain_result_def)

lemma report_id: "id_result r = s \<Longrightarrow> report command r = report command s"
  by (cases "snd r") (auto simp: report_def id_result_def)

lemmas report_specs = client_method.simps(1-12,14-26,28-30) [THEN method_is_spec, THEN report_plain]
  client_method.simps(13,27,31) [THEN method_is_spec, THEN report_id]
  set_account_config_spec [THEN report_plain]

lemmas arm_defs = on_create_account_def on_create_conversation_def on_link_device_def on_export_account_def on_load_account_def on_get_id_def on_set_nick_def
  on_set_account_config_def on_send_trust_request_def on_accept_trust_request_def on_discard_trust_request_def
  on_remove_contact_def on_block_contact_def on_unblock_contact_def on_send_msg_def on_get_saved_conversation_def
  on_send_conversation_msg_def on_load_conversation_messages_def on_clear_conversation_cache_def
  on_accept_conversation_request_def on_decline_conversation_request_def on_invite_contact_def
  on_remove_conversation_def on_send_reaction_def on_presence_def on_send_file_def on_accept_file_def
  on_cancel_file_def on_authorize_device_def on_revoke_device_def

lemma table_rows:
  "list_all (\<lambda>(command, entry). handle_carrier lib line (carrier_ns @ command) dflt cl =
      table_answer lib command line dflt cl entry) command_table"
  unfolding command_table_def list.pred_inject prod.case
  by (intro conjI TrueI;
      simp add: handle_carrier_def table_answer_def prepared_def arm_defs report_specs with_value_def
        create_call_def conversation_call_def line_config_def Let_def split: option.split)

lemma command_answers:
  assumes "map_of command_table command = Some entry"
  shows "handle_carrier lib line (carrier_ns @ command) dflt cl = table_answer lib command line dflt cl entry"
  using map_of_SomeD [OF assms] table_rows [of lib line dflt cl] by (auto simp: list_all_iff)

lemma unknown_command:
  assumes "map_of command_table command = None"
  shows "handle_carrier lib line (carrier_ns @ command) dflt cl = (cl, [])"
proof -
  have "command \<notin> set (map fst command_table)"
    using assms by (simp add: map_of_eq_None_iff)
  then show ?thesis unfolding command_table_def by (simp add: handle_carrier_def)
qed

section \<open>Answers are records\<close>

lemma dispatch_escape_eq: "dispatch_escape s = carrier_escape s"
  by (simp add: dispatch_lit.esc_concat carrier_lit.esc_concat)

definition error_record :: "str \<Rightarrow> str \<times> (str \<times> field_value) list" where
  "error_record text = (''antenna:Error'', [(''antenna:message'', Lit text)])"

lemma antenna_error_reads_back:
  "read_record (antenna_error (dispatch_escape text)) = Some (error_record text)"
proof -
  have "antenna_error (dispatch_escape text) = render_record (error_record text)"
    by (simp add: antenna_error_def quoted_def dispatch_escape_eq render_record_def render_field_def error_record_def)
  then show ?thesis using read_record_render [of "''antenna:Error''" "[(''antenna:message'', Lit text)]"]
    by (simp add: error_record_def newline_def)
qed

text \<open>A text that needs no escape stands for itself.\<close>

definition tame :: "str \<Rightarrow> bool" where
  "tame s \<longleftrightarrow> list_all (\<lambda>c. c \<noteq> quote \<and> c \<noteq> backslash \<and> c \<noteq> newline \<and> c \<noteq> creturn) s"

lemma tame_escape: "tame s \<Longrightarrow> dispatch_escape s = s"
  by (rule dispatch_lit.esc_id) (auto simp: tame_def list_all_iff)

lemma tame_escape_append: "tame s \<Longrightarrow> dispatch_escape (s @ t) = s @ dispatch_escape t"
  by (simp add: dispatch_lit.esc_append tame_escape)

lemma tame_append [simp]: "tame (s @ t) \<longleftrightarrow> tame s \<and> tame t"
  by (auto simp: tame_def)

lemma tame_words: "tame '' missing ''" "tame '' failed: ''"
  by code_simp+

lemma missing_field_reads_back:
  assumes "tame command" "tame field"
  shows "read_record (missing_field command field) = Some (error_record (command @ '' missing '' @ field))"
proof -
  have "tame (command @ '' missing '' @ field)" using assms tame_words by (simp only: tame_append)
  from antenna_error_reads_back [of "command @ '' missing '' @ field", unfolded tame_escape [OF this]]
  show ?thesis by (simp only: missing_field_def)
qed

lemma carrier_error_reads_back:
  assumes "tame command"
  shows "read_record (carrier_error command e) = Some (error_record (command @ '' failed: '' @ e))"
proof -
  have "tame (command @ '' failed: '')" using assms tame_words by (simp only: tame_append)
  from antenna_error_reads_back [of "(command @ '' failed: '') @ e", unfolded tame_escape_append [OF this]]
  show ?thesis by (simp only: carrier_error_def append_assoc)
qed

lemma report_reads_back:
  "tame command \<Longrightarrow> snd (report command r) = [] \<or>
    (\<exists>msg text. snd (report command r) = [msg] \<and> read_record msg = Some (error_record text))"
  using carrier_error_reads_back by (auto simp: report_def split: sum.split)

lemma gather_missing: "gather line ns = Inl field \<Longrightarrow> field \<in> need_name ` set ns"
  by (induction line ns rule: gather.induct) (auto split: option.splits sum.splits elim!: and_then.elims)

lemma table_tame_commands: "list_all (\<lambda>(command, entry). tame command) command_table"
  unfolding command_table_def by (simp add: tame_def char_names)

lemma table_tame_needs: "list_all (\<lambda>(command, needs, call). list_all (\<lambda>n. tame (need_name n)) needs) command_table"
  unfolding command_table_def list.pred_inject prod.case need_name.simps by (simp add: tame_def char_names)

lemma table_answer_reads_back:
  assumes "map_of command_table command = Some entry"
  shows "snd (table_answer lib command line dflt cl entry) = [] \<or>
    (\<exists>msg text. snd (table_answer lib command line dflt cl entry) = [msg] \<and> read_record msg = Some (error_record text))"
proof -
  have tame: "tame command" "\<forall>n \<in> set (fst entry). tame (need_name n)"
    using map_of_SomeD [OF assms] table_tame_commands table_tame_needs by (auto simp: list_all_iff)
  show ?thesis
  proof (cases "gather line (fst entry)")
    case (Inl field)
    then show ?thesis
      using gather_missing [OF Inl] missing_field_reads_back [OF tame(1)] tame(2) by (auto simp: table_answer_def)
  next
    case (Inr vs)
    then show ?thesis using report_reads_back [OF tame(1)] by (simp add: table_answer_def)
  qed
qed

section \<open>What a dispatch leaves alone\<close>

lemma say_simps [simp]:
  "w_store (say l w) = w_store w" "w_dag (say l w) = w_dag w" "w_client (say l w) = w_client w"
  "w_out (say l w) = w_out w @ [l]"
  by (simp_all add: say_def)

lemma fold_say: "fold say ls w = w\<lparr>w_out := w_out w @ ls\<rparr>"
  by (induction ls arbitrary: w) (simp_all add: say_def)

lemma fold_say_map: "fold (\<lambda>x w. say (f x) w) xs w = w\<lparr>w_out := w_out w @ map f xs\<rparr>"
  using fold_say [of "map f xs" w] by (simp add: fold_map o_def)

text \<open>The answers so far stay; the graph keeps its shape.\<close>

definition extends :: "('s, 'c) world \<Rightarrow> ('s, 'c) world \<Rightarrow> bool" where
  "extends w w' \<longleftrightarrow> (\<exists>sent. w_out w' = w_out w @ sent) \<and>
     dg_writers (w_dag w') = dg_writers (w_dag w) \<and> dg_threads (w_dag w') = dg_threads (w_dag w) \<and>
     dg_routes (w_dag w') = dg_routes (w_dag w) \<and> length (dg_rings (w_dag w')) = length (dg_rings (w_dag w))"

lemma extends_refl [simp]: "extends w w"
  by (simp add: extends_def)

lemma extends_trans: "extends w w1 \<Longrightarrow> extends w1 w2 \<Longrightarrow> extends w w2"
  by (auto simp: extends_def)

lemma extends_say [simp]: "extends w (say l w)"
  by (simp add: extends_def)

text \<open>Changes of the answers only, of the store and the answers, of everything but the client.\<close>

definition only_answers :: "('s, 'c) world \<Rightarrow> ('s, 'c) world \<Rightarrow> bool" where
  "only_answers w w' \<longleftrightarrow> w_store w' = w_store w \<and> w_dag w' = w_dag w \<and> w_client w' = w_client w \<and>
     (\<exists>sent. w_out w' = w_out w @ sent)"

definition store_and_answers :: "('s, 'c) world \<Rightarrow> ('s, 'c) world \<Rightarrow> bool" where
  "store_and_answers w w' \<longleftrightarrow> w_dag w' = w_dag w \<and> w_client w' = w_client w \<and> (\<exists>sent. w_out w' = w_out w @ sent)"

definition not_client :: "('s, 'c) world \<Rightarrow> ('s, 'c) world \<Rightarrow> bool" where
  "not_client w w' \<longleftrightarrow> extends w w' \<and> w_client w' = w_client w"

lemma fold_frame:
  assumes "\<And>w. R w w" "\<And>a b c. R a b \<Longrightarrow> R b c \<Longrightarrow> R a c" "\<And>x w. R w (f x w)"
  shows "R w (fold f xs w)"
  by (induction xs arbitrary: w) (auto intro: assms)

lemma only_answers_refl [simp]: "only_answers w w"
  by (simp add: only_answers_def)

lemma only_answers_trans: "only_answers a b \<Longrightarrow> only_answers b c \<Longrightarrow> only_answers a c"
  by (auto simp: only_answers_def)

lemma only_answers_say [simp]: "only_answers w (say l w)"
  by (simp add: only_answers_def)

lemma store_and_answers_trans: "store_and_answers a b \<Longrightarrow> store_and_answers b c \<Longrightarrow> store_and_answers a c"
  by (auto simp: store_and_answers_def)

lemma only_answers_store: "only_answers w w' \<Longrightarrow> store_and_answers w w'"
  by (simp add: only_answers_def store_and_answers_def)

lemma store_and_answers_refl [simp]: "store_and_answers w w"
  by (rule only_answers_store) simp

lemma not_client_refl [simp]: "not_client w w"
  by (simp add: not_client_def)

lemma not_client_trans: "not_client a b \<Longrightarrow> not_client b c \<Longrightarrow> not_client a c"
  by (auto simp: not_client_def intro: extends_trans)

lemma store_and_answers_frame: "store_and_answers w w' \<Longrightarrow> extends w w' \<and> w_dag w' = w_dag w \<and> w_client w' = w_client w"
  by (auto simp: store_and_answers_def extends_def)

lemma only_answers_frame: "only_answers w w' \<Longrightarrow> extends w w' \<and> w_store w' = w_store w \<and> w_dag w' = w_dag w \<and> w_client w' = w_client w"
  by (auto simp: only_answers_def extends_def)

lemma not_client_say [simp]: "not_client w (say l w)"
  by (simp add: not_client_def)

lemma insert_with_dag_frame: "not_client w (insert_with_dag env line w)"
  by (auto simp: not_client_def insert_with_dag_def extends_def before_insert_def after_insert_def Let_def
    split: prod.split sum.split)

lemma handle_subscribe_blocklist_frame: "not_client w (handle_subscribe_blocklist env line w)"
proof -
  have "not_client w (fold (\<lambda>uri. insert_with_dag env (blocklist_apply uri)) xs w)" for xs
    by (rule fold_frame [of not_client]) (auto intro: not_client_trans insert_with_dag_frame)
  then show ?thesis
    by (simp add: handle_subscribe_blocklist_def insert_with_dag_frame split: prod.split option.split sum.split)
qed

lemma fold_only_answers: "(\<And>x w. only_answers w (f x w)) \<Longrightarrow> only_answers w (fold f xs w)"
  by (rule fold_frame [of only_answers]) (auto intro: only_answers_trans)

lemma handle_design_frame:
  assumes "handle_design env rdf_type w = Some w'"
  shows "only_answers w w'"
proof (cases "drop (length design_ns) rdf_type = ''ResolveActiveTheme''")
  case True
  then obtain z where z: "resolve_active_theme (e_ox env) (w_store w) = Some z"
    using assms by (auto simp: handle_design_def)
  have "only_answers w (say l (fold (\<lambda>t. say (show_triple ox t)) ts w))" for l ox ts
    by (rule only_answers_trans [OF fold_only_answers only_answers_say]) simp
  then show ?thesis
    using assms True z by (cases z) (auto simp: handle_design_def)
next
  case False
  then show ?thesis using assms by (auto simp: handle_design_def)
qed

lemma spin_select_frame: "only_answers w (spin_select env q w)"
  by (auto simp: spin_select_def sparql_failed_def say_row_def intro!: fold_only_answers
    split: sum.split query_results.split)

lemma spin_ask_frame: "only_answers w (spin_ask env q w)"
  by (auto simp: spin_ask_def sparql_failed_def split: sum.split)

lemma construct_triple_frame: "store_and_answers w (construct_triple ox t w)"
  by (simp add: construct_triple_def store_and_answers_def Let_def)

lemma spin_construct_frame: "store_and_answers w (spin_construct env q w)"
proof -
  have "store_and_answers w (fold (construct_triple ox) ts w)" for ox ts
    by (rule fold_frame [of store_and_answers]) (auto intro: store_and_answers_trans construct_triple_frame)
  then show ?thesis
    by (auto simp: spin_construct_def sparql_failed_def intro: only_answers_store
      split: sum.split query_results.split)
qed

lemma spin_update_frame: "store_and_answers w (spin_update env q w)"
  by (auto simp: spin_update_def sparql_failed_def store_and_answers_def split: prod.split sum.split)

lemma handle_spin_frame: "store_and_answers w (handle_spin env line rdf_type w)"
  by (simp add: handle_spin_def Let_def only_answers_store spin_select_frame spin_ask_frame spin_construct_frame
    spin_update_frame split: option.split)

lemma route_frame:
  assumes "route env line dflt t w = Some w'"
  shows "extends w w'"
    "starts_with carrier_ns t \<or> w_client w' = w_client w"
    "starts_with sp_ns t \<or> starts_with carrier_ns t \<or> starts_with design_ns t \<Longrightarrow> w_dag w' = w_dag w"
    "starts_with carrier_ns t \<or> starts_with design_ns t \<Longrightarrow> w_store w' = w_store w"
proof -
  have disjoint: "\<not> (starts_with sp_ns t \<and> (starts_with carrier_ns t \<or> starts_with design_ns t))"
    by (auto simp: starts_with_iff sp_ns_def carrier_ns_def design_ns_def)
  have client: "extends w (fold say msgs (w\<lparr>w_client := cl\<rparr>))" for msgs cl
    by (simp add: fold_say extends_def)
  note frames = store_and_answers_frame [OF handle_spin_frame [of w env line t]]
    insert_with_dag_frame [of w env line, unfolded not_client_def]
    handle_subscribe_blocklist_frame [of w env line, unfolded not_client_def]
  show "extends w w'" "starts_with carrier_ns t \<or> w_client w' = w_client w"
    "starts_with sp_ns t \<or> starts_with carrier_ns t \<or> starts_with design_ns t \<Longrightarrow> w_dag w' = w_dag w"
    "starts_with carrier_ns t \<or> starts_with design_ns t \<Longrightarrow> w_store w' = w_store w"
    using assms disjoint frames client only_answers_frame [OF handle_design_frame, of env t w w']
    by (auto simp: route_def fold_say split: if_splits option.splits prod.splits)
qed

lemma map_option_Some_ex: "map_option f x \<noteq> None \<longleftrightarrow> x \<noteq> None"
  by simp

lemma apply_reads_back:
  assumes "newline \<notin> set uri" "creturn \<notin> set uri"
  shows "read_record (blocklist_apply uri) = Some (''antenna:BlocklistApply'', [(''antenna:contactUri'', Lit (sanitize uri))])"
proof -
  have "carrier_escape (sanitize uri) = sanitize uri"
    by (rule carrier_lit.esc_id) (use assms in \<open>auto simp: sanitize_def\<close>)
  then have "blocklist_apply uri =
      render_record (''antenna:BlocklistApply'', [(''antenna:contactUri'', Lit (sanitize uri))])"
    by (simp add: blocklist_apply_def quoted_def render_record_def render_field_def)
  then show ?thesis
    using read_record_render [of "''antenna:BlocklistApply''" "[(''antenna:contactUri'', Lit (sanitize uri))]"]
    by (simp add: newline_def)
qed

lemma entry_text:
  assumes "uri \<in> set (parse_entries text)"
  shows "uri \<noteq> [] \<and> newline \<notin> set uri"
proof -
  obtain p where p: "p \<in> set (split_incl text)" "uri = trim (chop_line p)" "uri \<noteq> []"
    using assms by (auto simp: parse_entries_def lines_of_def)
  obtain m c where mc: "p = m @ [c]" using split_incl_nonempty [OF p(1)] by (metis rev_exhaust)
  have "newline \<notin> set m" using split_incl_inside [OF p(1)] mc by simp
  then have "newline \<notin> set (chop_line p)"
    using mc by (auto simp: chop_line_def Let_def dest: in_set_butlastD)
  moreover have "set (trim (chop_line p)) \<subseteq> set (chop_line p)"
    using trim_infix [of "chop_line p"] by (metis set_append sup_ge1 sup_ge2 order_trans)
  ultimately show ?thesis using p(2,3) by auto
qed

lemma verified:
  assumes "verify_signed_blocklist cr p s key = Inr entries"
  shows "\<exists>payload sig. base64_decode cr (trim p) = Some payload \<and> base64_decode cr (trim s) = Some sig \<and>
    length sig = 64 \<and> ed25519_verify cr key payload sig \<and> entries = parse_entries payload"
  using assms by (auto simp: verify_signed_blocklist_def and_then_Inr_iff from_utf8_def split: if_splits)

text \<open>The answer to a row as a record.\<close>

definition row_record :: "'s oxigraph \<Rightarrow> solution \<Rightarrow> str \<times> (str \<times> field_value) list" where
  "row_record ox sol =
     (''antenna:Result'', map (\<lambda>(var, term). (''antenna:var_'' @ var, Lit (ox_show ox term))) sol)"

lemma join_fields:
  "parts \<noteq> [] \<Longrightarrow> '' ; '' @ join '' ; '' parts = concat (map ((@) '' ; '') parts)"
  by (induction "'' ; ''" parts rule: join.induct) simp_all

lemma say_row_eq:
  "say_row ox sol w = (if sol = [] then w else say (render_record (row_record ox sol)) w)"
proof (cases "sol = []")
  case True
  then show ?thesis by (simp add: say_row_def result_parts_def)
next
  case False
  then have "result_parts ox sol \<noteq> []" by (simp add: result_parts_def)
  moreover have "concat (map ((@) '' ; '') (result_parts ox sol)) = concat (map render_field (snd (row_record ox sol)))"
    by (simp add: result_parts_def row_record_def o_def split_beta render_field_def quoted_def dispatch_escape_eq
        del: append_Cons)
  ultimately have "''[] a antenna:Result ; '' @ join '' ; '' (result_parts ox sol) @ '' .''
      = render_record (row_record ox sol)"
    using join_fields [of "result_parts ox sol"]
    by (simp add: render_record_def row_record_def)
  then show ?thesis using False \<open>result_parts ox sol \<noteq> []\<close> by (simp add: say_row_def)
qed

lemma fold_say_row:
  "fold (say_row ox) sols w =
     w\<lparr>w_out := w_out w @ map (render_record \<circ> row_record ox) (filter (\<lambda>sol. sol \<noteq> []) sols)\<rparr>"
  by (induction sols arbitrary: w) (simp_all add: say_row_eq say_def)

lemma row_reads_back:
  assumes "\<forall>(var, term) \<in> set sol. CHR '' '' \<notin> set var \<and> newline \<notin> set var"
  shows "read_record (render_record (row_record ox sol)) = Some (row_record ox sol)"
proof -
  have "\<forall>f \<in> set (snd (row_record ox sol)). readable f"
    using assms by (auto simp: row_record_def newline_def)
  then show ?thesis
    using read_record_render [of "''antenna:Result''" "snd (row_record ox sol)"]
    by (simp add: row_record_def newline_def)
qed

lemma dispatch_total:
  assumes "extract_rdf_type (strip_leading_directives line) = Some (design_ns @ ''ResolveActiveTheme'') \<Longrightarrow>
      finite_themes (e_ox env) (w_store w)"
  shows "\<exists>w'. dispatch env line dflt w = Some w'"
proof -
  have design: "handle_design env c w \<noteq> None"
    if t: "extract_rdf_type (strip_leading_directives line) = Some c" and d: "starts_with design_ns c" for c
  proof (cases "drop (length design_ns) c = ''ResolveActiveTheme''")
    case True
    then have c: "c = design_ns @ ''ResolveActiveTheme''" using d by (auto simp: starts_with_iff)
    have "resolve_active_theme (e_ox env) (w_store w) \<noteq> None"
      by (rule resolve_active_theme_returns [OF assms [OF t [unfolded c]]])
    then show ?thesis using True by (simp add: handle_design_def)
  next
    case False
    then show ?thesis by (simp add: handle_design_def)
  qed
  show ?thesis
  proof (cases "extract_rdf_type (strip_leading_directives line)")
    case None
    then show ?thesis by (simp add: dispatch_def Let_def)
  next
    case (Some c)
    then have "route env (strip_leading_directives line) dflt c w \<noteq> None"
      using design [OF Some] by (simp add: route_def)
    then show ?thesis using Some by (simp add: dispatch_def Let_def)
  qed
qed

lemma dispatch_extends:
  assumes "dispatch env line dflt w = Some w'"
  shows "extends w w'"
proof -
  have "not_client w (insert_with_dag env l w)" for l by (rule insert_with_dag_frame)
  then show ?thesis
    using assms route_frame(1) by (auto simp: dispatch_def not_client_def Let_def split: if_splits option.splits)
qed

lemma dispatch_keeps_client:
  assumes "dispatch env line dflt w = Some w'" "w_client w \<noteq> None"
  shows "w_client w' \<noteq> None"
proof -
  have "w_client v' \<noteq> None" if "route env l dflt t v = Some v'" "w_client v \<noteq> None" for t l and v v'
  proof (cases "starts_with sp_ns t \<or> \<not> starts_with carrier_ns t")
    case True
    moreover have "\<not> (starts_with sp_ns t \<and> starts_with carrier_ns t)"
      by (auto simp: starts_with_iff sp_ns_def carrier_ns_def)
    ultimately show ?thesis using route_frame(2) [OF that(1)] that(2) by auto
  next
    case False
    then show ?thesis using that by (auto simp: route_def fold_say split: option.splits prod.splits)
  qed
  then show ?thesis
    using assms insert_with_dag_frame [of w env] unfolding dispatch_def Let_def not_client_def
    by (auto split: if_splits option.splits)
qed

section \<open>Properties\<close>

text \<open>
  C2: a carrier command does what its row of the table says, for all thirty-three commands: the
  first field it needs and does not find is named in one error and the library is not called;
  otherwise the one call of the row is made, with the account of the line or else the default one,
  and an error is sent exactly when that call or the conversion of its texts fails.  Any other
  command does nothing.
\<close>

theorem carrier_commands_follow_table:
  "handle_carrier lib line (carrier_ns @ command) dflt cl =
     (case map_of command_table command of
        None \<Rightarrow> (cl, [])
      | Some (needs, call) \<Rightarrow>
          (case gather line needs of
             Inl field \<Rightarrow> (cl, [missing_field command field])
           | Inr vs \<Rightarrow> report command (method_spec lib (call line (account_or_default line dflt) vs)
               (prepared command line cl))))"
  by (simp add: command_answers unknown_command table_answer_def split: option.split sum.split)

text \<open>
  C23: whatever a command line holds and whatever the library answers, a command is answered with
  nothing or with a single line, and that line is read back as one \<open>antenna:Error\<close> with one message:
  no text of the line or of the library can break out of it.
\<close>

theorem carrier_answers_read_back:
  "snd (handle_carrier lib line (carrier_ns @ command) dflt cl) = [] \<or>
   (\<exists>msg text. snd (handle_carrier lib line (carrier_ns @ command) dflt cl) = [msg] \<and>
      read_record msg = Some (''antenna:Error'', [(''antenna:message'', Lit text)]))"
proof (cases "map_of command_table command")
  case None
  then show ?thesis by (simp add: unknown_command)
next
  case (Some entry)
  then show ?thesis
    using table_answer_reads_back [OF Some] by (simp only: command_answers [OF Some] error_record_def)
qed

text \<open>
  C16: a dispatch only adds to the answers and never rewires the script graph; a line of class
  \<open>sp:\<close> acts on the store alone, one of class \<open>carrier:\<close> on the client alone, one of class
  \<open>design:\<close> on none of them, and every line of another class, or of none, leaves the client alone.
\<close>

theorem dispatch_touches_only_its_part:
  assumes "dispatch env line dflt w = Some w'"
    and "extract_rdf_type (strip_leading_directives line) = t"
  shows "(\<exists>sent. w_out w' = w_out w @ sent) \<and>
     dg_writers (w_dag w') = dg_writers (w_dag w) \<and> dg_threads (w_dag w') = dg_threads (w_dag w) \<and>
     (case t of
        None \<Rightarrow> w_client w' = w_client w
      | Some c \<Rightarrow>
          if starts_with sp_ns c then w_dag w' = w_dag w \<and> w_client w' = w_client w
          else if starts_with carrier_ns c then w_dag w' = w_dag w \<and> w_store w' = w_store w
          else if starts_with design_ns c
          then w_dag w' = w_dag w \<and> w_store w' = w_store w \<and> w_client w' = w_client w
          else w_client w' = w_client w)"
proof (cases "line = [] \<or> starts_with ''#'' line \<or> strip_leading_directives line = []")
  case True
  then show ?thesis using assms(1) by (auto simp: dispatch_def Let_def split: option.split if_splits)
next
  case False
  show ?thesis
  proof (cases t)
    case None
    then have "w' = insert_with_dag env (strip_leading_directives line) w"
      using assms False by (simp add: dispatch_def Let_def)
    then show ?thesis using None insert_with_dag_frame [of w env] by (auto simp: not_client_def extends_def)
  next
    case (Some c)
    then have r: "route env (strip_leading_directives line) dflt c w = Some w'"
      using assms False by (simp add: dispatch_def Let_def)
    have "starts_with sp_ns c \<Longrightarrow> \<not> starts_with carrier_ns c"
        "starts_with design_ns c \<Longrightarrow> \<not> starts_with carrier_ns c"
      by (auto simp: starts_with_iff sp_ns_def carrier_ns_def design_ns_def)
    then show ?thesis using Some route_frame [OF r] by (auto simp: extends_def)
  qed
qed

text \<open>
  For the examples: a store that accepts every document, answers every query with the rows given
  and prints a term by its text, a signature check that accepts the key and one signature, and a
  library that accepts every call and counts them.
\<close>

definition sample_store :: "(str \<Rightarrow> query_results) \<Rightarrow> str list oxigraph" where
  "sample_store rows =
     \<lparr>ox_open = (\<lambda>_. Inr []), ox_iri = (\<lambda>_. Inr ()), ox_load = (\<lambda>s doc _. (s @ [doc], Inr ())),
      ox_clear = (\<lambda>s _. ([], Inr ())), ox_query = (\<lambda>_ q. Inr (rows q)), ox_update = (\<lambda>s _. (s, Inr ())),
      ox_show = term_text\<rparr>"

definition sample_crypto :: crypto where
  "sample_crypto = \<lparr>base64_decode = Some, ed25519_key_ok = (\<lambda>_. True),
     ed25519_verify = (\<lambda>_ payload sig. sig = replicate 64 (CHR ''s''))\<rparr>"

definition sample_lib :: "nat clib" where
  "sample_lib n call = (n + 1, \<lparr>c_rc = 0, c_out = [], c_events = []\<rparr>)"

definition sample_env :: "(str \<Rightarrow> query_results) \<Rightarrow> (str list, nat) env" where
  "sample_env rows = \<lparr>e_ox = sample_store rows, e_crypto = sample_crypto, e_lib = sample_lib\<rparr>"

definition sample_world :: "(str list, nat) world" where
  "sample_world = \<lparr>w_store = [], w_dag = empty_dag,
     w_client = Some \<lparr>cl_lib = 0, cl_queue = [], cl_iterate_thread = None, cl_pending_export = None\<rparr>, w_out = []\<rparr>"

text \<open>A selection without its text.\<close>

theorem dispatch_touches_only_its_part_witness:
  "\<exists>w'. dispatch (sample_env (\<lambda>_. Solutions [])) ''[] a sp:Select .'' ''me'' sample_world = Some w' \<and>
     w_dag w' = w_dag sample_world \<and> w_client w' = w_client sample_world"
proof -
  let ?line = "''[] a sp:Select .''" and ?env = "sample_env (\<lambda>_. Solutions [])"
  have strip: "strip_leading_directives ?line = ?line" by code_simp
  have t: "extract_rdf_type ?line = Some (sp_ns @ ''Select'')" by code_simp
  then obtain w' where w': "dispatch ?env ?line ''me'' sample_world = Some w'"
    using strip by (simp add: dispatch_def route_def)
  show ?thesis
    using dispatch_touches_only_its_part [OF w', of "Some (sp_ns @ ''Select'')"] strip t w' by simp
qed

text \<open>
  A dispatch returns for every line and every state of the store in which finitely many themes can
  be reached from the active one; for a line that is not a request of the theme it returns in any case.
\<close>

theorem dispatch_returns:
  assumes "extract_rdf_type (strip_leading_directives line) = Some (design_ns @ ''ResolveActiveTheme'') \<Longrightarrow>
      finite_themes (e_ox env) (w_store w)"
  shows "\<exists>w'. dispatch env line dflt w = Some w'"
  by (rule dispatch_total [OF assms])

theorem dispatch_returns_witness:
  "\<exists>w'. dispatch (sample_env (\<lambda>_. Solutions [])) ''[] a design:ResolveActiveTheme .'' ''me'' sample_world = Some w'"
proof (rule dispatch_returns)
  show "finite_themes (e_ox (sample_env (\<lambda>_. Solutions []))) (w_store sample_world)"
    by (rule finite_themesI)
      (simp add: parent_of_def first_binding_def store_query_def sample_env_def sample_store_def)
qed

text \<open>
  Prefix declarations in front of a line do not change what its dispatch does, unless what follows them would have been taken for a comment.
\<close>

theorem dispatch_ignores_declarations:
  assumes "\<forall>d \<in> set ds. declarable d" "sep \<in> {newline, CHR '' ''}" "\<not> starts_with ''#'' s"
  shows "dispatch env (concat (map (\<lambda>(p, iri). prefix_decl p iri @ [sep]) ds) @ s) dflt w = dispatch env s dflt w"
proof -
  define line where "line = concat (map (\<lambda>(p, iri). prefix_decl p iri @ [sep]) ds) @ s"
  have "\<not> starts_with ''#'' line"
    using assms(3) by (cases ds) (auto simp: prefix_decl_def line_def)
  moreover have "strip_leading_directives line = strip_leading_directives s"
    unfolding line_def by (rule strip_decls [OF assms(2,1)])
  moreover have "strip_leading_directives [] = []" by code_simp
  moreover have "line = [] \<Longrightarrow> s = []" by (simp add: line_def)
  ultimately have "dispatch env line dflt w = dispatch env s dflt w"
    using assms(3) by (auto simp: dispatch_def Let_def)
  then show ?thesis by (simp only: line_def)
qed

theorem dispatch_ignores_declarations_witness:
  "dispatch (sample_env (\<lambda>_. Solutions [])) (turtle_prefixes @ newline # ''[] a carrier:GetId .'') ''me'' sample_world =
     dispatch (sample_env (\<lambda>_. Solutions [])) ''[] a carrier:GetId .'' ''me'' sample_world"
proof -
  define ds where "ds = [(''carrier'', carrier_ns), (''antenna'', antenna_ns), (''design'', design_ns),
    (''sp'', sp_ns), (''spin'', spin_ns), (''xsd'', ''http://www.w3.org/2001/XMLSchema#'')]"
  have "\<forall>d \<in> set ds. declarable d"
    by (simp add: ds_def declarable_def carrier_ns_def antenna_ns_def design_ns_def sp_ns_def spin_ns_def)
  from dispatch_ignores_declarations [OF this, of newline "''[] a carrier:GetId .''"
    "sample_env (\<lambda>_. Solutions [])" "''me''" sample_world]
  show ?thesis by (simp add: turtle_prefixes_def ds_def)
qed

text \<open>
  C1: of a subscription to a blocklist nothing is applied unless the signature verifies under the
  pinned key: either a field is missing and one error is sent, or one rejection is inserted, or the
  payload is the decoded text signed by the signature, and exactly its entries are inserted, in
  order, each as a record whose only field is the entry without quotation marks and backslashes.
\<close>

theorem blocklist_needs_signature:
  "(\<exists>msg. handle_subscribe_blocklist env line w = say msg w \<and>
      read_record msg = Some (error_record ''SubscribeBlocklist missing antenna:blocklistPayload/Sig'')) \<or>
   (\<exists>e. handle_subscribe_blocklist env line w = insert_with_dag env (blocklist_rejected e) w) \<or>
   (\<exists>p s payload sig entries.
      extract_property line ''antenna:blocklistPayload'' = Some p \<and>
      extract_property line ''antenna:blocklistSig'' = Some s \<and>
      base64_decode (e_crypto env) (trim p) = Some payload \<and> base64_decode (e_crypto env) (trim s) = Some sig \<and>
      length sig = 64 \<and> ed25519_verify (e_crypto env) blocklist_pubkey payload sig \<and>
      entries = parse_entries payload \<and>
      handle_subscribe_blocklist env line w = fold (\<lambda>uri. insert_with_dag env (blocklist_apply uri)) entries w \<and>
      list_all (\<lambda>uri. uri \<noteq> [] \<and> (creturn \<in> set uri \<or> read_record (blocklist_apply uri) =
          Some (''antenna:BlocklistApply'', [(''antenna:contactUri'', Lit (sanitize uri))]))) entries)"
  (is "?missing \<or> ?rejected \<or> ?applied")
proof (cases "(extract_property line ''antenna:blocklistPayload'', extract_property line ''antenna:blocklistSig'')")
  case (Pair po so)
  show ?thesis
  proof (cases "po = None \<or> so = None")
    case True
    then have "handle_subscribe_blocklist env line w
        = say (missing_field ''SubscribeBlocklist'' ''antenna:blocklistPayload/Sig'') w"
      using Pair by (auto simp: handle_subscribe_blocklist_def split: option.split)
    moreover have "tame ''SubscribeBlocklist''" "tame ''antenna:blocklistPayload/Sig''" by code_simp+
    ultimately have ?missing using missing_field_reads_back by fastforce
    then show ?thesis ..
  next
    case False
    then obtain p s where ps: "po = Some p" "so = Some s" by auto
    show ?thesis
    proof (cases "verify_signed_blocklist (e_crypto env) p s blocklist_pubkey")
      case (Inl e)
      then have ?rejected using Pair ps by (auto simp: handle_subscribe_blocklist_def)
      then show ?thesis by blast
    next
      case (Inr entries)
      note v = verified [OF Inr]
      have "handle_subscribe_blocklist env line w = fold (\<lambda>uri. insert_with_dag env (blocklist_apply uri)) entries w"
        using Pair ps Inr by (simp add: handle_subscribe_blocklist_def)
      moreover obtain payload sig where "base64_decode (e_crypto env) (trim p) = Some payload"
          "base64_decode (e_crypto env) (trim s) = Some sig" "length sig = 64"
          "ed25519_verify (e_crypto env) blocklist_pubkey payload sig" "entries = parse_entries payload"
        using v by blast
      moreover have "list_all (\<lambda>uri. uri \<noteq> [] \<and> (creturn \<in> set uri \<or> read_record (blocklist_apply uri) =
          Some (''antenna:BlocklistApply'', [(''antenna:contactUri'', Lit (sanitize uri))]))) (parse_entries payload)"
        using entry_text apply_reads_back by (auto simp: list_all_iff)
      ultimately have ?applied using Pair ps by auto
      then show ?thesis by (intro disjI2)
    qed
  qed
qed

text \<open>
  C24: an \<open>sp:Select\<close> whose query has rows changes neither the store nor the graph nor the client and
  sends one line for each row that is not an error and binds something, in the order of the rows;
  each line is read back as the row: its variables in order, with the printed terms as literals,
  whatever the terms contain.
\<close>

theorem select_answers_read_back:
  assumes "spin_text line = Some sparql" "ox_query (e_ox env) (w_store w) sparql = Inr (Solutions rows)"
    and "\<forall>sol \<in> set (good rows). \<forall>(var, term) \<in> set sol. CHR '' '' \<notin> set var \<and> newline \<notin> set var"
  shows "\<exists>sent. handle_spin env line (sp_ns @ ''Select'') w = w\<lparr>w_out := w_out w @ sent\<rparr> \<and>
    map read_record sent = map (\<lambda>sol. Some (''antenna:Result'',
        map (\<lambda>(var, term). (''antenna:var_'' @ var, Lit (ox_show (e_ox env) term))) sol))
      (filter (\<lambda>sol. sol \<noteq> []) (good rows))"
proof -
  have "handle_spin env line (sp_ns @ ''Select'') w = fold (say_row (e_ox env)) (good rows) w"
    using assms(1,2) by (simp add: handle_spin_def spin_select_def store_query_def)
  moreover have "map read_record (map (render_record \<circ> row_record (e_ox env)) (filter (\<lambda>sol. sol \<noteq> []) (good rows)))
      = map (\<lambda>sol. Some (row_record (e_ox env) sol)) (filter (\<lambda>sol. sol \<noteq> []) (good rows))"
    by (simp add: row_reads_back [OF bspec [OF assms(3)]])
  ultimately show ?thesis
    unfolding fold_say_row row_record_def by blast
qed

text \<open>A row with a literal that looks like the end of a statement.\<close>

theorem select_answers_read_back_witness:
  "\<exists>sent. handle_spin (sample_env (\<lambda>_. Solutions [Inr [(''x'', Literal_term (quote # '' .''))], Inl ''broken'', Inr []]))
      (''[] a sp:Select ; sp:text '' @ quoted ''SELECT ?x {}'' @ '' .'') (sp_ns @ ''Select'') sample_world
      = sample_world\<lparr>w_out := sent\<rparr> \<and>
    map read_record sent = [Some (''antenna:Result'', [(''antenna:var_x'', Lit (quote # '' .''))])]"
proof -
  let ?rows = "[Inr [(''x'', Literal_term (quote # '' .''))], Inl ''broken'', Inr []] :: (str + solution) list"
  let ?env = "sample_env (\<lambda>_. Solutions ?rows)"
  let ?line = "''[] a sp:Select ; sp:text '' @ quoted ''SELECT ?x {}'' @ '' .''"
  have query: "spin_text ?line = Some ''SELECT ?x {}''" by code_simp
  have rows: "ox_query (e_ox ?env) (w_store sample_world) ''SELECT ?x {}'' = Inr (Solutions ?rows)"
    by (simp add: sample_env_def sample_store_def)
  have good: "good ?rows = [[(''x'', Literal_term (quote # '' .''))], []]" by (simp add: good_def)
  show ?thesis
    using select_answers_read_back [OF query rows]
    by (auto simp: good sample_world_def newline_def sample_env_def sample_store_def)
qed

end
