(* ===== verification/Antenna.thy ===== *)
theory Antenna
  imports Dispatch
begin

text \<open>
  The context of the runtime and its loop, \<^verbatim>\<open>src/lib.rs\<close>: how it is set up from the
  store, the pipeline and the account, what one tick does and in which order, and the loop around
  the ticks.  What the input has to offer is a list of lines per tick, what was sent to the output
  so far a list of lines.  Log messages are not part of the state.
\<close>

section \<open>The pipeline in the store\<close>

text \<open>The operator \<open>?\<close> after an operation that changes a state.\<close>

definition then_do :: "'s \<times> (str + 'a) \<Rightarrow> ('s \<Rightarrow> 's \<times> (str + 'b)) \<Rightarrow> 's \<times> (str + 'b)" where
  "then_do r f = (case r of (s, Inl e) \<Rightarrow> (s, Inl e) | (s, Inr _) \<Rightarrow> f s)"

lemma then_do_simps [simp]: "then_do (s, Inl e) f = (s, Inl e)" "then_do (s, Inr a) f = f s"
  by (simp_all add: then_do_def)

definition pipeline_reset :: "str \<Rightarrow> str" where
  "pipeline_reset class = newline #
     ''        PREFIX antenna: <http://resonator.network/v2/antenna#>'' @ newline #
     ''        DELETE WHERE { ?s a antenna:'' @ class @ '' ; ?p ?o }'' @ newline # ''    ''"

definition replace_pipeline :: "'s oxigraph \<Rightarrow> str \<Rightarrow> 's \<Rightarrow> 's \<times> (str + unit)" where
  "replace_pipeline ox ttl s =
     then_do (store_update ox s (pipeline_reset ''ScriptNode'')) (\<lambda>s.
     then_do (store_update ox s (pipeline_reset ''ScriptSource'')) (\<lambda>s.
     then_do (insert_turtle ox s ttl) (\<lambda>s.
     then_do (clear_graph ox s trusted_pipeline_graph) (\<lambda>s.
       insert_turtle_to_graph ox s ttl trusted_pipeline_graph))))"

section \<open>Setting up\<close>

text \<open>
  What the build and the machine provide: the Turtle texts embedded in the program, the features
  and the build mode, the orders of the hash maps, the clocks and threads of the script graph, the
  thread that ticks.
\<close>

record host =
  h_design_bundle :: "str list"
  h_resolver :: str
  h_emoji :: str
  h_peer_scripting :: bool
  h_debug_build :: bool
  h_node_order :: "node_def list \<Rightarrow> node_def list"
  h_router_order :: "router_def list \<Rightarrow> router_def list"
  h_clocks :: "nat \<Rightarrow> clock option"
  h_spawns :: "nat \<Rightarrow> bool"
  h_backend :: "router_def \<Rightarrow> str + unit"
  h_thread :: nat

record ('s, 'c) antenna =
  an_store :: 's
  an_dag :: dag
  an_client :: "'c client"
  an_account :: str
  an_bootstrap :: "str option"
  an_pending_load :: "str option"
  an_started :: bool
  an_out :: "str list"

fun load_bundle :: "'s oxigraph \<Rightarrow> str list \<Rightarrow> 's \<Rightarrow> 's \<times> (str + unit)" where
  "load_bundle ox [] s = (s, Inr ())"
| "load_bundle ox (ttl # ttls) s = then_do (insert_turtle_to_graph ox s ttl theme_graph) (load_bundle ox ttls)"

definition when_given :: "str option \<Rightarrow> (str \<Rightarrow> 's \<Rightarrow> 's \<times> (str + unit)) \<Rightarrow> 's \<Rightarrow> 's \<times> (str + unit)" where
  "when_given x f s = (case x of None \<Rightarrow> (s, Inr ()) | Some t \<Rightarrow> f t s)"

definition load_texts :: "'s oxigraph \<Rightarrow> host \<Rightarrow> str option \<Rightarrow> str option \<Rightarrow> 's \<Rightarrow> 's \<times> (str + unit)" where
  "load_texts ox h pipeline_ttl seed_ttl s =
     then_do (clear_graph ox s theme_graph) (\<lambda>s.
     then_do (load_bundle ox (h_design_bundle h) s) (\<lambda>s.
     then_do (load_resolver_str ox s (h_resolver h)) (\<lambda>s.
     then_do (insert_turtle ox s (h_emoji h)) (\<lambda>s.
     then_do (when_given pipeline_ttl (replace_pipeline ox) s) (\<lambda>s.
       when_given seed_ttl (\<lambda>ttl s. insert_turtle ox s ttl) s)))))"

definition onboarding_required :: str where
  "onboarding_required = ''[] a antenna:OnboardingRequired ; antenna:reason '' @ quoted ''no-account'' @ '' .''"

text \<open>The three ways to start: mint an account, wait for one, load one on the first tick.\<close>

definition bootstrap_account ::
  "'c clib \<Rightarrow> str option \<Rightarrow> 'c client \<Rightarrow> 'c client \<times> (str + str \<times> str option \<times> str option)" where
  "bootstrap_account lib account_id cl =
     (case account_id of
        None \<Rightarrow> (case create_account lib None None None cl of
                   (cl', Inl e) \<Rightarrow> (cl', Inl e)
                 | (cl', Inr new_id) \<Rightarrow> (cl', Inr (new_id, None, None)))
      | Some acc \<Rightarrow>
          if acc = [] then (cl, Inr ([], Some onboarding_required, None))
          else (cl, Inr (acc, None, Some acc)))"

definition new_with_ttl :: "('s, 'c) env \<Rightarrow> host \<Rightarrow> str \<Rightarrow> str option \<Rightarrow> str option \<Rightarrow> str option \<Rightarrow> str option \<Rightarrow>
    'c \<Rightarrow> str + ('s, 'c) antenna" where
  "new_with_ttl env h data_dir account_id store_path pipeline_ttl seed_ttl lib0 =
     and_then (store_open (e_ox env) store_path) (\<lambda>s0.
     case load_texts (e_ox env) h pipeline_ttl seed_ttl s0 of
       (s, Inl e) \<Rightarrow> Inl e
     | (s, Inr _) \<Rightarrow>
         and_then (dag_load (e_ox env) (h_peer_scripting h) (h_node_order h) (h_router_order h) (h_clocks h)
             (h_spawns h) (h_backend h) s) (\<lambda>d.
         and_then (client_new (e_lib env) data_dir lib0) (\<lambda>cl.
         case bootstrap_account (e_lib env) account_id cl of
           (cl', Inl e) \<Rightarrow> Inl e
         | (cl', Inr (account, emit, pending)) \<Rightarrow>
             Inr \<lparr>an_store = s, an_dag = d, an_client = cl', an_account = account, an_bootstrap = emit,
                  an_pending_load = pending, an_started = False, an_out = []\<rparr>)))"

definition read_given :: "(str \<Rightarrow> str + str) \<Rightarrow> str option \<Rightarrow> str + str option" where
  "read_given files path = (case path of None \<Rightarrow> Inr None | Some p \<Rightarrow> and_then (files p) (\<lambda>t. Inr (Some t)))"

definition antenna_new :: "('s, 'c) env \<Rightarrow> host \<Rightarrow> (str \<Rightarrow> str + str) \<Rightarrow> str \<Rightarrow> str option \<Rightarrow> str option \<Rightarrow>
    str option \<Rightarrow> str option \<Rightarrow> 'c \<Rightarrow> str + ('s, 'c) antenna" where
  "antenna_new env h files data_dir account_id store_path pipeline_path seed_path lib0 =
     and_then (read_given files pipeline_path) (\<lambda>pipeline_ttl.
     and_then (read_given files seed_path) (\<lambda>seed_ttl.
       new_with_ttl env h data_dir account_id store_path pipeline_ttl seed_ttl lib0))"

record builder =
  b_data_dir :: str
  b_account_id :: "str option"
  b_store_path :: "str option"
  b_pipeline_path :: "str option"
  b_seed_path :: "str option"

definition builder_new :: "str \<Rightarrow> builder" where
  "builder_new data_dir = \<lparr>b_data_dir = data_dir, b_account_id = None, b_store_path = None,
     b_pipeline_path = None, b_seed_path = None\<rparr>"

definition builder_account :: "str \<Rightarrow> builder \<Rightarrow> builder" where
  "builder_account acc b = b\<lparr>b_account_id := Some acc\<rparr>"

definition builder_store_path :: "str \<Rightarrow> builder \<Rightarrow> builder" where
  "builder_store_path p b = b\<lparr>b_store_path := Some p\<rparr>"

definition builder_pipeline :: "str \<Rightarrow> builder \<Rightarrow> builder" where
  "builder_pipeline p b = b\<lparr>b_pipeline_path := Some p\<rparr>"

definition builder_seed :: "str \<Rightarrow> builder \<Rightarrow> builder" where
  "builder_seed p b = b\<lparr>b_seed_path := Some p\<rparr>"

definition builder_build :: "('s, 'c) env \<Rightarrow> host \<Rightarrow> (str \<Rightarrow> str + str) \<Rightarrow> builder \<Rightarrow> 'c \<Rightarrow> str + ('s, 'c) antenna" where
  "builder_build env h files b lib0 =
     antenna_new env h files (b_data_dir b) (b_account_id b) (b_store_path b) (b_pipeline_path b) (b_seed_path b) lib0"

section \<open>A tick\<close>

definition clock_tick :: str where
  "clock_tick = ''[] a <'' @ antenna_ns @ ''ClockTick> .''"

definition resolve_request :: str where
  "resolve_request = ''[] a design:ResolveActiveTheme .''"

text \<open>A dispatch with the carrier of the context.\<close>

definition an_world :: "('s, 'c) antenna \<Rightarrow> ('s, 'c) world" where
  "an_world a = \<lparr>w_store = an_store a, w_dag = an_dag a, w_client = Some (an_client a), w_out = an_out a\<rparr>"

definition put_world :: "('s, 'c) world \<Rightarrow> ('s, 'c) antenna \<Rightarrow> ('s, 'c) antenna" where
  "put_world w a = a\<lparr>an_store := w_store w, an_dag := w_dag w, an_client := unwrap_or (w_client w) (an_client a),
     an_out := w_out w\<rparr>"

definition an_dispatch :: "('s, 'c) env \<Rightarrow> str \<Rightarrow> str \<Rightarrow> ('s, 'c) antenna \<Rightarrow> ('s, 'c) antenna option" where
  "an_dispatch env acct line a = map_option (\<lambda>w. put_world w a) (dispatch env line acct (an_world a))"

fun dispatch_all :: "('s, 'c) env \<Rightarrow> str \<Rightarrow> str list \<Rightarrow> ('s, 'c) antenna \<Rightarrow> ('s, 'c) antenna option" where
  "dispatch_all env acct [] a = Some a"
| "dispatch_all env acct (line # lines) a =
     Option.bind (an_dispatch env acct line a) (dispatch_all env acct lines)"

text \<open>The first tick: the theme, then the account whose loading was put off.\<close>

definition startup :: "('s, 'c) env \<Rightarrow> ('s, 'c) antenna \<Rightarrow> ('s, 'c) antenna option" where
  "startup env a =
     (if an_started a then Some a
      else map_option (\<lambda>a.
             case an_pending_load a of
               None \<Rightarrow> a
             | Some acc \<Rightarrow> a\<lparr>an_pending_load := None,
                 an_client := fst (load_account (e_lib env) acc (an_client a))\<rparr>)
           (an_dispatch env (an_account a) resolve_request (a\<lparr>an_started := True\<rparr>)))"

text \<open>A line of the runtime's own: sent, broadcast, stored, broadcast again, whatever the store says.\<close>

definition publish :: "('s, 'c) env \<Rightarrow> str \<Rightarrow> ('s, 'c) antenna \<Rightarrow> ('s, 'c) antenna" where
  "publish env turtle a =
     a\<lparr>an_out := an_out a @ [turtle],
       an_dag := after_insert turtle (before_insert turtle (an_dag a)),
       an_store := fst (insert_turtle (e_ox env) (an_store a) turtle)\<rparr>"

definition announce :: "('s, 'c) env \<Rightarrow> ('s, 'c) antenna \<Rightarrow> ('s, 'c) antenna" where
  "announce env a =
     (case an_bootstrap a of None \<Rightarrow> a | Some turtle \<Rightarrow> publish env turtle (a\<lparr>an_bootstrap := None\<rparr>))"

definition broadcast_clock :: "('s, 'c) antenna \<Rightarrow> ('s, 'c) antenna" where
  "broadcast_clock a = a\<lparr>an_dag := broadcast (antenna_ns @ ''clock'') clock_tick (an_dag a)\<rparr>"

text \<open>
  An event that mentions \<open>carrier:AccountReady\<close> may fill in the account and triggers a pending
  export, of the account of the context.
\<close>

definition learn_account :: "str \<Rightarrow> str \<Rightarrow> str" where
  "learn_account turtle account =
     (if account = []
      then unwrap_or (opt_filter (\<lambda>acc. acc \<noteq> []) (extract_property turtle ''carrier:account'')) account
      else account)"

definition account_ready :: "('s, 'c) env \<Rightarrow> str \<Rightarrow> ('s, 'c) antenna \<Rightarrow> ('s, 'c) antenna" where
  "account_ready env turtle a =
     (let account = learn_account turtle (an_account a);
          (cl, pending) = take_pending_auto_export (an_client a)
      in a\<lparr>an_account := account,
           an_client := (case pending of
              None \<Rightarrow> cl
            | Some path \<Rightarrow>
                if account = [] then cl
                else fst (export_account (e_lib env) account path None cl))\<rparr>)"

definition on_event :: "('s, 'c) env \<Rightarrow> str \<Rightarrow> ('s, 'c) antenna \<Rightarrow> ('s, 'c) antenna" where
  "on_event env turtle a =
     publish env turtle (if contains ''carrier:AccountReady'' turtle then account_ready env turtle a else a)"

text \<open>
  The events in the queue of the client; an export may add to the queue while it is drained, but
  only the one that a pending path allows.
\<close>

definition pop_event :: "('s, 'c) antenna \<Rightarrow> (str \<times> ('s, 'c) antenna) option" where
  "pop_event a =
     (case cl_queue (an_client a) of
        [] \<Rightarrow> None
      | turtle # q \<Rightarrow> Some (turtle, a\<lparr>an_client := (an_client a)\<lparr>cl_queue := q\<rparr>\<rparr>))"

lemma publish_client [simp]: "an_client (publish env turtle a) = an_client a"
  by (simp add: publish_def)

lemma export_account_pending:
  "cl_pending_export (fst (export_account lib acc p pw cl)) = cl_pending_export cl"
  by (simp add: export_account_def attempt_cstring attempt_opt_cstring guarded_def checked_def split_beta Let_def
      split: option.split)

definition event_measure :: "('s, 'c) antenna \<Rightarrow> nat \<times> nat" where
  "event_measure a = ((case cl_pending_export (an_client a) of None \<Rightarrow> 0 | Some _ \<Rightarrow> 1), length (cl_queue (an_client a)))"

lemma on_event_measure:
  assumes "pop_event a = Some (turtle, a')"
  shows "(event_measure (on_event env turtle a'), event_measure a) \<in> less_than <*lex*> less_than"
  using assms
  by (auto simp: pop_event_def event_measure_def on_event_def account_ready_def take_pending_auto_export_def
      export_account_pending Let_def split: list.splits option.splits)

function drain_events :: "('s, 'c) env \<Rightarrow> ('s, 'c) antenna \<Rightarrow> ('s, 'c) antenna" where
  "drain_events env a =
     (case pop_event a of None \<Rightarrow> a | Some (turtle, a') \<Rightarrow> drain_events env (on_event env turtle a'))"
  by pat_completeness auto
termination
  by (relation "inv_image (less_than <*lex*> less_than) (event_measure \<circ> snd)")
    (use on_event_measure in auto)

declare drain_events.simps [simp del]

text \<open>
  \<open>AntennaContext::tick\<close>.  \<open>None\<close> if a dispatch does not return or, in a debug build, if the thread is
  not the one of the first tick.
\<close>

definition pump :: "('s, 'c) env \<Rightarrow> str \<Rightarrow> str list \<Rightarrow> ('s, 'c) antenna \<Rightarrow> ('s, 'c) antenna option" where
  "pump env acct lines a =
     Option.bind (dispatch_all env acct (filter (\<lambda>l. l \<noteq> []) lines) a) (\<lambda>a.
     let d = pump_queries (e_ox env) (an_store a) (an_dag a);
         (d', emits) = pump_emits d
     in map_option (\<lambda>a. a\<lparr>an_dag := fst (health_check (an_dag a))\<rparr>)
          (dispatch_all env acct emits (a\<lparr>an_dag := d'\<rparr>)))"

definition tick :: "('s, 'c) env \<Rightarrow> host \<Rightarrow> str list \<Rightarrow> ('s, 'c) antenna \<Rightarrow> (('s, 'c) antenna \<times> (str + unit)) option" where
  "tick env h lines a =
     Option.bind (startup env a) (\<lambda>a.
     let a = broadcast_clock (announce env a)
     in Option.bind (iterate (e_lib env) (h_debug_build h) (h_thread h) (an_client a)) (\<lambda>(cl, r).
     let a = a\<lparr>an_client := cl\<rparr>
     in case r of
          Inl e \<Rightarrow> Some (a, Inl e)
        | Inr _ \<Rightarrow>
            let a = drain_events env a
            in map_option (\<lambda>a. (a, Inr ())) (pump env (an_account a) lines a)))"

section \<open>The loop\<close>

definition max_sleep_ms :: int where "max_sleep_ms = 25"

text \<open>The time to wait, from the interval that the library asks for.\<close>

definition run_timeout :: "('s, 'c) env \<Rightarrow> ('s, 'c) antenna \<Rightarrow> ('s, 'c) antenna \<times> int" where
  "run_timeout env a =
     (let (cl, ms) = iteration_interval (e_lib env) (an_client a)
      in (a\<lparr>an_client := cl\<rparr>, min (max ms 1) max_sleep_ms))"

text \<open>\<open>inputs n\<close> are the lines that have come in by the tick of round \<open>n\<close>.\<close>

partial_function (option) run :: "('s, 'c) env \<Rightarrow> host \<Rightarrow> (nat \<Rightarrow> str list) \<Rightarrow> nat \<Rightarrow> ('s, 'c) antenna \<Rightarrow>
    (('s, 'c) antenna \<times> str) option" where
  "run env h inputs n a =
     (case tick env h (inputs n) (fst (run_timeout env a)) of
        None \<Rightarrow> None
      | Some (a', r) \<Rightarrow> (case r of Inl e \<Rightarrow> Some (a', e) | Inr _ \<Rightarrow> run env h inputs (Suc n) a'))"

declare run.simps [code]

definition antenna_interval :: "('s, 'c) env \<Rightarrow> ('s, 'c) antenna \<Rightarrow> 'c client \<times> int" where
  "antenna_interval env a = iteration_interval (e_lib env) (an_client a)"

section \<open>What a tick keeps\<close>

text \<open>The answers so far stay, and the graph its shape.\<close>

definition keeps :: "('s, 'c) antenna \<Rightarrow> ('s, 'c) antenna \<Rightarrow> bool" where
  "keeps a a' \<longleftrightarrow> (\<exists>sent. an_out a' = an_out a @ sent) \<and>
     dg_writers (an_dag a') = dg_writers (an_dag a) \<and> dg_threads (an_dag a') = dg_threads (an_dag a) \<and>
     length (dg_rings (an_dag a')) = length (dg_rings (an_dag a))"

text \<open>The one-shot flags and the account.\<close>

definition same_flags :: "('s, 'c) antenna \<Rightarrow> ('s, 'c) antenna \<Rightarrow> bool" where
  "same_flags a a' \<longleftrightarrow> an_started a' = an_started a \<and> an_bootstrap a' = an_bootstrap a \<and>
     an_pending_load a' = an_pending_load a"

lemma keeps_refl [simp]: "keeps a a" "same_flags a a"
  by (simp_all add: keeps_def same_flags_def)

lemma keeps_trans: "keeps a b \<Longrightarrow> keeps b c \<Longrightarrow> keeps a c"
  by (auto simp: keeps_def)

lemma same_flags_trans: "same_flags a b \<Longrightarrow> same_flags b c \<Longrightarrow> same_flags a c"
  by (simp add: same_flags_def)

lemma an_dispatch_keeps:
  "an_dispatch env acct line a = Some a' \<Longrightarrow> keeps a a' \<and> same_flags a a' \<and> an_account a' = an_account a"
  by (auto simp: an_dispatch_def put_world_def an_world_def keeps_def same_flags_def extends_def
      dest!: dispatch_extends)

lemma dispatch_all_keeps:
  "dispatch_all env acct lines a = Some a' \<Longrightarrow> keeps a a' \<and> same_flags a a' \<and> an_account a' = an_account a"
proof (induction lines arbitrary: a)
  case (Cons line lines)
  then obtain b where b: "an_dispatch env acct line a = Some b" "dispatch_all env acct lines b = Some a'"
    by (auto simp: bind_eq_Some_conv)
  show ?case using an_dispatch_keeps [OF b(1)] Cons.IH [OF b(2)] keeps_trans same_flags_trans by fastforce
qed simp

lemma startup_keeps:
  "startup env a = Some a' \<Longrightarrow> keeps a a' \<and> an_account a' = an_account a \<and> an_started a' \<and>
     an_bootstrap a' = an_bootstrap a \<and> (an_pending_load a' = (if an_started a then an_pending_load a else None))"
proof (cases "an_started a")
  case True
  then show "startup env a = Some a' \<Longrightarrow> ?thesis" by (simp add: startup_def)
next
  case False
  assume s: "startup env a = Some a'"
  then obtain b where b: "an_dispatch env (an_account a) resolve_request (a\<lparr>an_started := True\<rparr>) = Some b"
    using False by (auto simp: startup_def)
  have "keeps a b" "an_started b" "an_bootstrap b = an_bootstrap a" "an_account b = an_account a"
    using an_dispatch_keeps [OF b] by (auto simp: keeps_def same_flags_def)
  moreover have "a' = (case an_pending_load b of None \<Rightarrow> b | Some acc \<Rightarrow> b\<lparr>an_pending_load := None,
      an_client := fst (load_account (e_lib env) acc (an_client b))\<rparr>)"
    using s b False by (simp add: startup_def)
  ultimately show ?thesis
    using False by (cases "an_pending_load b") (auto simp: keeps_def)
qed

lemma publish_keeps:
  "keeps a (publish env turtle a)" "same_flags a (publish env turtle a)" "an_account (publish env turtle a) = an_account a"
  by (simp_all add: publish_def keeps_def same_flags_def before_insert_def after_insert_def)

lemma announce_keeps:
  "keeps a (announce env a)" "an_account (announce env a) = an_account a" "an_bootstrap (announce env a) = None"
  "an_started (announce env a) = an_started a" "an_pending_load (announce env a) = an_pending_load a"
  by (auto simp: announce_def publish_def keeps_def before_insert_def after_insert_def split: option.split)

lemma broadcast_clock_keeps:
  "keeps a (broadcast_clock a)" "same_flags a (broadcast_clock a)" "an_account (broadcast_clock a) = an_account a"
  by (simp_all add: broadcast_clock_def keeps_def same_flags_def)

lemma account_ready_keeps:
  "keeps a (account_ready env turtle a)" "same_flags a (account_ready env turtle a)"
  "an_account (account_ready env turtle a) = learn_account turtle (an_account a)"
  by (simp_all add: account_ready_def keeps_def same_flags_def take_pending_auto_export_def Let_def)

lemma pop_event_keeps:
  "pop_event a = Some (turtle, a') \<Longrightarrow> keeps a a' \<and> same_flags a a' \<and> an_account a' = an_account a"
  by (auto simp: pop_event_def keeps_def same_flags_def split: list.splits)

text \<open>Accounts learned from an event that mentions \<open>carrier:AccountReady\<close>.\<close>

definition learned :: "str \<Rightarrow> bool" where
  "learned acc \<longleftrightarrow> (\<exists>turtle. contains ''carrier:AccountReady'' turtle \<and> extract_property turtle ''carrier:account'' = Some acc)"

lemma on_event_keeps:
  "keeps a (on_event env turtle a)" "same_flags a (on_event env turtle a)"
  "an_account (on_event env turtle a) = an_account a \<or> an_account a = [] \<and> learned (an_account (on_event env turtle a))"
proof -
  let ?b = "if contains ''carrier:AccountReady'' turtle then account_ready env turtle a else a"
  have b: "keeps a ?b" "same_flags a ?b" using account_ready_keeps by auto
  show "keeps a (on_event env turtle a)" "same_flags a (on_event env turtle a)"
    unfolding on_event_def by (blast intro: keeps_trans same_flags_trans b publish_keeps)+
  show "an_account (on_event env turtle a) = an_account a \<or> an_account a = [] \<and> learned (an_account (on_event env turtle a))"
    unfolding on_event_def publish_keeps(3)
    by (auto simp: account_ready_keeps(3) learn_account_def learned_def opt_filter_def split: option.split)
qed

lemma drain_events_keeps:
  "keeps a (drain_events env a) \<and> same_flags a (drain_events env a) \<and>
    (an_account (drain_events env a) = an_account a \<or> an_account a = [] \<and> learned (an_account (drain_events env a)))"
proof (induction env a rule: drain_events.induct)
  case (1 env a)
  show ?case
  proof (cases "pop_event a")
    case None
    then show ?thesis by (simp add: drain_events.simps [of env a])
  next
    case (Some x)
    obtain turtle b where x: "x = (turtle, b)" by force
    let ?c = "on_event env turtle b"
    have "drain_events env a = drain_events env ?c" using Some x by (simp add: drain_events.simps [of env a])
    moreover note pop_event_keeps [OF Some [unfolded x]] on_event_keeps [where a = b and env = env and turtle = turtle] "1.IH" [OF Some x [symmetric]]
    ultimately show ?thesis
      by (metis keeps_trans same_flags_trans)
  qed
qed

lemma pump_keeps:
  assumes "pump env acct lines a = Some a'"
  shows "keeps a a' \<and> same_flags a a' \<and> an_account a' = an_account a"
proof -
  obtain b where b: "dispatch_all env acct (filter (\<lambda>l. l \<noteq> []) lines) a = Some b"
    using assms by (auto simp: pump_def bind_eq_Some_conv)
  let ?d = "pump_queries (e_ox env) (an_store b) (an_dag b)"
  have d: "dg_writers (fst (pump_emits ?d)) = dg_writers (an_dag b)" "dg_threads (fst (pump_emits ?d)) = dg_threads (an_dag b)"
    "length (dg_rings (fst (pump_emits ?d))) = length (dg_rings (an_dag b))"
    by (simp_all add: pump_emits_def pump_queries_def Let_def pump_routes_broadcasts fold_broadcast_shape)
  obtain c where c: "dispatch_all env acct (snd (pump_emits ?d)) (b\<lparr>an_dag := fst (pump_emits ?d)\<rparr>) = Some c"
    and a': "a' = c\<lparr>an_dag := fst (health_check (an_dag c))\<rparr>"
    using assms b by (auto simp: pump_def Let_def split_beta)
  have h: "dg_writers (fst (health_check x)) = dg_writers x" "dg_threads (fst (health_check x)) = dg_threads x"
    "dg_rings (fst (health_check x)) = dg_rings x" for x
    by (simp_all add: health_check_def Let_def split_beta)
  have "keeps a b" "same_flags a b" "an_account b = an_account a" using dispatch_all_keeps [OF b] by simp_all
  moreover have "keeps b c" "same_flags b c" "an_account c = an_account b"
    using dispatch_all_keeps [OF c] d by (simp_all add: keeps_def same_flags_def)
  ultimately show ?thesis using h by (auto simp: a' keeps_def same_flags_def)
qed

text \<open>The state a tick hands to the library's iteration, and what it does after.\<close>

definition before_iterate :: "('s, 'c) env \<Rightarrow> ('s, 'c) antenna \<Rightarrow> ('s, 'c) antenna" where
  "before_iterate env b = broadcast_clock (announce env b)"

definition after_iterate :: "('s, 'c) env \<Rightarrow> ('s, 'c) antenna \<Rightarrow> 'c client \<Rightarrow> ('s, 'c) antenna" where
  "after_iterate env b cl = drain_events env ((before_iterate env b)\<lparr>an_client := cl\<rparr>)"

lemma tick_stages:
  "tick env h lines a = Some (a', r) \<longleftrightarrow>
    (\<exists>b cl x. startup env a = Some b \<and>
       iterate (e_lib env) (h_debug_build h) (h_thread h) (an_client (before_iterate env b)) = Some (cl, x) \<and>
       (case x of
          Inl e \<Rightarrow> a' = (before_iterate env b)\<lparr>an_client := cl\<rparr> \<and> r = Inl e
        | Inr _ \<Rightarrow> r = Inr () \<and>
            pump env (an_account (after_iterate env b cl)) lines (after_iterate env b cl) = Some a'))"
proof (cases "startup env a")
  case None
  then show ?thesis by (simp add: tick_def)
next
  case (Some b)
  show ?thesis
  proof (cases "iterate (e_lib env) (h_debug_build h) (h_thread h) (an_client (before_iterate env b))")
    case None
    then show ?thesis using Some by (simp add: tick_def before_iterate_def Let_def)
  next
    case (Some p)
    obtain cl x where p: "p = (cl, x)" by force
    show ?thesis
      using \<open>startup env a = Some b\<close> Some
      by (cases x) (auto simp: p tick_def before_iterate_def after_iterate_def Let_def)
  qed
qed

lemma before_iterate_keeps:
  "keeps b (before_iterate env b)" "an_account (before_iterate env b) = an_account b"
  "an_bootstrap (before_iterate env b) = None" "an_started (before_iterate env b) = an_started b"
  "an_pending_load (before_iterate env b) = an_pending_load b"
  using broadcast_clock_keeps [of "announce env b"] announce_keeps [where a = b and env = env] keeps_trans
  unfolding before_iterate_def same_flags_def by auto

lemma after_iterate_keeps:
  "keeps b (after_iterate env b cl)" "an_bootstrap (after_iterate env b cl) = None"
  "an_started (after_iterate env b cl) = an_started b" "an_pending_load (after_iterate env b cl) = an_pending_load b"
  "an_account (after_iterate env b cl) = an_account b \<or>
     an_account b = [] \<and> learned (an_account (after_iterate env b cl))"
proof -
  let ?c = "(before_iterate env b)\<lparr>an_client := cl\<rparr>"
  have c: "keeps b ?c" using before_iterate_keeps(1) [where b = b and env = env] by (simp add: keeps_def)
  note d = drain_events_keeps [where env = env and a = ?c]
  show "keeps b (after_iterate env b cl)" using keeps_trans [OF c] d by (simp add: after_iterate_def)
  show "an_bootstrap (after_iterate env b cl) = None" "an_started (after_iterate env b cl) = an_started b"
    "an_pending_load (after_iterate env b cl) = an_pending_load b"
    "an_account (after_iterate env b cl) = an_account b \<or>
     an_account b = [] \<and> learned (an_account (after_iterate env b cl))"
    using d before_iterate_keeps(2-) [of env b] unfolding after_iterate_def same_flags_def by auto
qed

lemma tick_keeps:
  assumes "tick env h lines a = Some (a', r)"
  obtains b where "startup env a = Some b" "keeps b a'" "an_bootstrap a' = None" "an_started a' = an_started b"
    "an_pending_load a' = an_pending_load b"
    "an_account a' = an_account b \<or> an_account b = [] \<and> learned (an_account a')"
proof -
  obtain b cl and x :: "str + unit" where b: "startup env a = Some b" and x: "case x of
      Inl e \<Rightarrow> a' = (before_iterate env b)\<lparr>an_client := cl\<rparr> \<and> r = Inl e
    | Inr _ \<Rightarrow> r = Inr () \<and> pump env (an_account (after_iterate env b cl)) lines (after_iterate env b cl) = Some a'"
    using assms unfolding tick_stages by blast
  show thesis
  proof (cases x)
    case (Inl e)
    then have a': "a' = (before_iterate env b)\<lparr>an_client := cl\<rparr>" using x by simp
    show thesis
      using before_iterate_keeps [where b = b and env = env] before_iterate_keeps(2-) [of env b]
      by (intro that [OF b]) (auto simp: a' keeps_def)
  next
    case (Inr u)
    then have p: "pump env (an_account (after_iterate env b cl)) lines (after_iterate env b cl) = Some a'" using x by simp
    show thesis
      using after_iterate_keeps [where b = b and env = env and cl = cl] pump_keeps [OF p]
      by (intro that [OF b]) (auto simp: same_flags_def intro: keeps_trans)
  qed
qed

text \<open>The work of the first tick, pulled out of the tick.\<close>

lemma tick_started: "startup env a = Some b \<Longrightarrow> tick env h lines a = tick env h lines b"
proof -
  assume b: "startup env a = Some b"
  then have "startup env b = Some b" using startup_keeps [OF b] by (simp add: startup_def)
  then show ?thesis using b by (simp add: tick_def)
qed

lemma tick_announce: "an_started b \<Longrightarrow> tick env h lines b = tick env h lines (announce env b)"
proof -
  assume "an_started b"
  then have "startup env b = Some b" "startup env (announce env b) = Some (announce env b)"
    using announce_keeps(4) [of env b] by (simp_all add: startup_def)
  moreover have "announce env (announce env b) = announce env b"
    using announce_keeps(3) [of env b] by (simp add: announce_def [of env "announce env b"])
  ultimately show ?thesis by (simp add: tick_def)
qed

lemma tick_announced:
  assumes "tick env h lines a = Some (a', r)"
  obtains b where "startup env a = Some b" "keeps (announce env b) a'"
proof -
  obtain b where b: "startup env a = Some b" using tick_keeps [OF assms] by blast
  then have st: "an_started b" "an_started (announce env b)"
    using startup_keeps [OF b] announce_keeps(4) [of env b] by simp_all
  have "tick env h lines (announce env b) = Some (a', r)"
    using assms tick_started [OF b, of h lines] tick_announce [OF st(1), of env h lines] by simp
  then have "keeps (announce env b) a'"
    using tick_keeps st(2) by (metis option.inject startup_def)
  then show thesis by (rule that [OF b])
qed

lemma startup_fresh:
  assumes "startup env a = Some b" "\<not> an_started a"
  obtains w where "dispatch env resolve_request (an_account a) (an_world a) = Some w"
    "b = a\<lparr>an_started := True, an_store := w_store w, an_dag := w_dag w, an_out := w_out w,
        an_client := (case an_pending_load a of None \<Rightarrow> unwrap_or (w_client w) (an_client a)
          | Some acc \<Rightarrow> fst (load_account (e_lib env) acc (unwrap_or (w_client w) (an_client a)))),
        an_pending_load := None\<rparr>"
proof -
  have w: "an_world (a\<lparr>an_started := True\<rparr>) = an_world a" by (simp add: an_world_def)
  obtain v where v: "dispatch env resolve_request (an_account a) (an_world a) = Some v"
    using assms by (auto simp: startup_def an_dispatch_def w)
  show thesis
    by (rule that [OF v]) (use assms v in \<open>auto simp: startup_def an_dispatch_def w put_world_def split: option.splits\<close>)
qed

section \<open>Ticks return\<close>

text \<open>
  In every state of a store the active theme and the themes above it are among finitely many: a store holds
  finitely many terms, and the walk passes from a term to a term of the store.
\<close>

definition finite_parents :: "'s oxigraph \<Rightarrow> bool" where
  "finite_parents ox \<longleftrightarrow> (\<forall>s. finite_themes ox s)"

lemma an_dispatch_total: "finite_parents (e_ox env) \<Longrightarrow> an_dispatch env acct line a \<noteq> None"
  using dispatch_total [of line env "an_world a" acct] by (auto simp: an_dispatch_def finite_parents_def)

lemma dispatch_all_total: "finite_parents (e_ox env) \<Longrightarrow> dispatch_all env acct lines a \<noteq> None"
proof (induction lines arbitrary: a)
  case (Cons line lines)
  obtain b where "an_dispatch env acct line a = Some b" using an_dispatch_total [OF Cons.prems] by blast
  then show ?case using Cons by simp
qed simp

lemma pump_total: "finite_parents (e_ox env) \<Longrightarrow> pump env acct lines a \<noteq> None"
proof -
  assume f: "finite_parents (e_ox env)"
  obtain b where "dispatch_all env acct (filter (\<lambda>l. l \<noteq> []) lines) a = Some b"
    using dispatch_all_total [OF f] by blast
  then show ?thesis using dispatch_all_total [OF f] by (simp add: pump_def Let_def split_beta)
qed

lemma startup_total: "finite_parents (e_ox env) \<Longrightarrow> startup env a \<noteq> None"
  using an_dispatch_total [of env "an_account a" resolve_request "a\<lparr>an_started := True\<rparr>"]
  by (auto simp: startup_def)

lemma iterate_release: "iterate lib False tid cl \<noteq> None"
  by (simp add: iterate_def Let_def)

section \<open>Graphs of the store\<close>

text \<open>
  What loading and clearing do to the graphs, on the contents \<open>graph\<close> of a store: a load adds a reading of the
  document to its graph or changes nothing, clearing empties one graph or changes nothing.  \<open>reads doc\<close> are the
  sets of triples that a document can stand for, one for each choice of its blank nodes, which a load
  names anew, and none if it is not Turtle.
\<close>

definition graph_laws :: "'s oxigraph \<Rightarrow> (str \<Rightarrow> 't set set) \<Rightarrow> ('s \<Rightarrow> str option \<Rightarrow> 't set) \<Rightarrow> bool" where
  "graph_laws ox reads graph \<longleftrightarrow>
     (\<forall>s doc g. case ox_load ox s doc g of
        (s', Inl e) \<Rightarrow> graph s' = graph s
      | (s', Inr _) \<Rightarrow> \<exists>ts \<in> reads doc. graph s' = (graph s)(g := graph s g \<union> ts)) \<and>
     (\<forall>s g. case ox_clear ox s g of
        (s', Inl e) \<Rightarrow> graph s' = graph s
      | (s', Inr _) \<Rightarrow> graph s' = (graph s)(Some g := {}))"

lemma graph_laws_load:
  "graph_laws ox reads graph \<Longrightarrow> case ox_load ox s doc g of
     (s', Inl e) \<Rightarrow> graph s' = graph s
   | (s', Inr _) \<Rightarrow> \<exists>ts \<in> reads doc. graph s' = (graph s)(g := graph s g \<union> ts)"
  by (simp add: graph_laws_def)

lemma graph_laws_clear:
  "graph_laws ox reads graph \<Longrightarrow> case ox_clear ox s g of
     (s', Inl e) \<Rightarrow> graph s' = graph s
   | (s', Inr _) \<Rightarrow> graph s' = (graph s)(Some g := {})"
  by (simp add: graph_laws_def)

lemma graph_load:
  "graph_laws ox reads graph \<Longrightarrow> ox_load ox s doc g = (s', Inr u) \<Longrightarrow>
    \<exists>ts \<in> reads doc. graph s' = (graph s)(g := graph s g \<union> ts)"
  using graph_laws_load [of ox reads graph s doc g] by simp

lemma graph_load_other:
  "graph_laws ox reads graph \<Longrightarrow> g' \<noteq> g \<Longrightarrow> graph (fst (ox_load ox s doc g)) g' = graph s g'"
  using graph_laws_load [of ox reads graph s doc g] by (auto split: prod.splits sum.splits)

lemma graph_clear:
  "graph_laws ox reads graph \<Longrightarrow> ox_clear ox s g = (s', Inr u) \<Longrightarrow> graph s' = (graph s)(Some g := {})"
  using graph_laws_clear [of ox reads graph s g] by simp

lemma insert_turtle_named:
  "graph_laws ox reads graph \<Longrightarrow> graph (fst (insert_turtle ox s t)) (Some g) = graph s (Some g)"
  by (simp add: insert_turtle_def graph_load_other)

lemma then_do_Inr: "then_do r f = (s', Inr b) \<Longrightarrow> \<exists>s a. r = (s, Inr a) \<and> f s = (s', Inr b)"
  by (cases r; cases "snd r") auto

lemma insert_with_dag_named:
  "graph_laws (e_ox env) reads graph \<Longrightarrow>
    graph (w_store (insert_with_dag env line w)) (Some g) = graph (w_store w) (Some g)"
  using insert_turtle_named [of "e_ox env" reads graph "w_store w" line g]
  by (cases "insert_turtle (e_ox env) (w_store w) line")
    (simp add: insert_with_dag_def Let_def split: sum.split)

lemma fold_named:
  assumes "\<And>x w. graph (w_store (f x w)) g = graph (w_store w) g"
  shows "graph (w_store (fold f xs w)) g = graph (w_store w) g"
  by (induction xs arbitrary: w) (simp_all add: assms)

lemma handle_spin_named:
  assumes "graph_laws (e_ox env) reads graph"
    and "drop (length sp_ns) t \<notin> {''InsertData'', ''DeleteData'', ''Modify''}"
  shows "graph (w_store (handle_spin env line t w)) (Some g) = graph (w_store w) (Some g)"
proof -
  have "graph (w_store (spin_construct env q w)) (Some g) = graph (w_store w) (Some g)" for q
    using insert_turtle_named [OF assms(1)]
    by (auto simp: spin_construct_def sparql_failed_def construct_triple_def Let_def
        intro!: fold_named split: sum.split query_results.split)
  moreover have "w_store (spin_select env q w) = w_store w" "w_store (spin_ask env q w) = w_store w" for q
    using only_answers_frame spin_select_frame spin_ask_frame by blast+
  ultimately show ?thesis using assms(2) by (simp add: handle_spin_def Let_def split: option.split)
qed

text \<open>Only the three classes of SPARQL updates can write to a named graph.\<close>

definition updates_store :: "str \<Rightarrow> bool" where
  "updates_store line \<longleftrightarrow> extract_rdf_type (strip_leading_directives line)
     \<in> {Some (sp_ns @ ''InsertData''), Some (sp_ns @ ''DeleteData''), Some (sp_ns @ ''Modify'')}"

lemma dispatch_named:
  assumes "graph_laws (e_ox env) reads graph" "dispatch env line dflt w = Some w'" "\<not> updates_store line"
  shows "graph (w_store w') (Some g) = graph (w_store w) (Some g)"
proof -
  note insert = insert_with_dag_named [OF assms(1)]
  have spin: "graph (w_store (handle_spin env l t v)) (Some g) = graph (w_store v) (Some g)"
    if "starts_with sp_ns t" "t \<notin> {sp_ns @ ''InsertData'', sp_ns @ ''DeleteData'', sp_ns @ ''Modify''}" for l t v
    using that by (intro handle_spin_named [OF assms(1)]) (auto simp: starts_with_iff)
  have blocklist: "graph (w_store (handle_subscribe_blocklist env l v)) (Some g) = graph (w_store v) (Some g)" for l v
    using insert by (auto simp: handle_subscribe_blocklist_def intro!: fold_named split: option.split sum.split)
  have "graph (w_store v') (Some g) = graph (w_store v) (Some g)"
    if "route env l dflt t v = Some v'" "t \<notin> {sp_ns @ ''InsertData'', sp_ns @ ''DeleteData'', sp_ns @ ''Modify''}" for l t v v'
  proof (cases "starts_with carrier_ns t \<or> starts_with design_ns t")
    case True
    then show ?thesis using route_frame(4) [OF that(1)] by simp
  next
    case False
    then show ?thesis using that spin blocklist insert by (auto simp: route_def split: if_splits)
  qed
  then show ?thesis
    using assms(2,3) insert unfolding dispatch_def updates_store_def Let_def by (auto split: if_splits option.splits)
qed

lemma replace_pipeline_graphs:
  assumes "graph_laws ox reads graph" "replace_pipeline ox ttl s = (s', Inr ())"
  shows "graph s' (Some trusted_pipeline_graph) \<in> reads (insert_doc ttl)"
    and "\<exists>ts \<in> reads (insert_doc ttl). ts \<subseteq> graph s' None"
proof -
  let ?g = "Some trusted_pipeline_graph"
  obtain s2 where "then_do (insert_turtle ox s2 ttl) (\<lambda>s. then_do (clear_graph ox s trusted_pipeline_graph)
      (\<lambda>s. insert_turtle_to_graph ox s ttl trusted_pipeline_graph)) = (s', Inr ())"
    using assms(2) unfolding replace_pipeline_def by (blast dest: then_do_Inr)
  then obtain s3 s4 u v where l: "insert_turtle ox s2 ttl = (s3, Inr u)" "clear_graph ox s3 trusted_pipeline_graph = (s4, Inr v)"
      "insert_turtle_to_graph ox s4 ttl trusted_pipeline_graph = (s', Inr ())"
    by (blast dest: then_do_Inr)
  obtain ts where ts: "ts \<in> reads (insert_doc ttl)" "graph s3 = (graph s2)(None := graph s2 None \<union> ts)"
    using graph_load [OF assms(1) l(1) [unfolded insert_turtle_def]] by blast
  have "ox_clear ox s3 trusted_pipeline_graph = (s4, Inr v)"
    using l(2) by (simp add: clear_graph_def split: sum.splits)
  from graph_clear [OF assms(1) this] have s4: "graph s4 = (graph s3)(?g := {})" .
  have "ox_load ox s4 (insert_doc ttl) ?g = (s', Inr ())"
    using l(3) by (simp add: insert_turtle_to_graph_def split: sum.splits)
  from graph_load [OF assms(1) this] obtain ts' where
    ts': "ts' \<in> reads (insert_doc ttl)" "graph s' = (graph s4)(?g := graph s4 ?g \<union> ts')" by blast
  show "graph s' ?g \<in> reads (insert_doc ttl)" using ts' s4 by simp
  show "\<exists>ts \<in> reads (insert_doc ttl). ts \<subseteq> graph s' None" using ts ts'(2) s4 by (intro bexI [of _ ts]) simp_all
qed

lemma tick_total:
  assumes "finite_parents (e_ox env)" "\<not> h_debug_build h"
  shows "\<exists>b cl x a'. startup env a = Some b \<and>
    iterate (e_lib env) False (h_thread h) (an_client (before_iterate env b)) = Some (cl, x) \<and>
    tick env h lines a = Some (a', x)"
proof -
  obtain b where b: "startup env a = Some b" using startup_total [OF assms(1)] by blast
  obtain cl x where i: "iterate (e_lib env) False (h_thread h) (an_client (before_iterate env b)) = Some (cl, x)"
    using iterate_release by fastforce
  have "\<exists>a'. tick env h lines a = Some (a', x)"
  proof (cases x)
    case (Inl e)
    then show ?thesis using b i assms(2) by (auto simp: tick_stages)
  next
    case (Inr u)
    obtain a' where "pump env (an_account (after_iterate env b cl)) lines (after_iterate env b cl) = Some a'"
      using pump_total [OF assms(1)] by blast
    then show ?thesis using b i assms(2) Inr by (auto simp: tick_stages)
  qed
  then show ?thesis using b i by blast
qed

section \<open>The loop ends with an error only\<close>

text \<open>The rounds that end without an error.\<close>

fun rounds :: "('s, 'c) env \<Rightarrow> host \<Rightarrow> (nat \<Rightarrow> str list) \<Rightarrow> nat \<Rightarrow> nat \<Rightarrow> ('s, 'c) antenna \<Rightarrow> ('s, 'c) antenna option" where
  "rounds env h inputs n 0 a = Some a"
| "rounds env h inputs n (Suc k) a =
     (case tick env h (inputs n) (fst (run_timeout env a)) of
        Some (a', Inr _) \<Rightarrow> rounds env h inputs (Suc n) k a'
      | _ \<Rightarrow> None)"

lemma run_rounds:
  assumes "run env h inputs n a = Some r"
  shows "\<exists>k b. rounds env h inputs n k a = Some b \<and>
    tick env h (inputs (n + k)) (fst (run_timeout env b)) = Some (fst r, Inl (snd r))"
proof (rule run.raw_induct [OF _ assms])
  fix run env h inputs n a r
  assume a: "\<And>env h inputs n a r. run env h inputs n a = Some r \<Longrightarrow> \<exists>k b. rounds env h inputs n k a = Some b \<and>
    tick env h (inputs (n + k)) (fst (run_timeout env b)) = Some (fst r, Inl (snd r))"
  assume b: "(case tick env h (inputs n) (fst (run_timeout env a)) of
        None \<Rightarrow> None
      | Some (a', r) \<Rightarrow> (case r of Inl e \<Rightarrow> Some (a', e) | Inr _ \<Rightarrow> run env h inputs (Suc n) a')) = Some r"
  show "\<exists>k b. rounds env h inputs n k a = Some b \<and>
    tick env h (inputs (n + k)) (fst (run_timeout env b)) = Some (fst r, Inl (snd r))"
  proof (cases "tick env h (inputs n) (fst (run_timeout env a))")
    case None
    then show ?thesis using b by simp
  next
    case (Some p)
    obtain a' x where p: "p = (a', x)" by force
    show ?thesis
    proof (cases x)
      case (Inl e)
      then show ?thesis using b Some p by (intro exI [of _ 0] exI [of _ a]) auto
    next
      case (Inr u)
      then obtain k c where "rounds env h inputs (Suc n) k a' = Some c"
          "tick env h (inputs (Suc n + k)) (fst (run_timeout env c)) = Some (fst r, Inl (snd r))"
        using a b Some p by fastforce
      then show ?thesis using Some p Inr by (intro exI [of _ "Suc k"] exI [of _ c]) auto
    qed
  qed
qed

lemma tick_out: "tick env h lines a = Some (a', r) \<Longrightarrow> \<exists>sent. an_out a' = an_out a @ sent"
  using tick_keeps [of env h lines a a' r] startup_keeps [of env a] unfolding keeps_def by (metis append_assoc)

text \<open>For the examples: a host of a release build, and a context with an account.\<close>

definition sample_host :: host where
  "sample_host = \<lparr>h_design_bundle = [], h_resolver = [], h_emoji = [], h_peer_scripting = True, h_debug_build = False,
     h_node_order = (\<lambda>x. x), h_router_order = (\<lambda>x. x), h_clocks = (\<lambda>_. None), h_spawns = (\<lambda>_. True),
     h_backend = (\<lambda>_. Inr ()), h_thread = 0\<rparr>"

definition sample_antenna :: "str \<Rightarrow> 'c client \<Rightarrow> (str list, 'c) antenna" where
  "sample_antenna account cl = \<lparr>an_store = [], an_dag = empty_dag, an_client = cl, an_account = account,
     an_bootstrap = None, an_pending_load = Some account, an_started = False, an_out = []\<rparr>"

definition sample_client :: "nat client" where
  "sample_client = \<lparr>cl_lib = 0, cl_queue = [], cl_iterate_thread = None, cl_pending_export = None\<rparr>"

lemma sample_finite: "finite_parents (e_ox (sample_env (\<lambda>_. Solutions [])))"
proof -
  have "parent_of (e_ox (sample_env (\<lambda>_. Solutions []))) s x = Inr None" for s x
    by (simp add: parent_of_def first_binding_def store_query_def sample_env_def sample_store_def)
  then show ?thesis by (simp add: finite_parents_def finite_themesI)
qed

lemma sample_tick:
  "\<exists>a' r. tick (sample_env (\<lambda>_. Solutions [])) sample_host lines a = Some (a', r)"
  using tick_total [OF sample_finite, of sample_host a lines] by (auto simp: sample_host_def)

section \<open>Properties\<close>

text \<open>
  Once the context has an account no tick changes it; from an empty one a tick goes at most to
  an account named in an event that mentions \<open>carrier:AccountReady\<close>.
\<close>

theorem account_is_learned_once:
  assumes "tick env h lines a = Some (a', r)"
  shows "an_account a' = an_account a \<or>
    an_account a = [] \<and> (\<exists>turtle. contains ''carrier:AccountReady'' turtle \<and>
      extract_property turtle ''carrier:account'' = Some (an_account a'))"
proof -
  obtain b where "startup env a = Some b" "an_account a' = an_account b \<or> an_account b = [] \<and> learned (an_account a')"
    using tick_keeps [OF assms] by metis
  then show ?thesis using startup_keeps [of env a b] by (auto simp: learned_def)
qed

theorem account_is_learned_once_witness:
  "\<exists>a' r. tick (sample_env (\<lambda>_. Solutions [])) sample_host [] (sample_antenna ''me'' sample_client) = Some (a', r) \<and>
     an_account a' = ''me''"
proof -
  obtain a' r where t: "tick (sample_env (\<lambda>_. Solutions [])) sample_host [] (sample_antenna ''me'' sample_client) = Some (a', r)"
    using sample_tick by blast
  show ?thesis using account_is_learned_once [OF t] t by (simp add: sample_antenna_def)
qed

text \<open>
  C11: the work of the first tick is done once.  A tick of a context that has not started is the tick of
  a started one in which that work is done: the request of the theme was dispatched, the account that was
  put off was loaded, after it, and the announcement was sent, broadcast, stored and broadcast again; a
  tick of a started context that still has an announcement is the tick of one in which it was made.  The
  output has the answer to the request first, then the announcement.  After any tick the start is marked
  as done, the announcement is gone and a further start changes nothing; every tick only adds to the
  output and leaves the graph wired as it was.
\<close>

theorem startup_happens_once:
  assumes "tick env h lines a = Some (a', r)"
  shows "an_started a' \<and> an_bootstrap a' = None \<and> startup env a' = Some a' \<and> announce env a' = a' \<and>
    (\<exists>sent. an_out a' = an_out a @ sent) \<and> dg_writers (an_dag a') = dg_writers (an_dag a) \<and>
    (if an_started a then an_pending_load a' = an_pending_load a
     else an_pending_load a' = None \<and>
       (\<exists>w sent. dispatch env resolve_request (an_account a) (an_world a) = Some w \<and>
          an_out a' = w_out w @ (case an_bootstrap a of None \<Rightarrow> [] | Some turtle \<Rightarrow> [turtle]) @ sent \<and>
          (let cl = unwrap_or (w_client w) (an_client a)
           in tick env h lines a = tick env h lines
             (a\<lparr>an_started := True, an_store := w_store w, an_dag := w_dag w, an_out := w_out w,
                an_client := (case an_pending_load a of None \<Rightarrow> cl | Some acc \<Rightarrow> fst (load_account (e_lib env) acc cl)),
                an_pending_load := None\<rparr>)))) \<and>
    (\<forall>turtle. an_started a \<longrightarrow> an_bootstrap a = Some turtle \<longrightarrow>
       (\<exists>sent. an_out a' = an_out a @ [turtle] @ sent) \<and>
       tick env h lines a = tick env h lines
         (a\<lparr>an_bootstrap := None, an_out := an_out a @ [turtle],
            an_dag := after_insert turtle (before_insert turtle (an_dag a)),
            an_store := fst (insert_turtle (e_ox env) (an_store a) turtle)\<rparr>))"
proof -
  obtain b where b: "startup env a = Some b" and kb: "keeps (announce env b) a'"
    by (rule tick_announced [OF assms])
  have k: "keeps b a'" "an_bootstrap a' = None" "an_started a' = an_started b" "an_pending_load a' = an_pending_load b"
    by (rule tick_keeps [OF assms]; use b in simp)+
  note s = startup_keeps [OF b]
  have out: "\<exists>sent. an_out a' = an_out b @ (case an_bootstrap b of None \<Rightarrow> [] | Some turtle \<Rightarrow> [turtle]) @ sent"
    using kb by (auto simp: keeps_def announce_def publish_def split: option.splits)
  have keeps: "keeps a a'" using s k(1) keeps_trans by blast
  have fresh: "\<exists>w sent. dispatch env resolve_request (an_account a) (an_world a) = Some w \<and>
      an_out a' = w_out w @ (case an_bootstrap a of None \<Rightarrow> [] | Some turtle \<Rightarrow> [turtle]) @ sent \<and>
      (let cl = unwrap_or (w_client w) (an_client a)
       in tick env h lines a = tick env h lines
         (a\<lparr>an_started := True, an_store := w_store w, an_dag := w_dag w, an_out := w_out w,
            an_client := (case an_pending_load a of None \<Rightarrow> cl | Some acc \<Rightarrow> fst (load_account (e_lib env) acc cl)),
            an_pending_load := None\<rparr>))"
    if un: "\<not> an_started a"
  proof -
    obtain w where w: "dispatch env resolve_request (an_account a) (an_world a) = Some w"
        "b = a\<lparr>an_started := True, an_store := w_store w, an_dag := w_dag w, an_out := w_out w,
            an_client := (case an_pending_load a of None \<Rightarrow> unwrap_or (w_client w) (an_client a)
              | Some acc \<Rightarrow> fst (load_account (e_lib env) acc (unwrap_or (w_client w) (an_client a)))),
            an_pending_load := None\<rparr>"
      by (rule startup_fresh [OF b un])
    have "an_out b = w_out w" "an_bootstrap b = an_bootstrap a" by (simp_all add: w(2))
    then show ?thesis using out tick_started [OF b, of h lines] w by (simp add: Let_def)
  qed
  have late: "(\<exists>sent. an_out a' = an_out a @ [turtle] @ sent) \<and>
       tick env h lines a = tick env h lines
         (a\<lparr>an_bootstrap := None, an_out := an_out a @ [turtle],
            an_dag := after_insert turtle (before_insert turtle (an_dag a)),
            an_store := fst (insert_turtle (e_ox env) (an_store a) turtle)\<rparr>)"
    if "an_started a" "an_bootstrap a = Some turtle" for turtle
  proof -
    have "b = a" using b that(1) by (simp add: startup_def)
    then show ?thesis
      using out that tick_announce [OF that(1), of env h lines] by (simp add: announce_def publish_def)
  qed
  have "announce env a' = a'" using k(2) by (simp add: announce_def)
  then show ?thesis using s k keeps fresh late by (simp add: keeps_def startup_def)
qed

text \<open>An account that is put off and an announcement; the library notes its calls.\<close>

theorem startup_happens_once_witness:
  "\<exists>a' r. tick (sample_env (\<lambda>_. Solutions [])) sample_host []
       ((sample_antenna ''me'' sample_client)\<lparr>an_bootstrap := Some ''[] a antenna:OnboardingRequired .''\<rparr>) = Some (a', r) \<and>
     an_started a' \<and> an_bootstrap a' = None \<and> an_pending_load a' = None \<and>
     (\<exists>w sent. an_out a' = w_out (w :: (str list, nat) world) @ ''[] a antenna:OnboardingRequired .'' # sent)"
proof -
  let ?a = "(sample_antenna ''me'' sample_client)\<lparr>an_bootstrap := Some ''[] a antenna:OnboardingRequired .''\<rparr>"
  obtain a' r where t: "tick (sample_env (\<lambda>_. Solutions [])) sample_host [] ?a = Some (a', r)"
    using sample_tick by blast
  have "an_started a' \<and> an_bootstrap a' = None \<and> an_pending_load a' = None \<and>
     (\<exists>w sent. an_out a' = w_out (w :: (str list, nat) world) @ ''[] a antenna:OnboardingRequired .'' # sent)"
    using startup_happens_once [OF t] by (simp add: sample_antenna_def) blast
  then show ?thesis using t by blast
qed

text \<open>
  Whatever event mentions \<open>carrier:AccountReady\<close>, be it the text of a message, the pending export
  is of the account of the context and not of the account that became ready: if the context has an
  account, the event is not looked at.
\<close>

theorem export_takes_the_account_of_the_context:
  assumes "contains ''carrier:AccountReady'' turtle" "an_account a \<noteq> []"
    and "cl_pending_export (an_client a) = Some path"
  shows "an_client (on_event env turtle a) =
      fst (export_account (e_lib env) (an_account a) path None ((an_client a)\<lparr>cl_pending_export := None\<rparr>)) \<and>
    an_account (on_event env turtle a) = an_account a"
  using assms by (simp add: on_event_def account_ready_def take_pending_auto_export_def learn_account_def publish_keeps)

text \<open>
  A message whose text mentions the event, while the export of an account being created is pending:
  the library, which notes its calls, is asked to export the account of the context.
\<close>

theorem export_takes_the_account_of_the_context_witness:
  "cl_lib (an_client (on_event
      \<lparr>e_ox = sample_store (\<lambda>_. Solutions []), e_crypto = sample_crypto,
       e_lib = (\<lambda>calls call. (calls @ [call], \<lparr>c_rc = 0, c_out = [], c_events = []\<rparr>))\<rparr>
      (''[] a carrier:TextMessage ; carrier:text '' @ quoted ''carrier:AccountReady'' @ '' .'')
      (sample_antenna ''a'' \<lparr>cl_lib = [], cl_queue = [], cl_iterate_thread = None, cl_pending_export = Some ''/p''\<rparr>)))
    = [C_export_account ''a'' ''/p'' None]"
proof -
  let ?env = "\<lparr>e_ox = sample_store (\<lambda>_. Solutions []), e_crypto = sample_crypto,
       e_lib = (\<lambda>calls call. (calls @ [call], \<lparr>c_rc = 0, c_out = [], c_events = []\<rparr>))\<rparr>"
  let ?a = "sample_antenna ''a'' \<lparr>cl_lib = [], cl_queue = [], cl_iterate_thread = None, cl_pending_export = Some ''/p''\<rparr>"
  have "contains ''carrier:AccountReady'' (''[] a carrier:TextMessage ; carrier:text '' @ quoted ''carrier:AccountReady'' @ '' .'')"
    by code_simp
  then show ?thesis
    using export_takes_the_account_of_the_context [of _ ?a "''/p''" ?env]
    by (simp add: sample_antenna_def export_account_def checked_def c_call_def cstring_def opt_cstring_def nul_def)
qed



text \<open>
  The loop waits between one and twenty-five milliseconds before each tick, whatever interval the
  library asks for, and it ends only with a tick that fails, after rounds that all succeed.
\<close>

theorem run_waits_and_stops:
  assumes "run env h inputs 0 a = Some (a', e)"
  shows "\<exists>k b. rounds env h inputs 0 k a = Some b \<and> 1 \<le> snd (run_timeout env b) \<and> snd (run_timeout env b) \<le> 25 \<and>
    tick env h (inputs k) (fst (run_timeout env b)) = Some (a', Inl e)"
proof -
  have "1 \<le> snd (run_timeout env b) \<and> snd (run_timeout env b) \<le> 25" for b
    by (simp add: run_timeout_def max_sleep_ms_def split_beta Let_def)
  then show ?thesis using run_rounds [OF assms] by auto
qed

text \<open>A library that fails to iterate at once.\<close>

theorem run_waits_and_stops_witness:
  "\<exists>a' e. run \<lparr>e_ox = sample_store (\<lambda>_. Solutions []), e_crypto = sample_crypto,
       e_lib = (\<lambda>n call. (n + 1, \<lparr>c_rc = (if call = C_iterate then - 1 else 99), c_out = [], c_events = []\<rparr>))\<rparr>
      sample_host (\<lambda>_. []) 0 (sample_antenna ''a'' sample_client) = Some (a', e) \<and>
    (\<exists>k b. rounds \<lparr>e_ox = sample_store (\<lambda>_. Solutions []), e_crypto = sample_crypto,
       e_lib = (\<lambda>n call. (n + 1, \<lparr>c_rc = (if call = C_iterate then - 1 else 99), c_out = [], c_events = []\<rparr>))\<rparr>
      sample_host (\<lambda>_. []) 0 k (sample_antenna ''a'' sample_client) = Some b)"
proof -
  let ?lib = "\<lambda>n call. (n + 1 :: nat, \<lparr>c_rc = (if call = C_iterate then - 1 else 99), c_out = [], c_events = []\<rparr>)"
  let ?env = "\<lparr>e_ox = sample_store (\<lambda>_. Solutions []), e_crypto = sample_crypto, e_lib = ?lib\<rparr>"
  let ?a = "sample_antenna ''a'' sample_client"
  have "finite_parents (e_ox ?env)" using sample_finite by (simp add: sample_env_def)
  moreover have "\<not> h_debug_build sample_host" by (simp add: sample_host_def)
  ultimately obtain b cl x a' where t: "iterate ?lib False (h_thread sample_host) (an_client (before_iterate ?env b)) = Some (cl, x)"
      "tick ?env sample_host [] (fst (run_timeout ?env ?a)) = Some (a', x)"
    using tick_total [of ?env sample_host "fst (run_timeout ?env ?a)" "[]"] by auto
  then obtain e where "x = Inl e" by (auto simp: iterate_def c_call_def Let_def split: if_splits)
  then have r: "run ?env sample_host (\<lambda>_. []) 0 ?a = Some (a', e)"
    using t(2) by (subst run.simps) simp
  show ?thesis using run_waits_and_stops [OF r] r by blast
qed

text \<open>
  After a pipeline was replaced the trusted graph is a reading of the pipeline and nothing else,
  whatever it held before, and the default graph holds one too.
\<close>

theorem replaced_pipeline_is_trusted:
  assumes "graph_laws ox reads graph" "replace_pipeline ox ttl s = (s', Inr ())"
  shows "graph s' (Some trusted_pipeline_graph) \<in> reads (insert_doc ttl) \<and> (\<exists>ts \<in> reads (insert_doc ttl). ts \<subseteq> graph s' None)"
  using replace_pipeline_graphs [OF assms] by blast

text \<open>A store that keeps the documents of each graph.\<close>

definition graph_store :: "(str option \<Rightarrow> str set) oxigraph" where
  "graph_store =
     \<lparr>ox_open = (\<lambda>_. Inr (\<lambda>_. {})), ox_iri = (\<lambda>_. Inr ()), ox_load = (\<lambda>s doc g. (s(g := insert doc (s g)), Inr ())),
      ox_clear = (\<lambda>s g. (s(Some g := {}), Inr ())), ox_query = (\<lambda>_ _. Inr (Solutions [])),
      ox_update = (\<lambda>s _. (s, Inr ())), ox_show = term_text\<rparr>"

lemma graph_store_laws: "graph_laws graph_store (\<lambda>doc. {{doc}}) (\<lambda>s. s)"
  by (simp add: graph_laws_def graph_store_def)

theorem replaced_pipeline_is_trusted_witness:
  "\<exists>s'. replace_pipeline graph_store ''<a> <b> <c> .'' (\<lambda>g. {''old''}) = (s', Inr ()) \<and>
    s' (Some trusted_pipeline_graph) = {insert_doc ''<a> <b> <c> .''}"
proof -
  obtain s' where r: "replace_pipeline graph_store ''<a> <b> <c> .'' (\<lambda>g. {''old''}) = (s', Inr ())"
    by (simp add: replace_pipeline_def store_update_def insert_turtle_def clear_graph_def insert_turtle_to_graph_def
      graph_store_def)
  show ?thesis using replaced_pipeline_is_trusted [OF graph_store_laws r] r by auto
qed

end
