(* ===== verification/Llm.thy ===== *)
theory Llm
  imports Turtle_Text
begin

text \<open>
  The language-model backends of a semantic router, \<^verbatim>\<open>src/llm.rs\<close>: the bodies of
  their requests, the hand-written readers of their answers, and the wait for an answer of the host
  application.  HTTP is not part of the repository: a request is a parameter from the URL and the
  body to the text of the answer or an error.  Texts are byte strings in UTF-8.
\<close>

section \<open>JSON\<close>

definition ticked :: "str \<Rightarrow> str" where
  "ticked s = CHR 0x27 # s @ [CHR 0x27]"

definition tab :: char where "tab = CHR 0x09"

text \<open>\<open>{:04x}\<close>\<close>

definition hex4 :: "nat \<Rightarrow> str" where
  "hex4 n = (let d = nat_to_hex n in replicate (4 - length d) (CHR ''0'') @ d)"

definition json_esc_char :: "char \<Rightarrow> str" where
  "json_esc_char c =
     (if c = quote then [backslash, quote]
      else if c = backslash then [backslash, backslash]
      else if c = newline then [backslash, CHR ''n'']
      else if c = creturn then [backslash, CHR ''r'']
      else if c = tab then [backslash, CHR ''t'']
      else if of_char c < (0x20 :: nat) then backslash # CHR ''u'' # hex4 (of_char c)
      else [c])"

definition json_escape :: "str \<Rightarrow> str" where
  "json_escape s = quote # concat (map json_esc_char s) @ [quote]"

text \<open>What an escape after the backslash stands for, and the rest; the empty text has no escape.\<close>

definition json_escape_seq :: "str \<Rightarrow> str \<times> str" where
  "json_escape_seq s =
     (case s of
        [] \<Rightarrow> (''?'', [])
      | d # r \<Rightarrow>
          if d = quote then ([quote], r)
          else if d = backslash then ([backslash], r)
          else if d = CHR ''n'' then ([newline], r)
          else if d = CHR ''r'' then ([creturn], r)
          else if d = CHR ''t'' then ([tab], r)
          else if d = CHR ''/'' then (''/'', r)
          else if d = CHR ''u'' then
            (let (hex, r') = take_chars 4 r
             in (case parse_uint 16 (2 ^ 32 - 1) hex of
                   Some cp \<Rightarrow> if is_scalar cp then encode_utf8 cp else []
                 | None \<Rightarrow> [], r'))
          else (''?'', snd (take_chars 1 s)))"

lemma take_chars_shorter: "length (snd (take_chars k s)) \<le> length s"
  using arg_cong [OF take_chars_append [of k s], of length] by simp

lemma json_escape_seq_shorter: "length (snd (json_escape_seq s)) \<le> length s"
  using take_chars_shorter [of 4 "tl s"] take_chars_shorter [of 1 s]
  by (cases s) (auto simp: json_escape_seq_def Let_def split_beta)

text \<open>The loop of \<open>parse_json_string\<close> after the opening quote.\<close>

function json_body :: "str \<Rightarrow> str + str" where
  "json_body [] = Inl ''unterminated JSON string''"
| "json_body (c # s) =
     (if c = quote then Inr []
      else if c = backslash then
        and_then (json_body (snd (json_escape_seq s))) (\<lambda>out. Inr (fst (json_escape_seq s) @ out))
      else and_then (json_body s) (\<lambda>out. Inr (c # out)))"
  by pat_completeness auto
termination
  by (relation "measure length") (use json_escape_seq_shorter in \<open>auto simp: le_imp_less_Suc\<close>)

definition parse_json_string :: "str \<Rightarrow> str + str" where
  "parse_json_string s = (if \<not> starts_with [quote] s then Inl (''expected '' @ ticked [quote]) else json_body (drop 1 s))"

definition extract_json_field :: "str \<Rightarrow> str \<Rightarrow> str + str" where
  "extract_json_field json field =
     (let key = quote # field @ [quote]
      in case find_str key json of
           None \<Rightarrow> Inl (''field '' @ ticked field @ '' not found in response'')
         | Some pos \<Rightarrow>
             (case strip_prefix '':'' (trim_start (drop (pos + length key) json)) of
                None \<Rightarrow> Inl (''malformed JSON after field '' @ ticked field)
              | Some after_colon \<Rightarrow>
                  let v = trim_start after_colon
                  in if \<not> starts_with [quote] v then Inl (''field '' @ ticked field @ '' is not a string'')
                     else parse_json_string v))"

definition extract_nested_content :: "str \<Rightarrow> str + str" where
  "extract_nested_content json = extract_json_field json ''content''"

lemma take_chars_ascii:
  "bv c < 128 \<Longrightarrow> take_chars (Suc k) (c # s) = (c # fst (take_chars k s), snd (take_chars k s))"
  by (simp add: split_beta Let_def)

lemma hex_char_digit: "d < 16 \<Longrightarrow> digit_val 16 (hex_char d) = Some d \<and> bv (hex_char d) < 128"
  by (auto simp: hex_char_def digit_val_def bv_def Let_def)

lemma hex_char_0 [simp]: "hex_char 0 = CHR ''0''"
  by (simp add: hex_char_def char_of_def bit_0)

lemma hex4_control:
  assumes "n < 32"
  shows "hex4 n = [CHR ''0'', CHR ''0'', hex_char (n div 16), hex_char (n mod 16)]"
    and "parse_uint 16 (2 ^ 32 - 1) (hex4 n) = Some n"
proof -
  have d: "n div 16 < 16" "n mod 16 < 16" using assms by simp_all
  show h: "hex4 n = [CHR ''0'', CHR ''0'', hex_char (n div 16), hex_char (n mod 16)]"
  proof (cases "n < 16")
    case True
    have "nat_to_hex n = [hex_char n]" using True by (subst nat_to_hex.simps) simp
    moreover have "replicate 3 (CHR ''0'') = ''000''" by (simp add: numeral_eq_Suc)
    ultimately show ?thesis using True by (simp add: hex4_def)
  next
    case False
    have "nat_to_hex (n div 16) = [hex_char (n div 16)]" using d(1) by (subst nat_to_hex.simps) simp
    then have "nat_to_hex n = [hex_char (n div 16), hex_char (n mod 16)]" using False by (subst nat_to_hex.simps) simp
    moreover have "replicate 2 (CHR ''0'') = ''00''" by (simp add: numeral_eq_Suc)
    ultimately show ?thesis by (simp add: hex4_def)
  qed
  have "digit_val 16 (CHR ''0'') = Some 0" using hex_char_digit [of 0] by simp
  then have "digits_val 16 0 (hex4 n) = Some n"
    using hex_char_digit [OF d(1)] hex_char_digit [OF d(2)] by (simp add: h)
  then show "parse_uint 16 (2 ^ 32 - 1) (hex4 n) = Some n"
    using assms by (simp add: parse_uint_def h)
qed

lemma json_body_esc_char: "json_body (json_esc_char c @ s) = and_then (json_body s) (\<lambda>out. Inr (c # out))"
proof (cases "c \<in> {quote, backslash, newline, creturn, tab}")
  case True
  then show ?thesis
    by (auto simp: json_esc_char_def json_escape_seq_def char_names tab_def)
next
  case False
  show ?thesis
  proof (cases "of_char c < (0x20 :: nat)")
    case True
    let ?h = "hex4 (of_char c)"
    have h: "?h = [CHR ''0'', CHR ''0'', hex_char (of_char c div 16), hex_char (of_char c mod 16)]"
      by (rule hex4_control(1)) (use True in simp)
    have "bv (hex_char (of_char c div 16)) < 128" "bv (hex_char (of_char c mod 16)) < 128" "bv (CHR ''0'') < 128"
      using True hex_char_digit by (simp_all add: bv_def)
    then have "take_chars (Suc (Suc (Suc (Suc 0)))) (?h @ s) = (?h, s)"
      unfolding h by (simp only: append.simps take_chars_ascii fst_conv snd_conv take_chars.simps(1))
    then have t: "take_chars 4 (?h @ s) = (?h, s)" by (simp only: numeral_eq_Suc pred_numeral_simps BitM.simps)
    have "parse_uint 16 (2 ^ 32 - 1) ?h = Some (of_char c)" by (rule hex4_control(2)) (use True in simp)
    then have "json_escape_seq (CHR ''u'' # ?h @ s) = ([c], s)"
      using True t by (simp add: json_escape_seq_def is_scalar_def encode_utf8_def char_names)
    then show ?thesis using True False by (simp add: json_esc_char_def char_names)
  next
    case f: False
    then show ?thesis using False by (simp add: json_esc_char_def)
  qed
qed

lemma json_body_escaped: "json_body (concat (map json_esc_char s) @ quote # rest) = Inr s"
  by (induction s) (simp_all add: json_body_esc_char)

lemma parse_json_escape: "parse_json_string (json_escape s @ rest) = Inr s"
  using json_body_escaped [of s rest] by (simp add: parse_json_string_def json_escape_def)

section \<open>Turtle\<close>

definition quotes3 :: str where "quotes3 = [quote, quote, quote]"

text \<open>A long literal: \<open>llm::turtle_escape\<close>, a function of the same name as the one of short literals.\<close>

definition long_literal :: "str \<Rightarrow> str" where
  "long_literal s =
     quotes3 @ replace_str quotes3 [backslash, quote, backslash, quote, backslash, quote]
       (replace_char backslash [backslash, backslash] s) @ quotes3"

definition turtle_escape_seq :: "str \<Rightarrow> str \<times> str" where
  "turtle_escape_seq s =
     (case s of
        [] \<Rightarrow> (''?'', [])
      | d # r \<Rightarrow>
          if d = quote then ([quote], r)
          else if d = backslash then ([backslash], r)
          else if d = CHR ''n'' then ([newline], r)
          else if d = CHR ''t'' then ([tab], r)
          else (''?'', snd (take_chars 1 s)))"

lemma turtle_escape_seq_shorter: "length (snd (turtle_escape_seq s)) \<le> length s"
  using take_chars_shorter [of 1 s] by (cases s) (auto simp: turtle_escape_seq_def)

function turtle_body :: "str \<Rightarrow> str + str" where
  "turtle_body [] = Inl ''unterminated string''"
| "turtle_body (c # s) =
     (if c = quote then Inr []
      else if c = backslash then
        and_then (turtle_body (snd (turtle_escape_seq s))) (\<lambda>out. Inr (fst (turtle_escape_seq s) @ out))
      else and_then (turtle_body s) (\<lambda>out. Inr (c # out)))"
  by pat_completeness auto
termination
  by (relation "measure length") (use turtle_escape_seq_shorter in \<open>auto simp: le_imp_less_Suc\<close>)

definition parse_turtle_string :: "str \<Rightarrow> str + str" where
  "parse_turtle_string s = (if \<not> starts_with [quote] s then Inl (''expected '' @ ticked [quote]) else turtle_body (drop 1 s))"

definition extract_turtle_completion :: "str \<Rightarrow> str + str" where
  "extract_turtle_completion turtle =
     (case find_str ''antenna:completion'' turtle of
        None \<Rightarrow> Inl ''no antenna:completion in response''
      | Some pos \<Rightarrow>
          let after = trim_start (drop (pos + length ''antenna:completion'') turtle)
          in (case strip_prefix quotes3 after of
               Some rest \<Rightarrow>
                 (case find_str quotes3 rest of
                    None \<Rightarrow> Inl ''unterminated triple-quoted literal''
                  | Some n \<Rightarrow> Inr (take n rest))
             | None \<Rightarrow>
                 if starts_with [quote] after then parse_turtle_string after
                 else Inl ''unexpected token after antenna:completion''))"

section \<open>Backends\<close>

definition drop_slashes :: "str \<Rightarrow> str" where
  "drop_slashes s = rev (dropWhile (\<lambda>c. c = CHR ''/'') (rev s))"

datatype backend = Ollama str str | Http_api str str | Platform str

definition ollama_new :: "str \<Rightarrow> str \<Rightarrow> backend" where
  "ollama_new endpoint model = Ollama (drop_slashes endpoint) model"

definition http_new :: "str \<Rightarrow> str \<Rightarrow> backend" where
  "http_new endpoint model = Http_api (drop_slashes endpoint) model"

text \<open>\<open>llm_http\<close> is the feature of that name; \<open>channels\<close> whether platform channels are given.\<close>

definition create_backend :: "bool \<Rightarrow> str \<Rightarrow> str \<Rightarrow> str \<Rightarrow> bool \<Rightarrow> str + backend" where
  "create_backend llm_http backend_type endpoint model channels =
     (if backend_type = ''ollama'' \<or> backend_type = ''http'' then
        (if llm_http then Inr (if backend_type = ''ollama'' then ollama_new endpoint model else http_new endpoint model)
         else Inl (''LLM backend '' @ ticked backend_type @ '' requires the `llm-http` feature (disabled in this build)''))
      else if backend_type = ''platform'' then
        (if channels then Inr (Platform model) else Inl ''platform backend requires llmRequest/llmResponse channels'')
      else Inl (''unknown LLM backend type: '' @ backend_type))"

definition json_pair :: "str \<Rightarrow> str \<Rightarrow> str" where
  "json_pair name v = quote # name @ quote # CHR '':'' # v"

definition ollama_body :: "str \<Rightarrow> str \<Rightarrow> str \<Rightarrow> nat \<Rightarrow> str" where
  "ollama_body model system user max_tokens =
     ''{'' @ json_pair ''model'' (quote # model @ [quote]) @ '','' @ json_pair ''system'' (json_escape system) @ '','' @
     json_pair ''prompt'' (json_escape user) @ '','' @ json_pair ''stream'' ''false'' @ '','' @
     json_pair ''options'' (''{'' @ json_pair ''num_predict'' (nat_to_dec max_tokens) @ ''}'') @ ''}''"

definition chat_message :: "str \<Rightarrow> str \<Rightarrow> str" where
  "chat_message role content =
     ''{'' @ json_pair ''role'' (quote # role @ [quote]) @ '','' @ json_pair ''content'' (json_escape content) @ ''}''"

definition http_body :: "str \<Rightarrow> str \<Rightarrow> str \<Rightarrow> nat \<Rightarrow> str" where
  "http_body model system user max_tokens =
     ''{'' @ json_pair ''model'' (quote # model @ [quote]) @ '','' @
     json_pair ''messages'' (''['' @ chat_message ''system'' system @ '','' @ chat_message ''user'' user @ '']'') @ '','' @
     json_pair ''max_tokens'' (nat_to_dec max_tokens) @ ''}''"

text \<open>The identifier of a request, from the milliseconds of the clock and a counter.\<close>

definition simple_id :: "nat \<Rightarrow> nat \<Rightarrow> str" where
  "simple_id t n = nat_to_hex t @ ''-'' @ nat_to_hex n"

definition platform_request :: "str \<Rightarrow> str \<Rightarrow> str \<Rightarrow> str \<Rightarrow> nat \<Rightarrow> str" where
  "platform_request request_id model system user max_tokens =
     ''@prefix antenna: <http://resonator.network/v2/antenna#> .'' @ newline #
     ''_:req a antenna:LlmRequest ;'' @ newline #
     ''    antenna:requestId '' @ quote # request_id @ quote # '' ;'' @ newline #
     ''    antenna:model '' @ quote # model @ quote # '' ;'' @ newline #
     ''    antenna:system '' @ long_literal system @ '' ;'' @ newline #
     ''    antenna:prompt '' @ long_literal user @ '' ;'' @ newline #
     ''    antenna:maxTokens '' @ nat_to_dec max_tokens @ '' .'' @ [newline]"

text \<open>
  The wait for the answer: each round has the milliseconds that remain when it begins and the lines
  that the poll of the round finds in the response channel.  No round left means that the call has
  not returned yet.
\<close>

fun platform_wait :: "str \<Rightarrow> (int \<times> str list) list \<Rightarrow> (str + str) option" where
  "platform_wait request_id [] = None"
| "platform_wait request_id ((remaining, turtles) # rounds) =
     (if remaining \<le> 0 then Some (Inl ''platform LLM timeout (120s)'')
      else case find (contains request_id) turtles of
             Some turtle \<Rightarrow> Some (extract_turtle_completion turtle)
           | None \<Rightarrow> platform_wait request_id rounds)"

text \<open>
  A completion: what it posts or sends, and its result.  \<open>post\<close> is the HTTP client.
\<close>

definition complete_http :: "(str \<Rightarrow> str \<Rightarrow> str + str) \<Rightarrow> str \<Rightarrow> str \<Rightarrow> (str \<Rightarrow> str + str) \<Rightarrow> str + str" where
  "complete_http post url body extract = and_then (post url body) extract"

definition backend_complete :: "(str \<Rightarrow> str \<Rightarrow> str + str) \<Rightarrow> str \<Rightarrow> (int \<times> str list) list \<Rightarrow> backend \<Rightarrow>
    str \<Rightarrow> str \<Rightarrow> nat \<Rightarrow> str list \<times> (str + str) option" where
  "backend_complete post request_id rounds backend system user max_tokens =
     (case backend of
        Ollama endpoint model \<Rightarrow>
          ([], Some (complete_http post (endpoint @ ''/api/generate'') (ollama_body model system user max_tokens)
             (\<lambda>t. extract_json_field t ''response'')))
      | Http_api endpoint model \<Rightarrow>
          ([], Some (complete_http post (endpoint @ ''/chat/completions'') (http_body model system user max_tokens)
             extract_nested_content))
      | Platform model \<Rightarrow>
          ([platform_request request_id model system user max_tokens], platform_wait request_id rounds))"

definition build_prompt :: "str \<Rightarrow> str \<Rightarrow> str \<Rightarrow> str" where
  "build_prompt turtle_a turtle_b pfx =
     trim pfx @ newline # newline # ''Graph A:'' @ newline # trim turtle_a @
     newline # newline # ''Graph B:'' @ newline # trim turtle_b"

section \<open>What the readers give back\<close>

definition without_return :: "str \<Rightarrow> str" where
  "without_return s = map (\<lambda>c. if c = creturn then CHR ''?'' else c) s"

lemma turtle_body_esc_char:
  "turtle_body (esc_char c @ s) = and_then (turtle_body s) (\<lambda>out. Inr ((if c = creturn then CHR ''?'' else c) # out))"
proof (cases "c \<in> {quote, backslash, newline, creturn}")
  case True
  have "take_chars (Suc 0) (CHR ''r'' # s) = (''r'', s)" by (subst take_chars_ascii) (simp_all add: bv_def)
  then show ?thesis
    using True by (auto simp: esc_char_def turtle_escape_seq_def char_names)
next
  case False
  then show ?thesis by (simp add: esc_char_def)
qed

lemma turtle_body_escaped: "turtle_body (dispatch_escape s @ quote # rest) = Inr (without_return s)"
  unfolding dispatch_lit.esc_concat by (induction s) (simp_all add: turtle_body_esc_char without_return_def)

lemma find_str_at_once: "find_str p (p @ s) = Some 0"
  using find_str_first [of "[]" p s] by simp

definition completion_line :: "str \<Rightarrow> str" where
  "completion_line literal = ''[] a antenna:LlmResponse ; antenna:completion '' @ literal @ '' .''"

lemma completion_value:
  assumes "trim_start (literal @ '' .'') = literal @ '' .''"
  shows "extract_turtle_completion (completion_line literal) =
    (case strip_prefix quotes3 (literal @ '' .'') of
       Some rest \<Rightarrow> (case find_str quotes3 rest of
          None \<Rightarrow> Inl ''unterminated triple-quoted literal''
        | Some n \<Rightarrow> Inr (take n rest))
     | None \<Rightarrow> if starts_with [quote] (literal @ '' .'') then parse_turtle_string (literal @ '' .'')
         else Inl ''unexpected token after antenna:completion'')"
proof -
  have "find_str ''antenna:completion'' (completion_line literal) = Some 27"
    by (simp add: completion_line_def)
  moreover have "drop (27 + length ''antenna:completion'') (completion_line literal) = CHR '' '' # literal @ '' .''"
    by (simp add: completion_line_def)
  ultimately show ?thesis using assms by (simp add: extract_turtle_completion_def Let_def)
qed

lemma quote_not_in_escape: "quote \<notin> set s \<Longrightarrow> quote \<notin> set (replace_char backslash [backslash, backslash] s)"
  by (induction s) (auto simp: char_names)

lemma long_literal_plain:
  assumes "quote \<notin> set s"
  shows "long_literal s = quotes3 @ replace_char backslash [backslash, backslash] s @ quotes3"
proof -
  have "\<not> contains quotes3 (replace_char backslash [backslash, backslash] s)"
    using quote_not_in_escape [OF assms] by (auto simp: contains_iff quotes3_def)
  then show ?thesis by (simp add: long_literal_def replace_str_absent)
qed

lemma find_quotes3:
  assumes "quote \<notin> set a"
  shows "find_str quotes3 (a @ quotes3 @ b) = Some (length a)"
proof (rule find_str_first)
  fix k assume "k < length a"
  then have "hd (drop k (a @ quotes3 @ b)) = a ! k" "drop k (a @ quotes3 @ b) \<noteq> []"
    by (simp_all add: hd_drop_conv_nth nth_append)
  moreover have "a ! k \<noteq> quote" using assms \<open>k < length a\<close> by (metis nth_mem)
  ultimately show "\<not> starts_with quotes3 (drop k (a @ quotes3 @ b))"
    by (cases "drop k (a @ quotes3 @ b)") (auto simp: quotes3_def)
qed

section \<open>Properties\<close>

text \<open>
  C34: a text written into a JSON object by \<open>json_escape\<close> is read back by \<open>extract_json_field\<close> as it
  was, control characters, quotation marks and backslashes included, whatever follows it.
\<close>

theorem json_field_round_trip:
  "extract_json_field (''{'' @ json_pair field (json_escape s) @ rest) field = Inr s"
proof -
  let ?key = "quote # field @ [quote]"
  let ?json = "''{'' @ ?key @ CHR '':'' # json_escape s @ rest"
  have "find_str ?key ?json = Some 1"
    using find_str_first [of "''{''" ?key "CHR '':'' # json_escape s @ rest"] by (simp add: char_names)
  moreover have "trim_start (CHR '':'' # t) = CHR '':'' # t" for t by (simp add: plain_char_def ascii_white_def)
  moreover have "trim_start (json_escape s @ rest) = json_escape s @ rest"
    by (simp add: json_escape_def plain_char_def ascii_white_def char_names)
  moreover have "starts_with [quote] (json_escape s @ rest)" by (simp add: json_escape_def)
  ultimately show ?thesis
    using parse_json_escape [of s rest]
    by (simp add: extract_json_field_def json_pair_def Let_def)
qed

text \<open>
  Of an answer of the host, a text written as a short literal is read back with each carriage
  return replaced by a question mark, and a text without quotation marks written as a long literal
  is read back with every backslash doubled: the reader undoes the escapes of the first form but for
  one, and none of the second.
\<close>

theorem completion_reads_literals:
  "extract_turtle_completion (completion_line (quote # dispatch_escape s @ [quote])) =
      Inr (map (\<lambda>c. if c = creturn then CHR ''?'' else c) s) \<and>
   extract_turtle_completion (completion_line (long_literal (filter (\<lambda>c. c \<noteq> quote) s))) =
      Inr (replace_char backslash [backslash, backslash] (filter (\<lambda>c. c \<noteq> quote) s))"
proof
  have plain: "plain_char quote" by (simp add: plain_char_def ascii_white_def char_names)
  have "strip_prefix quotes3 (quote # dispatch_escape s @ quote # '' .'') = None"
  proof (cases s)
    case Nil
    then show ?thesis by (simp add: quotes3_def dispatch_lit.esc_concat char_names)
  next
    case (Cons c t)
    have "dispatch_escape s \<noteq> [] \<and> hd (dispatch_escape s) \<noteq> quote"
      by (simp add: Cons dispatch_lit.esc_concat esc_char_def char_names)
    then show ?thesis by (cases "dispatch_escape s") (auto simp: quotes3_def)
  qed
  then show "extract_turtle_completion (completion_line (quote # dispatch_escape s @ [quote])) =
      Inr (map (\<lambda>c. if c = creturn then CHR ''?'' else c) s)"
    using turtle_body_escaped [of s "'' .''"] plain
    by (simp add: completion_value parse_turtle_string_def without_return_def)
next
  let ?s = "filter (\<lambda>c. c \<noteq> quote) s" and ?e = "replace_char backslash [backslash, backslash]"
  have "plain_char quote" by (simp add: plain_char_def ascii_white_def char_names)
  then have "trim_start (long_literal ?s @ '' .'') = long_literal ?s @ '' .''"
    by (simp add: long_literal_def quotes3_def)
  moreover have "strip_prefix quotes3 (long_literal ?s @ '' .'') = Some (?e ?s @ quotes3 @ '' .'')"
    by (simp add: long_literal_plain)
  moreover have "find_str quotes3 (?e ?s @ quotes3 @ '' .'') = Some (length (?e ?s))"
    by (rule find_quotes3) (simp add: quote_not_in_escape)
  ultimately show "extract_turtle_completion (completion_line (long_literal ?s)) = Inr (?e ?s)"
    by (simp add: completion_value)
qed

text \<open>
  The wait for the host ends once no time remains, with the completion of a line that names the
  request or with the error of the time limit; if no line comes in, as with a channel that nobody
  writes to, it is the error.
\<close>

theorem platform_wait_ends:
  assumes "\<exists>round \<in> set rounds. fst round \<le> 0"
  shows "(platform_wait request_id rounds = Some (Inl ''platform LLM timeout (120s)'') \<or>
      (\<exists>turtle \<in> set (concat (map snd rounds)). contains request_id turtle \<and>
         platform_wait request_id rounds = Some (extract_turtle_completion turtle))) \<and>
    (concat (map snd rounds) = [] \<longrightarrow>
      platform_wait request_id rounds = Some (Inl ''platform LLM timeout (120s)''))"
  using assms
proof (induction rounds)
  case (Cons r rounds)
  obtain remaining turtles where r: "r = (remaining, turtles)" by force
  show ?case
  proof (cases "remaining \<le> 0")
    case True
    then show ?thesis by (simp add: r)
  next
    case False
    then have rest: "\<exists>round \<in> set rounds. fst round \<le> 0" using Cons.prems by (auto simp: r)
    show ?thesis
    proof (cases "find (contains request_id) turtles")
      case None
      then show ?thesis using False Cons.IH [OF rest] by (auto simp: r)
    next
      case (Some turtle)
      then have "turtle \<in> set turtles" "contains request_id turtle" by (auto simp: find_Some_iff)
      then show ?thesis using False Some by (auto simp: r)
    qed
  qed
qed simp

text \<open>A line of another request, then nothing until the time is over.\<close>

theorem platform_wait_ends_witness:
  "platform_wait (simple_id 10 1) [(500, [''[] a antenna:LlmResponse .'']), (0, [])] =
     Some (Inl ''platform LLM timeout (120s)'')"
proof -
  have "simple_id 10 1 = ''a-1''" by (simp add: simple_id_def nat_to_hex.simps hex_char_def char_of_def bit_0)
  moreover have "\<not> contains ''a-1'' ''[] a antenna:LlmResponse .''" by code_simp
  ultimately show ?thesis
    using platform_wait_ends [of "[(500, [''[] a antenna:LlmResponse .'']), (0, [])]" "simple_id 10 1"] by auto
qed

end
