(* ===== verification/Semantic_Router.thy ===== *)
theory Semantic_Router
  imports Dag Llm
begin

text \<open>
  The thread of a semantic router, from \<open>Dag::load\<close> of \<^verbatim>\<open>src/dag.rs\<close>: it latches the
  latest message of each of its two inboxes, and when it has both it asks its backend for a third
  graph, checks the answer and emits it, with one retry.  The backend is a parameter on a state of
  its own, the Turtle parser one from a document to the number of its triples or an error.  The
  thread runs beside the main thread, which broadcasts into its inboxes: a step relation has the
  rounds of the one and the broadcasts of the other in any order.
\<close>

section \<open>Checking an answer\<close>

definition router_prefixes :: str where
  "router_prefixes =
     prefix_decl ''res'' ''https://resonator.network/'' @ newline #
     prefix_decl ''antenna'' antenna_ns @ newline #
     prefix_decl ''rdfs'' ''http://www.w3.org/2000/01/rdf-schema#'' @ newline #
     prefix_decl ''xsd'' ''http://www.w3.org/2001/XMLSchema#'' @ newline #
     prefix_decl ''rdf'' rdf_ns @ [newline]"

text \<open>The parser reports the number of triples before its first error.\<close>

definition validate_turtle :: "(str \<Rightarrow> str + nat) \<Rightarrow> str \<Rightarrow> str + str" where
  "validate_turtle parse raw =
     (let full = router_prefixes @ newline # trim raw
      in case parse full of
           Inl e \<Rightarrow> Inl (''Turtle parse error: '' @ e)
         | Inr count \<Rightarrow> if count = 0 then Inl ''LLM produced no triples'' else Inr full)"

text \<open>The backend of a router; the platform channels are given to the platform backend only.\<close>

definition router_backend :: "bool \<Rightarrow> router_def \<Rightarrow> str + backend" where
  "router_backend llm_http rd =
     create_backend llm_http (rd_backend_type rd) (rd_endpoint rd) (rd_model rd) (rd_backend_type rd = ''platform'')"

section \<open>A round of the thread\<close>

type_synonym 'l completer = "'l \<Rightarrow> str \<Rightarrow> str \<Rightarrow> nat \<Rightarrow> 'l \<times> (str + str)"

record 'l router =
  rt_a :: "str option"
  rt_b :: "str option"
  rt_emits :: "str list"
  rt_llm :: 'l

definition router_start :: "'l \<Rightarrow> 'l router" where
  "router_start l = \<lparr>rt_a = None, rt_b = None, rt_emits = [], rt_llm = l\<rparr>"

definition system_text :: "str \<Rightarrow> str" where
  "system_text system_prompt =
     ''You are an RDF synthesis engine. Given two Turtle RDF graphs, '' @
     ''produce a third that captures the semantic relationship between them. '' @
     ''Output ONLY valid Turtle triples using the provided prefixes. '' @
     ''No explanation.'' @ newline # system_prompt"

definition retry_prompt :: "str \<Rightarrow> str \<Rightarrow> str" where
  "retry_prompt user_prompt err =
     user_prompt @ newline # newline # ''Your previous output had a parse error: '' @ err @
     newline # ''Please fix and output valid Turtle only.''"

definition error_turtle :: "str \<Rightarrow> str" where
  "error_turtle err =
     prefix_decl ''antenna'' antenna_ns @ newline #
     ''[] a antenna:Error ; antenna:message '' @ quote # replace_char quote [CHR 0x27] err @ quote # '' .'' @ [newline]"

text \<open>What a firing emits, and the state of the backend after it.\<close>

definition router_fire :: "'l completer \<Rightarrow> (str \<Rightarrow> str + nat) \<Rightarrow> router_def \<Rightarrow> str \<Rightarrow> str \<Rightarrow> 'l \<Rightarrow> 'l \<times> str list" where
  "router_fire ask parse rd a b l =
     (let user_prompt = build_prompt a b router_prefixes;
          system = system_text (rd_system_prompt rd)
      in case ask l system user_prompt (rd_max_tokens rd) of
           (l1, Inl e) \<Rightarrow> (l1, [])
         | (l1, Inr raw) \<Rightarrow>
             (case validate_turtle parse raw of
                Inr valid \<Rightarrow> (l1, [valid])
              | Inl err1 \<Rightarrow>
                  (case ask l1 system (retry_prompt user_prompt err1) (rd_max_tokens rd) of
                     (l2, Inl e) \<Rightarrow> (l2, [])
                   | (l2, Inr raw2) \<Rightarrow>
                       (case validate_turtle parse raw2 of
                          Inr valid \<Rightarrow> (l2, [valid])
                        | Inl err2 \<Rightarrow> (l2, [error_turtle err2])))))"

text \<open>Emptying an inbox that the poll reported readable; the latest message that is not empty stays.\<close>

definition read_inbox :: "nat \<Rightarrow> bool \<Rightarrow> dag \<Rightarrow> (dag \<times> str list) option" where
  "read_inbox n readable d =
     (if readable
      then (case drain channel_recv (dg_rings d ! n) of
              None \<Rightarrow> None
            | Some (c, msgs) \<Rightarrow> Some (d\<lparr>dg_rings := (dg_rings d)[n := c],
                dg_syscalls := dg_syscalls d @ clock_consume (ch_clock (dg_rings d ! n))\<rparr>, msgs))
      else Some (d, []))"

definition latch :: "str list \<Rightarrow> str option \<Rightarrow> str option" where
  "latch msgs cur = fold (\<lambda>m cur. if m = [] then cur else Some m) msgs cur"

definition fire_if_full :: "'l completer \<Rightarrow> (str \<Rightarrow> str + nat) \<Rightarrow> router_def \<Rightarrow> 'l router \<Rightarrow> 'l router" where
  "fire_if_full ask parse rd rt =
     (case (rt_a rt, rt_b rt) of
        (Some a, Some b) \<Rightarrow>
          (let (l, out) = router_fire ask parse rd a b (rt_llm rt)
           in \<lparr>rt_a = None, rt_b = None, rt_emits = rt_emits rt @ out, rt_llm = l\<rparr>)
      | _ \<Rightarrow> rt)"

text \<open>
  A round on the inboxes \<open>na\<close> and \<open>nb\<close>, with what \<open>poll\<close> reports of each; \<open>None\<close> for an error of
  \<open>poll\<close>, which skips the round.
\<close>

definition router_round :: "'l completer \<Rightarrow> (str \<Rightarrow> str + nat) \<Rightarrow> router_def \<Rightarrow> nat \<Rightarrow> nat \<Rightarrow> (bool \<times> bool) option \<Rightarrow>
    dag \<times> 'l router \<Rightarrow> (dag \<times> 'l router) option" where
  "router_round ask parse rd na nb polled st =
     (case (polled, st) of
        (None, _) \<Rightarrow> Some st
      | (Some (ready_a, ready_b), d, rt) \<Rightarrow>
          Option.bind (read_inbox na ready_a d) (\<lambda>(d1, msgs_a).
          Option.bind (read_inbox nb ready_b d1) (\<lambda>(d2, msgs_b).
            Some (d2, fire_if_full ask parse rd (rt\<lparr>rt_a := latch msgs_a (rt_a rt), rt_b := latch msgs_b (rt_b rt)\<rparr>)))))"

section \<open>Rounds and broadcasts\<close>

inductive router_step :: "'l completer \<Rightarrow> (str \<Rightarrow> str + nat) \<Rightarrow> router_def \<Rightarrow> nat \<Rightarrow> nat \<Rightarrow>
    dag \<times> 'l router \<Rightarrow> dag \<times> 'l router \<Rightarrow> bool"
  for ask parse rd na nb where
  Round: "router_round ask parse rd na nb polled st = Some st' \<Longrightarrow> router_step ask parse rd na nb st st'"
| Broadcast: "router_step ask parse rd na nb (d, rt) (broadcast uri turtle d, rt)"

inductive_cases router_stepE: "router_step ask parse rd na nb (d, rt) (d', rt')"

text \<open>What a line that is emitted can be.\<close>

definition checked_line :: "(str \<Rightarrow> str + nat) \<Rightarrow> str \<Rightarrow> bool" where
  "checked_line parse line \<longleftrightarrow> (\<exists>n. parse line = Inr (Suc n)) \<or> (\<exists>e. line = error_turtle e)"

definition router_inv :: "(str \<Rightarrow> str + nat) \<Rightarrow> 'l router \<Rightarrow> bool" where
  "router_inv parse rt \<longleftrightarrow> (rt_a rt = None \<or> rt_b rt = None) \<and> list_all (checked_line parse) (rt_emits rt)"

lemma validate_turtle_checked: "validate_turtle parse raw = Inr line \<Longrightarrow> checked_line parse line"
  by (auto simp: validate_turtle_def checked_line_def Let_def not0_implies_Suc split: sum.splits if_splits)

lemma error_turtle_checked: "checked_line parse (error_turtle e)"
  by (auto simp: checked_line_def)

lemma router_fire_emits:
  "length (snd (router_fire ask parse rd a b l)) \<le> 1 \<and>
   list_all (checked_line parse) (snd (router_fire ask parse rd a b l))"
  by (auto simp: router_fire_def Let_def error_turtle_checked dest: validate_turtle_checked
      split: prod.split sum.split)

lemma fire_if_full_inv:
  "list_all (checked_line parse) (rt_emits rt) \<Longrightarrow> router_inv parse (fire_if_full ask parse rd rt)"
  by (simp add: fire_if_full_def router_inv_def split_beta Let_def router_fire_emits split: option.split)

lemma fire_if_full_prefix: "\<exists>out. rt_emits (fire_if_full ask parse rd rt) = rt_emits rt @ out \<and> length out \<le> 1"
proof (cases "rt_a rt = None \<or> rt_b rt = None")
  case True
  then show ?thesis by (auto simp: fire_if_full_def split: option.split)
next
  case False
  then obtain a b where "rt_a rt = Some a" "rt_b rt = Some b" by auto
  then show ?thesis
    using router_fire_emits [of ask parse rd a b "rt_llm rt"] by (simp add: fire_if_full_def split_beta Let_def)
qed

lemma router_round_cases:
  assumes "router_round ask parse rd na nb polled (d, rt) = Some (d', rt')"
  obtains (error) "polled = None" "d' = d" "rt' = rt"
  | (round) ready_a ready_b d1 msgs_a msgs_b where "polled = Some (ready_a, ready_b)"
      "read_inbox na ready_a d = Some (d1, msgs_a)" "read_inbox nb ready_b d1 = Some (d', msgs_b)"
      "rt' = fire_if_full ask parse rd (rt\<lparr>rt_a := latch msgs_a (rt_a rt), rt_b := latch msgs_b (rt_b rt)\<rparr>)"
proof (cases polled)
  case None
  then show thesis using assms error by (simp add: router_round_def)
next
  case (Some p)
  obtain ra rb where p: "p = (ra, rb)" by force
  show thesis using assms Some p round by (auto simp: router_round_def bind_eq_Some_conv)
qed

lemma router_step_inv:
  assumes "router_step ask parse rd na nb (d, rt) (d', rt')" "router_inv parse rt"
  shows "router_inv parse rt'"
  using assms(1)
proof (rule router_stepE)
  fix polled assume r: "router_round ask parse rd na nb polled (d, rt) = Some (d', rt')"
  show "router_inv parse rt'"
    using r
  proof (cases rule: router_round_cases)
    case error
    then show ?thesis using assms(2) by simp
  next
    case (round ready_a ready_b d1 msgs_a msgs_b)
    show ?thesis using assms(2) unfolding round(4) by (intro fire_if_full_inv) (simp add: router_inv_def)
  qed
next
  assume "rt' = rt"
  then show "router_inv parse rt'" using assms(2) by simp
qed

lemma latch_append: "latch (xs @ ys) cur = latch ys (latch xs cur)"
  by (simp add: latch_def)

lemma latch_eq: "latch msgs cur = (case filter (\<lambda>m. m \<noteq> []) msgs of [] \<Rightarrow> cur | m # ms \<Rightarrow> Some (last (m # ms)))"
  by (induction msgs arbitrary: cur) (auto simp: latch_def split: list.split)

section \<open>Properties\<close>

text \<open>
  C10: whatever is broadcast between its rounds and whatever its backend answers, a router never ends
  a round with both messages latched, and every line it has emitted is one in which the parser finds
  at least one triple, or an \<open>antenna:Error\<close> line of its own.
\<close>

theorem router_emits_checked_lines:
  assumes "(router_step ask parse rd na nb)\<^sup>*\<^sup>* (d, router_start l) (d', rt)"
  shows "(rt_a rt = None \<or> rt_b rt = None) \<and>
    list_all (\<lambda>line. (\<exists>n. parse line = Inr (Suc n)) \<or> (\<exists>e. line = error_turtle e)) (rt_emits rt)"
proof -
  have "router_inv parse (snd (d', rt))"
    using assms
  proof (induction rule: rtranclp_induct)
    case base
    show ?case by (simp add: router_inv_def router_start_def)
  next
    case (step st st')
    obtain d1 rt1 d2 rt2 where "st = (d1, rt1)" "st' = (d2, rt2)" by force
    then show ?case using router_step_inv step by auto
  qed
  then show ?thesis by (simp add: router_inv_def checked_line_def [abs_def])
qed

text \<open>Two inboxes with a message each, a backend that answers and a parser that accepts everything.\<close>

theorem router_emits_checked_lines_witness:
  "\<exists>rd d' rt. (router_step (\<lambda>n system user max. (n + 1, Inr ''x'')) (\<lambda>_. Inr 1) rd 0 1)\<^sup>*\<^sup>*
      (empty_dag\<lparr>dg_rings := replicate 2 (fst (channel_put \<lparr>ch_ring = ring_new 16, ch_clock = \<lparr>read_fd = 3, write_fd = 3\<rparr>\<rparr> ''hi''))\<rparr>,
       router_start (0 :: nat)) (d', rt) \<and>
    rt_emits rt = [router_prefixes @ newline # ''x''] \<and> rt_llm rt = 1 \<and> (rt_a rt = None \<or> rt_b rt = None)"
proof -
  let ?ask = "\<lambda>n system user max. (n + 1 :: nat, Inr ''x'')" and ?parse = "\<lambda>_. Inr (1 :: nat)"
  define c0 where "c0 = \<lparr>ch_ring = ring_new 16, ch_clock = \<lparr>read_fd = 3, write_fd = 3\<rparr>\<rparr>"
  define c where "c = fst (channel_put c0 ''hi'')"
  define c' where "c' = fst (channel_recv c)"
  define c'' where "c'' = fst (channel_recv c')"
  have "snd (channel_recv c) = Some ''hi''" "snd (channel_recv c') = None"
    unfolding c'_def c_def c0_def by code_simp+
  then have recv: "channel_recv c = (c', Some ''hi'')" "channel_recv c' = (c'', None)"
    by (simp_all add: c'_def c''_def prod_eq_iff)
  then have drain: "drain channel_recv c = Some (c'', [''hi''])"
    by (subst drain.simps, simp, subst drain.simps, simp)
  define d where "d = empty_dag\<lparr>dg_rings := replicate 2 c\<rparr>"
  have rings: "dg_rings d = [c, c]" by (simp add: d_def numeral_eq_Suc)
  let ?d1 = "d\<lparr>dg_rings := (dg_rings d)[0 := c''],
      dg_syscalls := dg_syscalls d @ clock_consume (ch_clock (dg_rings d ! 0))\<rparr>"
  have a: "read_inbox 0 True d = Some (?d1, [''hi''])" by (simp add: read_inbox_def rings drain)
  obtain d2 where b: "read_inbox 1 True ?d1 = Some (d2, [''hi''])" by (simp add: read_inbox_def rings drain)
  have x: "trim ''x'' = ''x''" by code_simp
  have "router_round ?ask ?parse rd 0 1 (Some (True, True)) (d, router_start 0) =
      Some (d2, \<lparr>rt_a = None, rt_b = None, rt_emits = [router_prefixes @ newline # ''x''], rt_llm = 1\<rparr>)"
    using b by (simp add: router_round_def a router_start_def latch_def fire_if_full_def router_fire_def
      validate_turtle_def x Let_def)
  from router_step.Round [OF this]
  have s: "(router_step ?ask ?parse rd 0 1)\<^sup>*\<^sup>* (d, router_start 0)
      (d2, \<lparr>rt_a = None, rt_b = None, rt_emits = [router_prefixes @ newline # ''x''], rt_llm = 1\<rparr>)"
    by (rule r_into_rtranclp)
  show ?thesis using s router_emits_checked_lines [OF s] unfolding d_def c_def c0_def by (intro exI conjI) auto
qed

end
