(* ===== verification/Utf8_Cut.thy ===== *)
theory Utf8_Cut
  imports Utf8
begin

text \<open>
  Where a Rust string may be cut: a prefix and a suffix of well-formed UTF-8 are well-formed when the
  suffix does not start with a continuation byte.  \<open>str::lines\<close> and \<open>str::trim\<close> cut there, so their
  results are strings again.
\<close>

definition boundary :: "str \<Rightarrow> bool" where
  "boundary s \<longleftrightarrow> (case s of [] \<Rightarrow> True | c # _ \<Rightarrow> \<not> cont_byte c)"

lemma boundary_simps [simp]: "boundary []" "boundary (c # s) \<longleftrightarrow> \<not> cont_byte c"
  by (simp_all add: boundary_def)

lemma follow_tests_cont: "follow_tests c = Some ps \<Longrightarrow> p \<in> set ps \<Longrightarrow> p d \<Longrightarrow> cont_byte d"
  by (auto simp: follow_tests_def second3_def second4_def Let_def split: if_splits)

lemma follow_boundary:
  "follow ps (a @ b) = length ps \<Longrightarrow> boundary b \<Longrightarrow> \<forall>p \<in> set ps. \<forall>d. p d \<longrightarrow> cont_byte d \<Longrightarrow>
    follow ps a = length ps"
proof (induction ps a rule: follow.induct)
  case (2 p ps)
  then show ?case by (cases b) (auto split: if_splits)
qed (auto split: if_splits)

lemma utf8_step_boundary:
  "fst (utf8_step (c # a @ b)) \<Longrightarrow> boundary b \<Longrightarrow> utf8_step (c # a @ b) = utf8_step (c # a)"
  using follow_boundary [of _ a b] follow_tests_cont [of c]
  by (auto simp: utf8_step.simps(2) split: option.splits)

lemma utf8_valid_cut: "utf8_valid (a @ b) \<Longrightarrow> boundary b \<Longrightarrow> utf8_valid a \<and> utf8_valid b"
proof (induction a rule: utf8_valid.induct)
  case (2 c a)
  have ok: "fst (utf8_step (c # a @ b))" using "2.prems"(1) by (simp add: utf8_valid.simps(2))
  note st = utf8_step_boundary [OF ok "2.prems"(2)]
  let ?n = "snd (utf8_step (c # a))"
  have n: "?n \<le> length (c # a)" by (rule utf8_step_le) simp
  have "utf8_valid (drop ?n (c # a @ b))" using "2.prems"(1) by (simp add: utf8_valid.simps(2) st)
  also have "drop ?n (c # a @ b) = drop ?n (c # a) @ b"
    using n by (metis append_Cons diff_is_0_eq drop0 drop_append)
  finally show ?case using "2.IH" "2.prems"(2) ok st by (simp add: utf8_valid.simps(2))
qed simp

text \<open>The encodings of white space are single characters.\<close>

lemma ascii_white_bv: "ascii_white a \<Longrightarrow> bv a < 128"
  by (auto simp: ascii_white_def bv_def)

lemma white2_bytes: "white2 a b \<Longrightarrow> bv a = 194 \<and> cont_byte b"
  by (auto simp: white2_def cont_byte_def bv_def)

lemma white3_bytes: "white3 a b c \<Longrightarrow> 224 < bv a \<and> bv a < 237 \<and> cont_byte b \<and> cont_byte c"
  unfolding white3_def by (elim disjE conjE insertE emptyE) (simp_all add: cont_byte_def bv_def)

lemma utf8_valid_2: "bv a = 194 \<Longrightarrow> cont_byte b \<Longrightarrow> utf8_valid [a, b]"
  by (simp add: utf8_valid.simps(2) utf8_step.simps(2) follow_tests_def)

lemma utf8_valid_3: "224 < bv a \<Longrightarrow> bv a < 237 \<Longrightarrow> cont_byte b \<Longrightarrow> cont_byte c \<Longrightarrow> utf8_valid [a, b, c]"
  by (simp add: utf8_valid.simps(2) utf8_step.simps(2) follow_tests_def second3_def)

lemma white_len_valid: "utf8_valid (take (white_len s) s)"
  unfolding white_len_def
  by (auto split: list.split simp: ascii_white_bv utf8_valid_2 utf8_valid_3 dest: white2_bytes white3_bytes)

lemma trim_start_valid: "utf8_valid s \<Longrightarrow> utf8_valid (trim_start s)"
proof (induction s rule: trim_start.induct)
  case (1 s)
  show ?case
  proof (cases "white_len s = 0")
    case False
    have "utf8_valid (take (white_len s) s @ drop (white_len s) s)" using "1.prems" by simp
    then have "utf8_valid (drop (white_len s) s)" using utf8_valid_append [OF white_len_valid] by blast
    then show ?thesis using "1.IH" [OF False] False by (simp add: trim_start.simps [of s])
  qed (use "1.prems" in \<open>simp add: trim_start_id\<close>)
qed

lemma white_len_rev_boundary: "white_len_rev s \<noteq> 0 \<Longrightarrow> boundary (rev (take (white_len_rev s) s))"
  unfolding white_len_rev_def
  by (auto split: list.splits if_splits dest!: ascii_white_bv white2_bytes white3_bytes simp: cont_byte_def)

lemma trim_rev_valid: "utf8_valid (rev s) \<Longrightarrow> utf8_valid (rev (trim_rev s))"
proof (induction s rule: trim_rev.induct)
  case (1 s)
  show ?case
  proof (cases "white_len_rev s = 0")
    case False
    have "rev s = rev (drop (white_len_rev s) s) @ rev (take (white_len_rev s) s)"
      by (metis append_take_drop_id rev_append)
    then have "utf8_valid (rev (drop (white_len_rev s) s))"
      using utf8_valid_cut white_len_rev_boundary [OF False] "1.prems" by metis
    then show ?thesis using "1.IH" [OF False] False by (simp add: trim_rev.simps [of s])
  qed (use "1.prems" in \<open>simp add: trim_rev.simps [of s]\<close>)
qed

lemma trim_valid: "utf8_valid s \<Longrightarrow> utf8_valid (trim s)"
  by (simp add: trim_def trim_end_def trim_rev_valid trim_start_valid)

lemma not_cont_newline [simp]: "\<not> cont_byte newline" "\<not> cont_byte creturn"
  by (simp_all add: cont_byte_def bv_def newline_def creturn_def)

lemma ascii_newline: "bv newline < 128"
  by (simp add: bv_def newline_def creturn_def)

lemma split_incl_shape:
  "split_incl s = [] \<and> s = [] \<or> (\<exists>p ps. split_incl s = p # ps \<and> s = p @ concat ps \<and> split_incl (concat ps) = ps \<and>
     (ps = [] \<or> (\<exists>l. p = l @ [newline])))"
proof (induction s)
  case (Cons c s)
  show ?case
  proof (cases "c = newline")
    case True
    then show ?thesis by (auto intro: exI [of _ "[]"])
  next
    case False
    show ?thesis using Cons False by (fastforce split: list.splits)
  qed
qed simp

lemma split_incl_valid: "utf8_valid s \<Longrightarrow> p \<in> set (split_incl s) \<Longrightarrow> utf8_valid p"
proof (induction "length s" arbitrary: s rule: less_induct)
  case less
  from split_incl_shape [of s] less.prems(2)
  obtain q ps where q: "split_incl s = q # ps" "s = q @ concat ps" "split_incl (concat ps) = ps"
      "ps = [] \<or> (\<exists>l. q = l @ [newline])" by auto
  have "utf8_valid q \<and> utf8_valid (concat ps)"
  proof (cases "ps = []")
    case False
    then obtain l where l: "q = l @ [newline]" using q(4) by blast
    have "utf8_valid l \<and> utf8_valid (newline # concat ps)"
      using utf8_valid_cut [of l "newline # concat ps"] less.prems(1) q(2) l by simp
    then show ?thesis using l by (simp add: ascii_newline utf8_valid_append)
  qed (use q less.prems in simp)
  moreover have "q \<noteq> []" using split_incl_nonempty [of q s] q(1) by simp
  ultimately show ?case
    using less.hyps [of "concat ps"] less.prems(2) q by auto
qed

lemma butlast_valid:
  assumes "utf8_valid l" "l \<noteq> []" "last l \<in> {newline, creturn}"
  shows "utf8_valid (butlast l)"
  using utf8_valid_cut [of "butlast l" "[last l]"] assms by auto

lemma chop_line_valid: "utf8_valid l \<Longrightarrow> utf8_valid (chop_line l)"
  by (simp add: chop_line_def Let_def butlast_valid)

lemma lines_of_valid: "utf8_valid s \<Longrightarrow> l \<in> set (lines_of s) \<Longrightarrow> utf8_valid l"
  by (auto simp: lines_of_def intro: chop_line_valid split_incl_valid)

section \<open>Framing by lines\<close>

text \<open>The lines of a text that the C interface and the WebSocket server hand on: trimmed, without empty ones.\<close>

definition turtle_lines :: "str list \<Rightarrow> str list" where
  "turtle_lines lines = filter (\<lambda>l. l \<noteq> []) (map trim lines)"

lemma turtle_lines_simps [simp]:
  "turtle_lines [] = []"
  "turtle_lines (l # ls) = (if trim l = [] then turtle_lines ls else trim l # turtle_lines ls)"
  by (simp_all add: turtle_lines_def)

lemma turtle_lines_valid: "utf8_valid s \<Longrightarrow> l \<in> set (turtle_lines (lines_of s)) \<Longrightarrow> utf8_valid l"
  by (auto simp: turtle_lines_def intro: trim_valid lines_of_valid)

end
