(* ===== verification/Ffi.thy ===== *)
theory Ffi
  imports Antenna Utf8_Cut "HOL-Library.Sublist"
begin

text \<open>
  The C interface of the runtime, \<^verbatim>\<open>src/ffi.rs\<close>: the handles and the slot of the live one, the
  worker thread that ticks the context of a handle between the two ring buffers, and the calls.

  The state of the process is the map of the handles that exist, the live slot and the strings that
  are lent to the caller.  Addresses come from the allocator.  A null pointer is \<open>None\<close>; a pointer
  that is not one of a handle breaks the contract of every call, and the model then answers as for a
  null one.  The calls are atomic: two calls of \<open>antenna_create\<close> that run at the same time, which in the
  code may both find the slot of the live handle empty, are not represented.  A round of the worker is atomic
  with respect to the calls: it takes the lines that have come in by then, and what it sends is put on the
  ring when it ends.  A round is given the panic of its tick, if the tick has one; only the injected one is
  computed.  The flag \<open>done\<close> is set only while a handle is being removed, so it is not part of the state.
\<close>

section \<open>Handles\<close>

definition ffi_ring_bytes :: nat where "ffi_ring_bytes = 2 ^ 20"

text \<open>
  \<open>fh_worker\<close> is the context as long as the worker's loop runs; \<open>fh_account\<close> is the account id the
  handle shares with it.
\<close>

record ('s, 'c) ffi_handle =
  fh_in :: channel
  fh_out :: channel
  fh_clock_fd :: int
  fh_poisoned :: bool
  fh_worker :: "('s, 'c) antenna option"
  fh_account :: str

record ('s, 'c) process =
  pr_handles :: "nat \<rightharpoonup> ('s, 'c) ffi_handle"
  pr_live :: "nat option"
  pr_strings :: "nat \<rightharpoonup> str"

definition initial_process :: "('s, 'c) process" where
  "initial_process = \<lparr>pr_handles = Map.empty, pr_live = None, pr_strings = Map.empty\<rparr>"

text \<open>\<open>opt_cstr\<close>: the bytes up to the terminating zero, which have to be UTF-8.\<close>

definition opt_cstr :: "str option \<Rightarrow> unit + str option" where
  "opt_cstr p =
     (case p of None \<Rightarrow> Inr None
      | Some s \<Rightarrow> (case from_utf8 s of Some t \<Rightarrow> Inr (Some t) | None \<Rightarrow> Inl ()))"

section \<open>Creating a handle\<close>

record create_args =
  ca_data_dir :: "str option"
  ca_account :: "str option"
  ca_store_dir :: "str option"
  ca_pipeline :: "str option"
  ca_seed :: "str option"
  ca_wants_id :: bool

text \<open>What the system answers: the state of the libraries, the clocks, the thread, the addresses.\<close>

record 'c create_env =
  ce_lib :: 'c
  ce_clock_in :: "clock option"
  ce_clock_out :: "clock option"
  ce_spawns :: bool
  ce_handle :: nat
  ce_string :: nat

definition ffi_handle_new :: "('s, 'c) antenna \<Rightarrow> channel \<Rightarrow> channel \<Rightarrow> ('s, 'c) ffi_handle" where
  "ffi_handle_new ctx cin cout =
     \<lparr>fh_in = cin, fh_out = cout, fh_clock_fd = read_fd (ch_clock cout), fh_poisoned = False,
      fh_worker = Some ctx, fh_account = an_account ctx\<rparr>"

text \<open>\<open>ok_or(())\<close>, and \<open>map_err\<close> with a function that only writes to the log.\<close>

definition ok_or_fail :: "'a option \<Rightarrow> unit + 'a" where
  "ok_or_fail x = (case x of None \<Rightarrow> Inl () | Some a \<Rightarrow> Inr a)"

definition drop_error :: "'e + 'a \<Rightarrow> unit + 'a" where
  "drop_error r = (case r of Inl _ \<Rightarrow> Inl () | Inr a \<Rightarrow> Inr a)"

definition ffi_build :: "('s, 'c) env \<Rightarrow> host \<Rightarrow> 'c create_env \<Rightarrow> create_args \<Rightarrow> unit + ('s, 'c) ffi_handle" where
  "ffi_build env h ce args =
     and_then (opt_cstr (ca_data_dir args)) (\<lambda>data_dir.
     and_then (ok_or_fail data_dir) (\<lambda>data_dir.
     and_then (opt_cstr (ca_account args)) (\<lambda>account_id.
     and_then (opt_cstr (ca_store_dir args)) (\<lambda>store_dir.
     and_then (opt_cstr (ca_pipeline args)) (\<lambda>pipeline_ttl.
     and_then (opt_cstr (ca_seed args)) (\<lambda>seed_ttl.
     and_then (drop_error (new_with_ttl env h data_dir account_id store_dir pipeline_ttl seed_ttl (ce_lib ce))) (\<lambda>ctx.
     and_then (ok_or_fail (channel_new ffi_ring_bytes (ce_clock_in ce))) (\<lambda>cin.
     and_then (ok_or_fail (channel_new ffi_ring_bytes (ce_clock_out ce))) (\<lambda>cout.
     and_then (ok_or_fail (if ce_spawns ce then Some () else None)) (\<lambda>_.
       Inr (ffi_handle_new ctx cin cout)))))))))))"

lemma ok_or_fail_Inr [simp]: "ok_or_fail x = Inr a \<longleftrightarrow> x = Some a"
  by (simp add: ok_or_fail_def split: option.split)

text \<open>Lending the account id to the caller, unless no C string can hold it.\<close>

definition lend_account :: "bool \<Rightarrow> nat \<Rightarrow> str \<Rightarrow> ('s, 'c) process \<Rightarrow> ('s, 'c) process \<times> nat option" where
  "lend_account wants q account pr =
     (if wants \<and> is_ok (cstring account)
      then (pr\<lparr>pr_strings := (pr_strings pr)(q \<mapsto> account)\<rparr>, Some q) else (pr, None))"

text \<open>The pointer that \<open>antenna_create\<close> returns, and the string it stores through \<open>out_account_id\<close>.\<close>

definition antenna_create :: "('s, 'c) env \<Rightarrow> host \<Rightarrow> 'c create_env \<Rightarrow> create_args \<Rightarrow> ('s, 'c) process \<Rightarrow>
    ('s, 'c) process \<times> nat option \<times> nat option" where
  "antenna_create env h ce args pr =
     (case pr_live pr of
        Some prev \<Rightarrow>
          (case pr_handles pr prev of
             None \<Rightarrow> (pr, Some prev, None)
           | Some fh \<Rightarrow>
               let (pr, q) = lend_account (ca_wants_id args) (ce_string ce) (fh_account fh) pr
               in (pr, Some prev, q))
      | None \<Rightarrow>
          (case ffi_build env h ce args of
             Inl _ \<Rightarrow> (pr, None, None)
           | Inr fh \<Rightarrow>
               let (pr, q) = lend_account (ca_wants_id args) (ce_string ce) (fh_account fh) pr
               in (pr\<lparr>pr_handles := (pr_handles pr)(ce_handle ce \<mapsto> fh), pr_live := Some (ce_handle ce)\<rparr>,
                   Some (ce_handle ce), q)))"

definition at_handle :: "nat option \<Rightarrow> ('s, 'c) process \<Rightarrow> ('s, 'c) ffi_handle option" where
  "at_handle p pr = Option.bind p (pr_handles pr)"

definition put_handle :: "nat \<Rightarrow> ('s, 'c) ffi_handle \<Rightarrow> ('s, 'c) process \<Rightarrow> ('s, 'c) process" where
  "put_handle p fh pr = pr\<lparr>pr_handles := (pr_handles pr)(p \<mapsto> fh)\<rparr>"

section \<open>Sending and draining\<close>

text \<open>\<open>push_turtle_lines\<close>, over any queue that says whether it took a line.\<close>

fun push_lines :: "('q \<Rightarrow> str \<Rightarrow> 'q \<times> bool) \<Rightarrow> str list \<Rightarrow> 'q \<Rightarrow> 'q \<times> int" where
  "push_lines push [] q = (q, 0)"
| "push_lines push (line # lines) q =
     (let trimmed = trim line
      in if trimmed = [] then push_lines push lines q
         else (let (q, ok) = push q trimmed in if ok then push_lines push lines q else (q, -3)))"

definition push_turtle_lines :: "('q \<Rightarrow> str \<Rightarrow> 'q \<times> bool) \<Rightarrow> str \<Rightarrow> 'q \<Rightarrow> 'q \<times> int" where
  "push_turtle_lines push input q = push_lines push (lines_of input) q"

text \<open>The bytes that a pointer and a length stand for.\<close>

definition raw_slice :: "str option \<Rightarrow> nat \<Rightarrow> str" where
  "raw_slice turtle len = (if len = 0 then [] else take len (unwrap_or turtle []))"

text \<open>The reader of the ring takes nothing while the call runs.\<close>

definition antenna_send :: "nat option \<Rightarrow> str option \<Rightarrow> nat \<Rightarrow> ('s, 'c) process \<Rightarrow> ('s, 'c) process \<times> int" where
  "antenna_send p turtle len pr =
     (if turtle = None \<and> 0 < len then (pr, -1)
      else case at_handle p pr of
        None \<Rightarrow> (pr, -1)
      | Some fh \<Rightarrow>
          if fh_poisoned fh then (pr, -4)
          else case from_utf8 (raw_slice turtle len) of
            None \<Rightarrow> (pr, -2)
          | Some s \<Rightarrow>
              let (c, rc) = push_turtle_lines channel_put s (fh_in fh)
              in (put_handle (unwrap_or p 0) (fh\<lparr>fh_in := c\<rparr>) pr, rc))"

definition max_c_int :: int where "max_c_int = 2 ^ 31 - 1"

text \<open>The return value, the documents given to the callback and the system calls.\<close>

definition antenna_drain :: "nat option \<Rightarrow> bool \<Rightarrow> ('s, 'c) process \<Rightarrow>
    (('s, 'c) process \<times> int \<times> str list \<times> syscall list) option" where
  "antenna_drain p has_cb pr =
     (case at_handle p pr of
        None \<Rightarrow> Some (pr, -1, [], [])
      | Some fh \<Rightarrow>
          let clk = clock_consume (ch_clock (fh_out fh))
          in if has_cb
             then map_option (\<lambda>(c, docs). (put_handle (unwrap_or p 0) (fh\<lparr>fh_out := c\<rparr>) pr,
                    min (int (length docs)) max_c_int, docs, clk)) (drain channel_recv (fh_out fh))
             else Some (pr, 0, [], clk))"

definition antenna_clock_fd :: "nat option \<Rightarrow> ('s, 'c) process \<Rightarrow> int" where
  "antenna_clock_fd p pr = (case at_handle p pr of None \<Rightarrow> -1 | Some fh \<Rightarrow> fh_clock_fd fh)"

text \<open>\<open>buf\<close> is what \<open>out_buf\<close> points at, at least \<open>len\<close> bytes.\<close>

definition antenna_account_id :: "nat option \<Rightarrow> str option \<Rightarrow> nat \<Rightarrow> ('s, 'c) process \<Rightarrow> str option \<times> nat" where
  "antenna_account_id p buf len pr =
     (case (at_handle p pr, buf) of
        (Some fh, Some bytes) \<Rightarrow>
          if len = 0 then (buf, 0)
          else let max_copy = min (length (fh_account fh)) (len - 1)
               in (Some ((take max_copy (fh_account fh) @ drop max_copy bytes)[max_copy := nul]), max_copy)
      | _ \<Rightarrow> (buf, 0))"

section \<open>Destroying\<close>

definition antenna_destroy :: "nat option \<Rightarrow> ('s, 'c) process \<Rightarrow> ('s, 'c) process" where
  "antenna_destroy p pr =
     (case p of
        None \<Rightarrow> pr
      | Some a \<Rightarrow> pr\<lparr>pr_live := (if pr_live pr = Some a then None else pr_live pr),
                    pr_handles := (pr_handles pr)(a := None)\<rparr>)"

definition antenna_free :: "nat option \<Rightarrow> ('s, 'c) process \<Rightarrow> ('s, 'c) process" where
  "antenna_free q pr = (case q of None \<Rightarrow> pr | Some a \<Rightarrow> pr\<lparr>pr_strings := (pr_strings pr)(a := None)\<rparr>)"

section \<open>The worker\<close>

datatype panic_payload = Static_message str | String_message str | Other_payload

fun panic_payload_message :: "panic_payload \<Rightarrow> str" where
  "panic_payload_message (Static_message s) = s"
| "panic_payload_message (String_message s) = s"
| "panic_payload_message Other_payload = ''(non-string panic payload)''"

definition worker_error :: "str \<Rightarrow> str" where
  "worker_error msg = ''[] a <http://resonator.network/v2/antenna#Error> ; ''
     @ ''<http://resonator.network/v2/antenna#message> '' @ quoted (ffi_escape msg) @ '' .''"

text \<open>
  \<open>DebugPanicIn\<close>, if the feature is compiled in: the lines it hands on, and whether it panics on the
  one after them.
\<close>

definition panic_line :: "str \<Rightarrow> bool" where
  "panic_line l \<longleftrightarrow> contains ''antenna:DebugPanic'' l"

definition debug_panic_in :: "bool \<Rightarrow> str list \<Rightarrow> str list \<times> bool" where
  "debug_panic_in feature lines =
     (if feature then (takeWhile (\<lambda>l. \<not> panic_line l) lines, list_ex panic_line lines) else (lines, False))"

definition debug_panic :: panic_payload where
  "debug_panic = Static_message ''antenna:DebugPanic injected via FFI input''"

text \<open>
  A tick up to the input that panics after some lines: \<open>Inl\<close> if it ends with an error before it
  looks at the input.
\<close>

definition tick_interrupted :: "('s, 'c) env \<Rightarrow> host \<Rightarrow> str list \<Rightarrow> ('s, 'c) antenna \<Rightarrow>
    (('s, 'c) antenna \<times> (str + unit)) option" where
  "tick_interrupted env h lines a =
     Option.bind (startup env a) (\<lambda>b.
     Option.bind (iterate (e_lib env) (h_debug_build h) (h_thread h) (an_client (before_iterate env b))) (\<lambda>(cl, r).
     case r of
       Inl e \<Rightarrow> Some ((before_iterate env b)\<lparr>an_client := cl\<rparr>, Inl e)
     | Inr _ \<Rightarrow>
         let c = after_iterate env b cl
         in map_option (\<lambda>a. (a, Inr ())) (dispatch_all env (an_account c) (filter (\<lambda>l. l \<noteq> []) lines) c)))"

text \<open>The tick of a round on the IN channel: the channel keeps its lines if the tick fails before it reads.\<close>

datatype tick_result = Ticked "str + unit" | Panicked panic_payload

definition skip_lines :: "nat \<Rightarrow> channel \<Rightarrow> channel" where
  "skip_lines n c = ((\<lambda>c. fst (channel_recv c)) ^^ n) c"

definition ffi_tick :: "('s, 'c) env \<Rightarrow> host \<Rightarrow> bool \<Rightarrow> channel \<Rightarrow> ('s, 'c) antenna \<Rightarrow>
    (('s, 'c) antenna \<times> channel \<times> tick_result) option" where
  "ffi_tick env h feature cin a =
     Option.bind (drain channel_recv cin) (\<lambda>(empty, lines).
     case debug_panic_in feature lines of
       (lines, False) \<Rightarrow>
         map_option (\<lambda>(a, r). (a, if is_ok r then empty else cin, Ticked r)) (tick env h lines a)
     | (lines, True) \<Rightarrow>
         map_option (\<lambda>(a, r). case r of
             Inl e \<Rightarrow> (a, cin, Ticked (Inl e))
           | Inr _ \<Rightarrow> (a, skip_lines (Suc (length lines)) cin, Panicked debug_panic))
           (tick_interrupted env h lines a))"

definition send_all :: "str list \<Rightarrow> channel \<Rightarrow> channel" where
  "send_all outs c = fold (\<lambda>s c. fst (channel_put c s)) outs c"

text \<open>
  Any other panic inside a tick, of the runtime or of a library it calls: what it had sent and how many
  lines it had read until then, the account id that it leaves to the handle, and the payload.
\<close>

record crash =
  cr_sent :: "str list"
  cr_read :: nat
  cr_account :: str
  cr_payload :: panic_payload

text \<open>What the loop does when a tick has panicked: the error is sent, the handle marked, the loop left.\<close>

definition poison :: "str list \<Rightarrow> panic_payload \<Rightarrow> ('s, 'c) ffi_handle \<Rightarrow> ('s, 'c) ffi_handle \<times> str list" where
  "poison sent payload fh =
     (let outs = sent @ [worker_error (panic_payload_message payload)]
      in (fh\<lparr>fh_out := send_all outs (fh_out fh), fh_worker := None, fh_poisoned := True\<rparr>, outs))"

text \<open>
  One round of the loop, with what it sends.  \<open>boom\<close> is the panic of the tick, if it has one of its own;
  without one, the result is \<open>None\<close> if the tick does not return.
\<close>

definition worker_round :: "('s, 'c) env \<Rightarrow> host \<Rightarrow> bool \<Rightarrow> crash option \<Rightarrow> ('s, 'c) ffi_handle \<Rightarrow>
    (('s, 'c) ffi_handle \<times> str list) option" where
  "worker_round env h feature boom fh =
     (case fh_worker fh of
        None \<Rightarrow> Some (fh, [])
      | Some a \<Rightarrow>
          (case boom of
             Some cr \<Rightarrow>
               Some (poison (cr_sent cr) (cr_payload cr)
                 (fh\<lparr>fh_in := skip_lines (cr_read cr) (fh_in fh), fh_account := cr_account cr\<rparr>))
           | None \<Rightarrow>
               map_option (\<lambda>(a', cin, r).
                 let sent = drop (length (an_out a)) (an_out a');
                     fh = fh\<lparr>fh_in := cin, fh_account := an_account a'\<rparr>
                 in case r of
                      Ticked _ \<Rightarrow> (fh\<lparr>fh_out := send_all sent (fh_out fh), fh_worker := Some a'\<rparr>, sent)
                    | Panicked payload \<Rightarrow> poison sent payload fh)
                 (ffi_tick env h feature (fh_in fh) (fst (run_timeout env a)))))"

section \<open>Lines through a queue\<close>

text \<open>The contract of a bounded queue of texts.\<close>

locale text_fifo = bounded_fifo enq deq contents inv ok sz limit
  for enq :: "'q \<Rightarrow> str \<Rightarrow> 'q \<times> bool" and deq contents inv ok sz limit
begin

definition held :: "'q \<Rightarrow> nat" where
  "held q = sum_list (map sz (contents q))"

lemma rejected:
  "inv q \<Longrightarrow> ok m \<Longrightarrow> enq q m = (q', False) \<Longrightarrow> contents q' = contents q \<and> inv q' \<and> limit q' < held q' + sz m"
  using accepts_iff [of q m] enq_contents [of q m] enq_inv [of q m] enq_limit [of q m] by (auto simp: held_def)

lemma accepted:
  "inv q \<Longrightarrow> ok m \<Longrightarrow> enq q m = (q', True) \<Longrightarrow> contents q' = contents q @ [m] \<and> inv q' \<and> limit q' = limit q"
  using enq_contents [of q m] enq_inv [of q m] enq_limit [of q m] by auto

text \<open>
  Pushing lines leaves some first ones of them in the queue: all of them exactly when the answer is
  0, and otherwise the next one does not fit.
\<close>

lemma push_lines_prefix:
  assumes "inv q" "\<forall>l \<in> set (turtle_lines lines). ok l" "push_lines enq lines q = (q', rc)"
  shows "\<exists>n. contents q' = contents q @ take n (turtle_lines lines) \<and> inv q' \<and> limit q' = limit q \<and>
    (rc = 0 \<and> n = length (turtle_lines lines) \<or>
     rc = -3 \<and> n < length (turtle_lines lines) \<and> limit q' < held q' + sz (turtle_lines lines ! n))"
  using assms
proof (induction lines arbitrary: q)
  case (Cons line lines)
  show ?case
  proof (cases "trim line = []")
    case True
    then show ?thesis using Cons.IH [of q] Cons.prems by simp
  next
    case False
    obtain q1 b where e: "enq q (trim line) = (q1, b)" by force
    have k: "ok (trim line)" using Cons.prems(2) False by simp
    show ?thesis
    proof (cases b)
      case True
      note q1 = accepted [OF Cons.prems(1) k, of q1]
      have "\<exists>n. contents q' = contents q1 @ take n (turtle_lines lines) \<and> inv q' \<and> limit q' = limit q1 \<and>
          (rc = 0 \<and> n = length (turtle_lines lines) \<or>
           rc = -3 \<and> n < length (turtle_lines lines) \<and> limit q' < held q' + sz (turtle_lines lines ! n))"
        using Cons.IH [of q1] Cons.prems q1 e False True by simp
      then obtain n where "contents q' = contents q1 @ take n (turtle_lines lines) \<and> inv q' \<and> limit q' = limit q1 \<and>
          (rc = 0 \<and> n = length (turtle_lines lines) \<or>
           rc = -3 \<and> n < length (turtle_lines lines) \<and> limit q' < held q' + sz (turtle_lines lines ! n))" ..
      then show ?thesis using q1 e True False by (intro exI [of _ "Suc n"]) auto
    next
      case nak: False
      note q1 = rejected [OF Cons.prems(1) k, of q1]
      show ?thesis using Cons.prems q1 e False nak enq_limit [of q "trim line"] by (intro exI [of _ 0]) auto
    qed
  qed
qed simp

text \<open>What is sent without looking at the answer arrives in order, but for what did not fit.\<close>

lemma fold_enq:
  assumes "inv q" "\<forall>m \<in> set ms. ok m"
  defines "q' \<equiv> fold (\<lambda>m q. fst (enq q m)) ms q"
  shows "inv q' \<and> limit q' = limit q \<and> (\<exists>kept. subseq kept ms \<and> contents q' = contents q @ kept) \<and>
    (held q + sum_list (map sz ms) \<le> limit q \<longrightarrow> contents q' = contents q @ ms)"
  using assms(1,2) unfolding q'_def
proof (induction ms arbitrary: q)
  case (Cons m ms)
  obtain q1 b where e: "enq q m = (q1, b)" by force
  have k: "ok m" using Cons.prems by simp
  show ?case
  proof (cases b)
    case True
    note q1 = accepted [OF Cons.prems(1) k, of q1]
    have "held q1 = held q + sz m" using q1 e True by (simp add: held_def)
    moreover obtain kept where "subseq kept ms" "contents (fold (\<lambda>m q. fst (enq q m)) ms q1) = contents q1 @ kept"
      using Cons.IH [of q1] q1 e True Cons.prems by auto
    moreover have "subseq (m # kept) (m # ms)" using calculation by simp
    ultimately show ?thesis
      using Cons.IH [of q1] q1 e True Cons.prems by (auto intro!: exI [of _ "m # kept"])
  next
    case False
    note q1 = rejected [OF Cons.prems(1) k, of q1]
    have q1': "inv q1" "contents q1 = contents q" "limit q1 = limit q"
      using q1 e False enq_limit [of q m] by auto
    obtain kept where kept: "subseq kept ms" "contents (fold (\<lambda>m q. fst (enq q m)) ms q1) = contents q @ kept"
      using Cons.IH [of q1] q1' Cons.prems by auto
    have "limit q < held q + sz m" using q1 q1' e False by (simp add: held_def)
    then show ?thesis
      using Cons.IH [of q1] q1' e Cons.prems kept by (auto intro!: exI [of _ kept])
  qed
qed simp

end

definition channel_ok :: "channel \<Rightarrow> bool" where
  "channel_ok c \<longleftrightarrow> ring_inv (ch_ring c) \<and> (\<forall>d \<in> set (ring_msgs (ch_ring c)). channel_text (str_of d))"

interpretation channel_lines: text_fifo channel_put channel_recv channel_msgs channel_ok channel_text
    "\<lambda>s. 4 + length s" "\<lambda>c. ring_limit (ch_ring c)"
proof -
  have eq: "channel_ok = (\<lambda>c. ring_inv (ch_ring c) \<and> (\<forall>d \<in> set (ring_msgs (ch_ring c)). channel_text (str_of d)))"
    by (simp add: fun_eq_iff channel_ok_def)
  show "text_fifo channel_put channel_recv channel_msgs channel_ok channel_text
      (\<lambda>s. 4 + length s) (\<lambda>c. ring_limit (ch_ring c))"
    unfolding text_fifo_def eq by unfold_locales
qed

section \<open>The calls keep the handles in order\<close>

lemma split_incl_length: "p \<in> set (split_incl s) \<Longrightarrow> length p \<le> length s"
proof -
  assume "p \<in> set (split_incl s)"
  then obtain a b where "split_incl s = a @ p # b" by (meson split_list)
  then have "s = concat a @ p @ concat b" using concat_split_incl [of s] by simp
  then show ?thesis by simp
qed

lemma lines_of_length: "l \<in> set (lines_of s) \<Longrightarrow> length l \<le> length s"
  using split_incl_length by (fastforce simp: lines_of_def chop_line_def Let_def)

lemma trim_length: "length (trim s) \<le> length s"
  using trim_infix [of s] by (metis le_add1 le_add2 length_append le_trans)

lemma turtle_lines_text:
  assumes "utf8_valid s" "length s + 4 < 2 ^ 32"
  shows "\<forall>l \<in> set (turtle_lines (lines_of s)). channel_text l"
proof
  fix l assume "l \<in> set (turtle_lines (lines_of s))"
  then obtain k where k: "k \<in> set (lines_of s)" "l = trim k" by (auto simp: turtle_lines_def)
  have "length l \<le> length s" using trim_length [of k] lines_of_length [OF k(1)] k(2) by simp
  then show "channel_text l" using k assms trim_valid lines_of_valid by (simp add: channel_text_def)
qed

lemma send_all_kept:
  assumes "channel_ok c" "\<forall>s \<in> set outs. channel_text s"
  shows "channel_ok (send_all outs c) \<and> ring_limit (ch_ring (send_all outs c)) = ring_limit (ch_ring c) \<and>
    (\<exists>kept. subseq kept outs \<and> channel_msgs (send_all outs c) = channel_msgs c @ kept) \<and>
    (channel_lines.held c + sum_list (map (\<lambda>s. 4 + length s) outs) \<le> ring_limit (ch_ring c) \<longrightarrow>
      channel_msgs (send_all outs c) = channel_msgs c @ outs)"
  using channel_lines.fold_enq [OF assms] unfolding send_all_def by simp

lemma send_all_clock [simp]: "ch_clock (send_all outs c) = ch_clock c"
  unfolding send_all_def by (induction outs arbitrary: c) (simp_all add: channel_put_eq)

definition handle_ok :: "('s, 'c) ffi_handle \<Rightarrow> bool" where
  "handle_ok fh \<longleftrightarrow> channel_ok (fh_in fh) \<and> channel_ok (fh_out fh) \<and>
     ring_limit (ch_ring (fh_in fh)) = ffi_ring_bytes \<and> ring_limit (ch_ring (fh_out fh)) = ffi_ring_bytes \<and>
     fh_clock_fd fh = read_fd (ch_clock (fh_out fh)) \<and> (fh_poisoned fh \<longleftrightarrow> fh_worker fh = None) \<and>
     (\<forall>a. fh_worker fh = Some a \<longrightarrow> fh_account fh = an_account a)"

text \<open>Draining changes nothing that receiving does not.\<close>

lemma drain_preserves:
  assumes "drain deq q = Some (q', ms)" "P q" and step: "\<And>q. P q \<Longrightarrow> P (fst (deq q))"
  shows "P q'"
proof -
  have "(\<forall>q. P q \<longrightarrow> P (fst (deq q))) \<longrightarrow> P q \<longrightarrow> P (fst r)" if "drain deq q = Some r" for deq q and r :: "'a \<times> 'b list"
  proof (rule drain.raw_induct [OF _ that])
    fix drain :: "('a \<Rightarrow> 'a \<times> 'b option) \<Rightarrow> 'a \<Rightarrow> ('a \<times> 'b list) option" and deq :: "'a \<Rightarrow> 'a \<times> 'b option" and q and r :: "'a \<times> 'b list"
    assume a: "\<And>deq q r. drain deq q = Some r \<Longrightarrow> (\<forall>q. P q \<longrightarrow> P (fst (deq q))) \<longrightarrow> P q \<longrightarrow> P (fst r)"
    assume b: "(case deq q of (q', None) \<Rightarrow> Some (q', [])
       | (q', Some m) \<Rightarrow> Option.bind (drain deq q') (\<lambda>(q'', ms). Some (q'', m # ms))) = Some r"
    obtain q1 x where d: "deq q = (q1, x)" by force
    show "(\<forall>q. P q \<longrightarrow> P (fst (deq q))) \<longrightarrow> P q \<longrightarrow> P (fst r)"
    proof (intro impI)
      assume s: "\<forall>q. P q \<longrightarrow> P (fst (deq q))" and "P q"
      then have q1: "P q1" using d by (metis fst_conv)
      show "P (fst r)"
      proof (cases x)
        case None
        then show ?thesis using b d q1 by auto
      next
        case (Some m)
        then obtain r1 where "drain deq q1 = Some r1" "fst r = fst r1" using b d by (cases "drain deq q1") auto
        then show ?thesis using a [of deq q1 r1] s q1 by simp
      qed
    qed
  qed
  from this [OF assms(1)] show ?thesis using assms(2) step by simp
qed

lemma channel_recv_frame:
  "ring_limit (ch_ring (fst (channel_recv c))) = ring_limit (ch_ring c)" "ch_clock (fst (channel_recv c)) = ch_clock c"
  by (simp_all add: channel_recv_eq ring_limit_def)

lemma drain_channel:
  assumes "channel_ok c"
  obtains c' where "drain channel_recv c = Some (c', channel_msgs c)" "channel_msgs c' = []" "channel_ok c'"
    "ring_limit (ch_ring c') = ring_limit (ch_ring c)" "ch_clock c' = ch_clock c"
proof -
  obtain c' where c': "drain channel_recv c = Some (c', channel_msgs c)" "channel_msgs c' = []" "channel_ok c'"
    using channel_lines.drain_contents [OF assms] by metis
  show thesis
    using that [OF c'] drain_preserves [OF c'(1), where P = "\<lambda>x. ring_limit (ch_ring x) = ring_limit (ch_ring c) \<and> ch_clock x = ch_clock c"]
    by (simp add: channel_recv_frame)
qed

lemma channel_recv_ok: "channel_ok c \<Longrightarrow> channel_ok (fst (channel_recv c))"
  using channel_lines.deq_cases [of c] by (metis fst_conv)

lemma skip_lines_ok:
  assumes "channel_ok c"
  shows "channel_ok (skip_lines n c) \<and> ring_limit (ch_ring (skip_lines n c)) = ring_limit (ch_ring c)"
  unfolding skip_lines_def
proof (induction n)
  case (Suc n)
  then show ?case using channel_recv_ok by (simp add: channel_recv_frame)
qed (use assms in simp)

text \<open>The channel after a tick is one of three.\<close>

lemma ffi_tick_channel:
  assumes "ffi_tick env h feature cin a = Some (a', cin', r)" "drain channel_recv cin = Some (e, lines)"
  shows "cin' = e \<or> cin' = cin \<or> (\<exists>n. cin' = skip_lines n cin)"
proof -
  obtain ls panics where d: "debug_panic_in feature lines = (ls, panics)" by force
  show ?thesis
  proof (cases panics)
    case True
    then obtain x where "tick_interrupted env h ls a = Some x"
      using assms d by (auto simp: ffi_tick_def)
    then show ?thesis using assms d True by (cases x; cases "snd x") (auto simp: ffi_tick_def)
  next
    case False
    then show ?thesis using assms d by (auto simp: ffi_tick_def split: if_splits)
  qed
qed

lemma ffi_tick_ok:
  assumes "ffi_tick env h feature cin a = Some (a', cin', r)" "channel_ok cin"
  shows "channel_ok cin' \<and> ring_limit (ch_ring cin') = ring_limit (ch_ring cin)"
proof -
  obtain e where e: "drain channel_recv cin = Some (e, channel_msgs cin)" "channel_ok e"
      "ring_limit (ch_ring e) = ring_limit (ch_ring cin)"
    using drain_channel [OF assms(2)] by metis
  show ?thesis using ffi_tick_channel [OF assms(1) e(1)] e assms(2) skip_lines_ok [OF assms(2)] by metis
qed

lemma poison_simps [simp]:
  "fh_in (fst (poison sent p fh)) = fh_in fh" "fh_account (fst (poison sent p fh)) = fh_account fh"
  "fh_out (fst (poison sent p fh)) = send_all (sent @ [worker_error (panic_payload_message p)]) (fh_out fh)"
  "fh_clock_fd (fst (poison sent p fh)) = fh_clock_fd fh" "fh_worker (fst (poison sent p fh)) = None"
  "fh_poisoned (fst (poison sent p fh))" "snd (poison sent p fh) = sent @ [worker_error (panic_payload_message p)]"
  by (simp_all add: poison_def Let_def)

lemma worker_round_running:
  assumes "fh_worker fh = Some a" "worker_round env h feature None fh = Some (fh', outs)"
  obtains a' cin r where "ffi_tick env h feature (fh_in fh) (fst (run_timeout env a)) = Some (a', cin, r)"
    "fh_in fh' = cin" "fh_account fh' = an_account a'" "fh_out fh' = send_all outs (fh_out fh)"
    "fh_clock_fd fh' = fh_clock_fd fh"
    "(\<exists>x. r = Ticked x) \<and> fh_worker fh' = Some a' \<and> fh_poisoned fh' = fh_poisoned fh \<and>
       outs = drop (length (an_out a)) (an_out a') \<or>
     (\<exists>p. r = Panicked p \<and> fh_worker fh' = None \<and> fh_poisoned fh' \<and>
       outs = drop (length (an_out a)) (an_out a') @ [worker_error (panic_payload_message p)])"
proof -
  obtain a' cin r where t: "ffi_tick env h feature (fh_in fh) (fst (run_timeout env a)) = Some (a', cin, r)"
    using assms by (auto simp: worker_round_def)
  show thesis
    by (rule that [OF t]; use assms t in \<open>cases r; auto simp: worker_round_def poison_def Let_def\<close>)
qed

lemma worker_round_crash:
  assumes "fh_worker fh = Some a" "worker_round env h feature (Some cr) fh = Some (fh', outs)"
  shows "fh_in fh' = skip_lines (cr_read cr) (fh_in fh)" "fh_account fh' = cr_account cr"
    "fh_out fh' = send_all outs (fh_out fh)" "fh_clock_fd fh' = fh_clock_fd fh" "fh_worker fh' = None" "fh_poisoned fh'"
    "outs = cr_sent cr @ [worker_error (panic_payload_message (cr_payload cr))]"
  using assms by (auto simp: worker_round_def poison_def Let_def)

lemma worker_round_ok:
  assumes "worker_round env h feature boom fh = Some (fh', outs)" "handle_ok fh" "\<forall>s \<in> set outs. channel_text s"
  shows "handle_ok fh' \<and> fh_out fh' = send_all outs (fh_out fh)"
proof (cases "fh_worker fh")
  case None
  then show ?thesis using assms by (simp add: worker_round_def send_all_def)
next
  case (Some a)
  have ok: "channel_ok (fh_in fh)" "channel_ok (fh_out fh)" "\<not> fh_poisoned fh"
    using assms(2) Some by (simp_all add: handle_ok_def)
  show ?thesis
  proof (cases boom)
    case None
    from worker_round_running [OF Some assms(1) [unfolded None]] show ?thesis
    proof cases
      case (1 a' cin r)
      then show ?thesis
        using ok ffi_tick_ok [OF 1(1)] send_all_kept [OF _ assms(3), of "fh_out fh"] assms(2)
        by (auto simp: handle_ok_def)
    qed
  next
    case (Some cr)
    note c = worker_round_crash [OF \<open>fh_worker fh = Some a\<close> assms(1) [unfolded Some]]
    show ?thesis
      using ok c skip_lines_ok [OF ok(1), of "cr_read cr"] send_all_kept [OF ok(2) assms(3)] assms(2)
      by (simp add: handle_ok_def)
  qed
qed

text \<open>
  The calls and the rounds of the worker, in any order.  The caller never has a buffer of 4 GiB, and
  the texts the runtime sends are Rust strings of less than 4 GiB.
\<close>

inductive ffi_step :: "('s, 'c) env \<Rightarrow> host \<Rightarrow> bool \<Rightarrow> ('s, 'c) process \<Rightarrow> ('s, 'c) process \<Rightarrow> bool"
  for env h feature where
  ffi_create: "ffi_step env h feature pr (fst (antenna_create env h ce args pr))"
    if "ce_handle ce \<notin> dom (pr_handles pr)" "ce_string ce \<notin> dom (pr_strings pr)"
| ffi_send: "ffi_step env h feature pr (fst (antenna_send p turtle len pr))"
    if "length (unwrap_or turtle []) + 4 < 2 ^ 32"
| ffi_drain: "ffi_step env h feature pr pr'" if "antenna_drain p has_cb pr = Some (pr', n, docs, sys)"
| ffi_round: "ffi_step env h feature pr (put_handle p fh' pr)"
    if "pr_handles pr p = Some fh" "worker_round env h feature boom fh = Some (fh', outs)" "\<forall>s \<in> set outs. channel_text s"
| ffi_destroy: "ffi_step env h feature pr (antenna_destroy p pr)"
| ffi_free: "ffi_step env h feature pr (antenna_free q pr)"

inductive_cases ffi_step_cases: "ffi_step env h feature pr pr'"

definition ffi_reachable :: "('s, 'c) env \<Rightarrow> host \<Rightarrow> bool \<Rightarrow> ('s, 'c) process \<Rightarrow> bool" where
  "ffi_reachable env h feature pr \<longleftrightarrow> (ffi_step env h feature)\<^sup>*\<^sup>* initial_process pr"

text \<open>At most one handle exists, the one in the slot, and it is in order.\<close>

definition process_ok :: "('s, 'c) process \<Rightarrow> bool" where
  "process_ok pr \<longleftrightarrow> dom (pr_handles pr) = set_option (pr_live pr) \<and>
     (\<forall>p fh. pr_handles pr p = Some fh \<longrightarrow> handle_ok fh)"

lemma channel_new_ok:
  assumes "channel_new ffi_ring_bytes clk = Some c"
  shows "channel_ok c \<and> channel_msgs c = [] \<and> ring_limit (ch_ring c) = ffi_ring_bytes"
proof -
  have "ring_inv (ring_new ffi_ring_bytes) \<and> ring_msgs (ring_new ffi_ring_bytes) = []"
    by (rule ring_new_inv) (simp_all add: ffi_ring_bytes_def)
  then show ?thesis using assms
    by (auto simp: channel_new_def channel_ok_def channel_msgs_def ring_limit_def ring_new_def ffi_ring_bytes_def
        split: option.splits)
qed

lemma ffi_build_ok: "ffi_build env h ce args = Inr fh \<Longrightarrow> handle_ok fh"
  unfolding ffi_build_def and_then_Inr_iff
  by (elim exE conjE) (auto simp: ffi_handle_new_def handle_ok_def dest!: channel_new_ok)

lemma lend_account_handles [simp]:
  "pr_handles (fst (lend_account wants q acc pr)) = pr_handles pr"
  "pr_live (fst (lend_account wants q acc pr)) = pr_live pr"
  by (simp_all add: lend_account_def)

lemma create_rebinds:
  assumes "pr_live pr = Some p"
  shows "fst (snd (antenna_create env h ce args pr)) = Some p" "pr_live (fst (antenna_create env h ce args pr)) = Some p"
    "pr_handles (fst (antenna_create env h ce args pr)) = pr_handles pr"
  using assms by (simp_all add: antenna_create_def split_beta Let_def split: option.split)

lemma create_ok:
  assumes "process_ok pr"
  shows "process_ok (fst (antenna_create env h ce args pr))"
proof (cases "pr_live pr")
  case (Some p)
  then show ?thesis using assms create_rebinds [OF Some] by (simp add: process_ok_def)
next
  case None
  then have "dom (pr_handles pr) = {}" using assms by (simp add: process_ok_def)
  then show ?thesis using None assms ffi_build_ok
    by (auto simp: antenna_create_def process_ok_def split_beta Let_def split: sum.split)
qed

lemma put_handle_ok: "process_ok pr \<Longrightarrow> p \<in> dom (pr_handles pr) \<Longrightarrow> handle_ok fh \<Longrightarrow> process_ok (put_handle p fh pr)"
  by (auto simp: process_ok_def put_handle_def)

lemma send_lines_ok:
  assumes "handle_ok fh" "from_utf8 t = Some s" "length t + 4 < 2 ^ 32"
    and "push_turtle_lines channel_put s (fh_in fh) = (c, rc)"
  obtains n where "channel_ok c" "ring_limit (ch_ring c) = ffi_ring_bytes"
    "channel_msgs c = channel_msgs (fh_in fh) @ take n (turtle_lines (lines_of t))"
    "rc = 0 \<and> n = length (turtle_lines (lines_of t)) \<or>
     rc = -3 \<and> n < length (turtle_lines (lines_of t)) \<and>
       ffi_ring_bytes < channel_lines.held c + (4 + length (turtle_lines (lines_of t) ! n))"
proof -
  have s: "s = t" "utf8_valid t" using assms(2) by (auto simp: from_utf8_def split: if_splits)
  have k: "channel_ok (fh_in fh)" "ring_limit (ch_ring (fh_in fh)) = ffi_ring_bytes"
    using assms(1) by (simp_all add: handle_ok_def)
  show thesis
    using channel_lines.push_lines_prefix [OF k(1) turtle_lines_text [OF s(2) assms(3)]] assms(4) s that k(2)
    by (auto simp: push_turtle_lines_def)
qed

lemma send_ok:
  assumes "process_ok pr" "length (unwrap_or turtle []) + 4 < 2 ^ 32"
  shows "process_ok (fst (antenna_send p turtle len pr))"
proof (cases "at_handle p pr")
  case None
  then show ?thesis using assms(1) by (simp add: antenna_send_def)
next
  case (Some fh)
  then obtain a where a: "p = Some a" "pr_handles pr a = Some fh" by (cases p) (auto simp: at_handle_def)
  then have ok: "handle_ok fh" using assms(1) by (simp add: process_ok_def)
  let ?t = "raw_slice turtle len"
  have len: "length ?t + 4 < 2 ^ 32" using assms(2) by (auto simp: raw_slice_def min_def)
  have keeps: "process_ok (put_handle a (fh\<lparr>fh_in := c\<rparr>) pr)"
    if t: "from_utf8 ?t = Some s" and c: "push_turtle_lines channel_put s (fh_in fh) = (c, rc)" for s c rc
  proof -
    have "channel_ok c \<and> ring_limit (ch_ring c) = ffi_ring_bytes"
      by (rule send_lines_ok [OF ok t len c]) simp
    then have "handle_ok (fh\<lparr>fh_in := c\<rparr>)" using ok by (simp add: handle_ok_def)
    then show ?thesis using put_handle_ok [OF assms(1)] a by blast
  qed
  show ?thesis
  proof (cases "from_utf8 ?t")
    case None
    then show ?thesis using assms(1) Some a by (auto simp: antenna_send_def)
  next
    case (Some s)
    then show ?thesis using assms(1) \<open>at_handle p pr = Some fh\<close> a keeps [OF Some prod.collapse [symmetric]]
      by (auto simp: antenna_send_def split_beta Let_def)
  qed
qed

lemma drain_ok:
  assumes "antenna_drain p has_cb pr = Some (pr', n, docs, sys)" "process_ok pr"
  shows "process_ok pr'"
proof (cases "at_handle p pr")
  case None
  then show ?thesis using assms by (simp add: antenna_drain_def)
next
  case (Some fh)
  then obtain a where a: "p = Some a" "pr_handles pr a = Some fh" by (cases p) (auto simp: at_handle_def)
  then have ok: "handle_ok fh" using assms(2) by (simp add: process_ok_def)
  then obtain c where c: "drain channel_recv (fh_out fh) = Some (c, channel_msgs (fh_out fh))" "channel_ok c"
      "ring_limit (ch_ring c) = ring_limit (ch_ring (fh_out fh))" "ch_clock c = ch_clock (fh_out fh)"
    using drain_channel [of "fh_out fh"] by (metis handle_ok_def)
  have "handle_ok (fh\<lparr>fh_out := c\<rparr>)" using ok c by (simp add: handle_ok_def)
  from put_handle_ok [OF assms(2) _ this, of a] show ?thesis
    using assms a Some c by (auto simp: antenna_drain_def Let_def split: if_splits)
qed

lemma destroy_ok: "process_ok pr \<Longrightarrow> process_ok (antenna_destroy p pr)"
  by (auto simp: antenna_destroy_def process_ok_def split: option.split)

lemma free_ok: "process_ok pr \<Longrightarrow> process_ok (antenna_free q pr)"
  by (simp add: antenna_free_def process_ok_def split: option.split)

lemma ffi_step_ok:
  assumes "ffi_step env h feature pr pr'" "process_ok pr"
  shows "process_ok pr'"
  using assms(1)
proof cases
  case (ffi_round p fh boom fh' outs)
  then have "handle_ok fh'" using worker_round_ok assms(2) by (metis process_ok_def)
  then show ?thesis using ffi_round put_handle_ok assms(2) by blast
qed (use create_ok send_ok drain_ok destroy_ok free_ok assms(2) in blast)+

lemma ffi_reachable_ok: "ffi_reachable env h feature pr \<Longrightarrow> process_ok pr"
  unfolding ffi_reachable_def
proof (induction rule: rtranclp_induct)
  case base
  show ?case by (simp add: process_ok_def initial_process_def)
qed (simp add: ffi_step_ok)

section \<open>What a round and a panic mean\<close>

lemma worker_error_reads_back:
  "read_record (worker_error msg) = Some (''<http://resonator.network/v2/antenna#Error>'',
     [(''<http://resonator.network/v2/antenna#message>'', Lit msg)])"
proof -
  have "worker_error msg = render_record (''<http://resonator.network/v2/antenna#Error>'',
     [(''<http://resonator.network/v2/antenna#message>'', Lit msg)])"
    by (simp add: worker_error_def render_record_def render_field_def quoted_def ffi_lit.esc_concat carrier_lit.esc_concat)
  then show ?thesis using read_record_render by (simp add: newline_def)
qed

text \<open>Without a line that panics a round is a tick on what has come in.\<close>

lemma ffi_tick_plain:
  assumes "channel_ok cin" "feature \<longrightarrow> \<not> list_ex panic_line (channel_msgs cin)"
    and "ffi_tick env h feature cin a = Some (a', cin', r)"
  shows "\<exists>x. r = Ticked x \<and> tick env h (channel_msgs cin) a = Some (a', x) \<and>
    channel_msgs cin' = (if is_ok x then [] else channel_msgs cin)"
proof -
  obtain e where e: "drain channel_recv cin = Some (e, channel_msgs cin)" "channel_msgs e = []"
    using drain_channel [OF assms(1)] by metis
  have "debug_panic_in feature (channel_msgs cin) = (channel_msgs cin, False)"
    using assms(2) by (auto simp: debug_panic_in_def list_ex_iff takeWhile_eq_all_conv)
  then show ?thesis using assms(3) e by (auto simp: ffi_tick_def)
qed

text \<open>With one it panics there, unless the tick fails before it reads.\<close>

lemma ffi_tick_panics:
  assumes "channel_ok cin" "feature" "list_ex panic_line (channel_msgs cin)"
    and "ffi_tick env h feature cin a = Some (a', cin', r)"
  shows "r = Panicked debug_panic \<or> (\<exists>e. r = Ticked (Inl e)) \<and> cin' = cin"
proof -
  obtain e where e: "drain channel_recv cin = Some (e, channel_msgs cin)"
    using drain_channel [OF assms(1)] by metis
  obtain ls where ls: "debug_panic_in feature (channel_msgs cin) = (ls, True)"
    using assms(2,3) by (simp add: debug_panic_in_def)
  then obtain x where "tick_interrupted env h ls a = Some x" using assms(4) e by (auto simp: ffi_tick_def)
  then show ?thesis using assms(4) e ls by (cases x; cases "snd x") (auto simp: ffi_tick_def)
qed

lemma run_timeout_out [simp]: "an_out (fst (run_timeout env a)) = an_out a"
  by (simp add: run_timeout_def split_beta)

text \<open>For the examples: a process in which one handle has been made.\<close>

definition sample_create :: "nat create_env" where
  "sample_create = \<lparr>ce_lib = 0, ce_clock_in = Some \<lparr>read_fd = 3, write_fd = 3\<rparr>,
     ce_clock_out = Some \<lparr>read_fd = 4, write_fd = 4\<rparr>, ce_spawns = True, ce_handle = 1, ce_string = 2\<rparr>"

definition sample_args :: create_args where
  "sample_args = \<lparr>ca_data_dir = Some ''d'', ca_account = Some ''me'', ca_store_dir = None, ca_pipeline = None,
     ca_seed = None, ca_wants_id = True\<rparr>"

abbreviation no_rows :: "(str list, nat) env" where
  "no_rows \<equiv> sample_env (\<lambda>_. Solutions [])"

definition sample_process :: "(str list, nat) process" where
  "sample_process = fst (antenna_create no_rows sample_host sample_create sample_args initial_process)"

lemma sample_context:
  obtains a where "new_with_ttl no_rows sample_host ''d'' (Some ''me'') None None None 0 = Inr a" "an_account a = ''me''"
proof -
  have "case new_with_ttl no_rows sample_host ''d'' (Some ''me'') None None None 0 of
      Inl _ \<Rightarrow> False | Inr a \<Rightarrow> an_account a = ''me''"
    by code_simp
  then show thesis using that by (auto split: sum.splits)
qed

lemma sample_handle:
  obtains fh a where "pr_live sample_process = Some 1" "pr_handles sample_process = [1 \<mapsto> fh]"
    "pr_strings sample_process = [2 \<mapsto> ''me'']" "fh_worker fh = Some a" "\<not> fh_poisoned fh" "fh_account fh = ''me''"
    "channel_msgs (fh_in fh) = []" "channel_msgs (fh_out fh) = []"
    "ffi_reachable no_rows sample_host True sample_process"
    "new_with_ttl no_rows sample_host ''d'' (Some ''me'') None None None 0 = Inr a"
proof -
  obtain a where a: "new_with_ttl no_rows sample_host ''d'' (Some ''me'') None None None 0 = Inr a" "an_account a = ''me''"
    by (rule sample_context)
  let ?cin = "\<lparr>ch_ring = ring_new ffi_ring_bytes, ch_clock = \<lparr>read_fd = 3, write_fd = 3\<rparr>\<rparr>"
  let ?cout = "\<lparr>ch_ring = ring_new ffi_ring_bytes, ch_clock = \<lparr>read_fd = 4, write_fd = 4\<rparr>\<rparr>"
  have utf8: "from_utf8 ''d'' = Some ''d''" "from_utf8 ''me'' = Some ''me''"
    by (simp_all add: from_utf8_def bv_def)
  have b: "ffi_build no_rows sample_host sample_create sample_args = Inr (ffi_handle_new a ?cin ?cout)"
    by (simp add: ffi_build_def sample_create_def sample_args_def opt_cstr_def utf8 ok_or_fail_def drop_error_def a(1)
        channel_new_def)
  have id: "is_ok (cstring ''me'')" by code_simp
  have pr: "sample_process = \<lparr>pr_handles = [1 \<mapsto> ffi_handle_new a ?cin ?cout], pr_live = Some 1, pr_strings = [2 \<mapsto> ''me'']\<rparr>"
    using id a(2) unfolding sample_process_def antenna_create_def initial_process_def
    by (simp add: b lend_account_def) (simp add: ffi_handle_new_def sample_args_def sample_create_def id)
  have "ffi_step no_rows sample_host True initial_process sample_process"
    unfolding sample_process_def by (rule ffi_create) (simp_all add: initial_process_def)
  then have r: "ffi_reachable no_rows sample_host True sample_process" by (simp add: ffi_reachable_def)
  have m: "channel_msgs ?cin = []" "channel_msgs ?cout = []"
    using channel_new_ok [of "Some \<lparr>read_fd = 3, write_fd = 3\<rparr>" ?cin] channel_new_ok [of "Some \<lparr>read_fd = 4, write_fd = 4\<rparr>" ?cout]
    by (simp_all add: channel_new_def)
  show thesis by (rule that [of "ffi_handle_new a ?cin ?cout" a, OF _ _ _ _ _ _ _ _ r a(1)]) (simp_all add: pr ffi_handle_new_def a m)
qed

text \<open>The first round of the example: it answers the request of the theme.\<close>

definition sample_answer :: str where
  "sample_answer = ''[] a design:ThemeBundleComplete ; design:bundleSize 0 .''"

lemma sample_answer_text: "channel_text sample_answer"
  by (simp add: channel_text_def sample_answer_def bv_def)

lemma sample_first_tick:
  assumes "new_with_ttl no_rows sample_host ''d'' (Some ''me'') None None None 0 = Inr a"
  obtains a' where "tick no_rows sample_host [] (fst (run_timeout no_rows a)) = Some (a', Inr ())"
    "drop (length (an_out a)) (an_out a') = [sample_answer]"
proof -
  have "case new_with_ttl no_rows sample_host ''d'' (Some ''me'') None None None 0 of
      Inl _ \<Rightarrow> False | Inr a \<Rightarrow>
        (case tick no_rows sample_host [] (fst (run_timeout no_rows a)) of
           None \<Rightarrow> False
         | Some (a', r) \<Rightarrow> drop (length (an_out a)) (an_out a') = [sample_answer] \<and> is_ok r)"
    by code_simp
  then show thesis using that assms by (auto split: option.splits simp: is_ok_iff)
qed

lemma sample_round:
  assumes "handle_ok fh" "fh_worker fh = Some a" "channel_msgs (fh_in fh) = []"
    and "new_with_ttl no_rows sample_host ''d'' (Some ''me'') None None None 0 = Inr a"
  obtains fh' where "worker_round no_rows sample_host True None fh = Some (fh', [sample_answer])"
proof -
  obtain e where "drain channel_recv (fh_in fh) = Some (e, [])"
    using drain_channel [of "fh_in fh"] assms(1,3) by (metis handle_ok_def)
  moreover obtain a' where "tick no_rows sample_host [] (fst (run_timeout no_rows a)) = Some (a', Inr ())"
      "drop (length (an_out a)) (an_out a') = [sample_answer]"
    using sample_first_tick [OF assms(4)] by metis
  ultimately show thesis
    using assms(2) that by (simp add: worker_round_def ffi_tick_def debug_panic_in_def Let_def)
qed

section \<open>Properties\<close>

text \<open>
  C12: whatever is called in whatever order, one call after the other, the process never has two handles, and the one it has
  is the one in the live slot; creating again gives that handle back with its queues and its worker
  untouched, and destroying it leaves none, so that the next creation starts afresh.
\<close>

theorem one_live_handle:
  assumes "ffi_reachable env h feature pr"
  shows "dom (pr_handles pr) = set_option (pr_live pr) \<and>
    (\<forall>p ce args. pr_live pr = Some p \<longrightarrow>
       fst (snd (antenna_create env h ce args pr)) = Some p \<and>
       pr_handles (fst (antenna_create env h ce args pr)) = pr_handles pr \<and>
       pr_handles (antenna_destroy (Some p) pr) = Map.empty \<and> pr_live (antenna_destroy (Some p) pr) = None)"
proof -
  have d: "dom (pr_handles pr) = set_option (pr_live pr)"
    using ffi_reachable_ok [OF assms] by (simp add: process_ok_def)
  have "pr_handles (antenna_destroy (Some p) pr) = Map.empty" if "pr_live pr = Some p" for p
    using d that by (auto simp: antenna_destroy_def fun_eq_iff domIff)
  then show ?thesis using d create_rebinds by (auto simp: antenna_destroy_def)
qed

theorem one_live_handle_witness:
  "dom (pr_handles sample_process) = {1} \<and>
   fst (snd (antenna_create no_rows sample_host (sample_create\<lparr>ce_handle := 7\<rparr>) sample_args sample_process)) = Some 1"
proof -
  obtain fh a where "pr_live sample_process = Some 1" and r: "ffi_reachable no_rows sample_host True sample_process"
    by (rule sample_handle)
  then show ?thesis using one_live_handle [OF r] by auto
qed

text \<open>
  C26: what \<open>antenna_send\<close> answers for every handle, pointer and length, in this precedence.  A null handle,
  and a null pointer with a length that is not 0, give -1; a poisoned handle gives -4; bytes that are not
  UTF-8 give -2; all three without an effect.  Otherwise some first lines of the trimmed non-empty ones are
  queued, in order and behind what is queued already: all of them if the answer is 0; if it is -3, the next
  one does not fit into the 1 MiB of the ring.
\<close>

theorem ffi_send_codes:
  assumes "ffi_reachable env h feature pr" "length (unwrap_or turtle []) + 4 < 2 ^ 32"
    and "antenna_send p turtle len pr = (pr', rc)"
  defines "t \<equiv> if len = 0 then [] else take len (unwrap_or turtle [])"
  shows "if p = None \<or> turtle = None \<and> 0 < len \<or> at_handle p pr = None then pr' = pr \<and> rc = -1
    else \<exists>q fh. p = Some q \<and> pr_handles pr q = Some fh \<and>
     (if fh_poisoned fh then pr' = pr \<and> rc = -4
      else if \<not> utf8_valid t then pr' = pr \<and> rc = -2
      else \<exists>c n. pr' = put_handle q (fh\<lparr>fh_in := c\<rparr>) pr \<and>
        channel_msgs c = channel_msgs (fh_in fh) @ take n (turtle_lines (lines_of t)) \<and>
        (rc = 0 \<and> n = length (turtle_lines (lines_of t)) \<or>
         rc = -3 \<and> n < length (turtle_lines (lines_of t)) \<and>
           2 ^ 20 < sum_list (map (\<lambda>s. 4 + length s) (channel_msgs c)) + (4 + length (turtle_lines (lines_of t) ! n))))"
proof (cases "p = None \<or> turtle = None \<and> 0 < len \<or> at_handle p pr = None")
  case True
  then show ?thesis using assms(3) by (auto simp: antenna_send_def at_handle_def split: if_splits)
next
  case False
  then obtain q fh where q: "p = Some q" "pr_handles pr q = Some fh" by (auto simp: at_handle_def)
  have ok: "handle_ok fh" using ffi_reachable_ok [OF assms(1)] q by (simp add: process_ok_def)
  have slice: "raw_slice turtle len = t" by (simp add: raw_slice_def t_def)
  have len: "length t + 4 < 2 ^ 32" using assms(2) by (auto simp: t_def min_def)
  have send: "antenna_send p turtle len pr = (if fh_poisoned fh then (pr, -4)
      else case from_utf8 t of None \<Rightarrow> (pr, -2)
        | Some s \<Rightarrow> let (c, rc) = push_turtle_lines channel_put s (fh_in fh) in (put_handle q (fh\<lparr>fh_in := c\<rparr>) pr, rc))"
    using False q slice by (auto simp: antenna_send_def at_handle_def split: option.split)
  have "if fh_poisoned fh then pr' = pr \<and> rc = -4
      else if \<not> utf8_valid t then pr' = pr \<and> rc = -2
      else \<exists>c n. pr' = put_handle q (fh\<lparr>fh_in := c\<rparr>) pr \<and>
        channel_msgs c = channel_msgs (fh_in fh) @ take n (turtle_lines (lines_of t)) \<and>
        (rc = 0 \<and> n = length (turtle_lines (lines_of t)) \<or>
         rc = -3 \<and> n < length (turtle_lines (lines_of t)) \<and>
           2 ^ 20 < sum_list (map (\<lambda>s. 4 + length s) (channel_msgs c)) + (4 + length (turtle_lines (lines_of t) ! n)))"
  proof (cases "fh_poisoned fh \<or> from_utf8 t = None")
    case True
    then show ?thesis using assms(3) send by (auto simp: from_utf8_def split: if_splits)
  next
    case running: False
    then obtain s where s: "from_utf8 t = Some s" by blast
    obtain c where c: "push_turtle_lines channel_put s (fh_in fh) = (c, rc)" "pr' = put_handle q (fh\<lparr>fh_in := c\<rparr>) pr"
      using assms(3) send running s by (cases "push_turtle_lines channel_put s (fh_in fh)") simp
    from send_lines_ok [OF ok s len c(1)] obtain n
      where "channel_msgs c = channel_msgs (fh_in fh) @ take n (turtle_lines (lines_of t))"
        "rc = 0 \<and> n = length (turtle_lines (lines_of t)) \<or>
         rc = -3 \<and> n < length (turtle_lines (lines_of t)) \<and>
           2 ^ 20 < sum_list (map (\<lambda>s. 4 + length s) (channel_msgs c)) + (4 + length (turtle_lines (lines_of t) ! n))"
      unfolding channel_lines.held_def ffi_ring_bytes_def by blast
    moreover have v: "\<not> fh_poisoned fh" "\<not> \<not> utf8_valid t"
      using s running by (auto simp: from_utf8_def split: if_splits)
    ultimately show ?thesis
      unfolding if_not_P [OF v(1)] if_not_P [OF v(2)] using c(2) by (intro exI [of _ c] exI [of _ n]) blast
  qed
  then show ?thesis using False q by (simp only: if_False) blast
qed

text \<open>Bytes that are not UTF-8, a null pointer with a length, and a null handle.\<close>

theorem ffi_send_codes_witness:
  "antenna_send (Some 1) (Some [CHR 0xFF]) 1 sample_process = (sample_process, -2) \<and>
   antenna_send (Some 1) None 3 sample_process = (sample_process, -1) \<and>
   antenna_send None (Some ''x'') 1 sample_process = (sample_process, -1)"
proof -
  obtain fh a where fh: "pr_handles sample_process = [1 \<mapsto> fh]" "\<not> fh_poisoned fh"
      and r: "ffi_reachable no_rows sample_host True sample_process"
    by (rule sample_handle)
  have bad: "\<not> utf8_valid [CHR 0xFF]"
    by (simp add: utf8_valid.simps(2) utf8_step.simps(2) follow_tests_def bv_def)
  have h: "at_handle (Some 1) sample_process = Some fh" using fh(1) by (simp add: at_handle_def)
  have "antenna_send p turtle len sample_process = (sample_process, -1)"
    if "p = None \<or> turtle = None \<and> 0 < len" "length (unwrap_or turtle []) + 4 < 2 ^ 32" for p turtle len
  proof -
    obtain pr' rc where s: "antenna_send p turtle len sample_process = (pr', rc)" by force
    have c: "p = None \<or> turtle = None \<and> 0 < len \<or> at_handle p sample_process = None" using that(1) by blast
    show ?thesis using ffi_send_codes [OF r that(2) s] s unfolding if_P [OF c] by simp
  qed
  note null = this
  obtain pr' rc where s: "antenna_send (Some 1) (Some [CHR 0xFF]) 1 sample_process = (pr', rc)" by force
  have "pr' = sample_process \<and> rc = -2" using ffi_send_codes [OF r _ s] h fh bad by simp
  then have "antenna_send (Some 1) (Some [CHR 0xFF]) 1 sample_process = (sample_process, -2)" using s by simp
  then show ?thesis using null [of "Some 1" None 3] null [of None "Some ''x''" 1] by simp
qed

text \<open>
  C8: a round of a running handle whose queue has no line that panics, and whose tick does not panic otherwise,
  is one tick of its context on the lines queued, in their order.  It empties the queue, unless the tick fails before it reads;
  what the tick sent is what \<open>antenna_drain\<close> then delivers behind what was waiting, in order,
  without loss if the 1 MiB of the ring hold it and with whole documents missing otherwise.
\<close>

theorem ffi_round_is_a_tick:
  assumes "ffi_reachable env h feature pr" "pr_handles pr p = Some fh" "fh_worker fh = Some a"
    and "\<forall>l \<in> set (channel_msgs (fh_in fh)). \<not> (feature \<and> contains ''antenna:DebugPanic'' l)"
    and "worker_round env h feature None fh = Some (fh', outs)" "\<forall>s \<in> set outs. channel_text s"
  shows "\<exists>a' r kept pr'' sys.
    tick env h (channel_msgs (fh_in fh)) (fst (run_timeout env a)) = Some (a', r) \<and>
    fh_worker fh' = Some a' \<and> fh_account fh' = an_account a' \<and> an_out a' = an_out a @ outs \<and>
    channel_msgs (fh_in fh') = (if is_ok r then [] else channel_msgs (fh_in fh)) \<and>
    antenna_drain (Some p) True (put_handle p fh' pr) =
      Some (pr'', min (int (length (channel_msgs (fh_out fh) @ kept))) (2 ^ 31 - 1), channel_msgs (fh_out fh) @ kept, sys) \<and>
    subseq kept outs \<and>
    (sum_list (map (\<lambda>s. 4 + length s) (channel_msgs (fh_out fh) @ outs)) \<le> 2 ^ 20 \<longrightarrow> kept = outs)"
proof -
  have ok: "handle_ok fh" using ffi_reachable_ok [OF assms(1)] assms(2) by (simp add: process_ok_def)
  then have chans: "channel_ok (fh_in fh)" "channel_ok (fh_out fh)" "ring_limit (ch_ring (fh_out fh)) = ffi_ring_bytes"
    by (simp_all add: handle_ok_def)
  have calm: "feature \<longrightarrow> \<not> list_ex panic_line (channel_msgs (fh_in fh))"
    using assms(4) by (auto simp: list_ex_iff panic_line_def)
  from worker_round_running [OF assms(3,5)] obtain a' cin r where
    t: "ffi_tick env h feature (fh_in fh) (fst (run_timeout env a)) = Some (a', cin, r)" and
    fh': "fh_in fh' = cin" "fh_account fh' = an_account a'" "fh_out fh' = send_all outs (fh_out fh)" and
    sent: "(\<exists>x. r = Ticked x) \<and> fh_worker fh' = Some a' \<and> fh_poisoned fh' = fh_poisoned fh \<and>
       outs = drop (length (an_out a)) (an_out a') \<or>
     (\<exists>p. r = Panicked p \<and> fh_worker fh' = None \<and> fh_poisoned fh' \<and>
       outs = drop (length (an_out a)) (an_out a') @ [worker_error (panic_payload_message p)])"
    by metis
  obtain x where x: "r = Ticked x" "tick env h (channel_msgs (fh_in fh)) (fst (run_timeout env a)) = Some (a', x)"
      "channel_msgs cin = (if is_ok x then [] else channel_msgs (fh_in fh))"
    using ffi_tick_plain [OF chans(1) calm t] by metis
  have out: "an_out a' = an_out a @ outs" using tick_out [OF x(2)] sent x(1) by auto
  obtain kept where kept: "subseq kept outs" "channel_msgs (fh_out fh') = channel_msgs (fh_out fh) @ kept"
      "channel_lines.held (fh_out fh) + sum_list (map (\<lambda>s. 4 + length s) outs) \<le> ffi_ring_bytes \<longrightarrow> kept = outs"
      "channel_ok (fh_out fh')"
    using send_all_kept [OF chans(2) assms(6)] fh'(3) chans(3) by auto
  obtain c where c: "drain channel_recv (fh_out fh') = Some (c, channel_msgs (fh_out fh) @ kept)"
    using drain_channel [OF kept(4)] kept(2) by metis
  have "at_handle (Some p) (put_handle p fh' pr) = Some fh'" by (simp add: at_handle_def put_handle_def)
  then have "antenna_drain (Some p) True (put_handle p fh' pr) =
      Some (put_handle p (fh'\<lparr>fh_out := c\<rparr>) (put_handle p fh' pr),
        min (int (length (channel_msgs (fh_out fh) @ kept))) (2 ^ 31 - 1), channel_msgs (fh_out fh) @ kept,
        clock_consume (ch_clock (fh_out fh')))"
    using c by (simp add: antenna_drain_def max_c_int_def)
  then show ?thesis
    using x fh' sent out kept(1,3) unfolding channel_lines.held_def ffi_ring_bytes_def
    by (intro exI [of _ a'] exI [of _ x] exI [of _ kept]) auto
qed

theorem ffi_round_is_a_tick_witness:
  "\<exists>fh fh' pr'' n sys. pr_handles sample_process 1 = Some fh \<and>
     worker_round no_rows sample_host True None fh = Some (fh', [sample_answer]) \<and>
     antenna_drain (Some 1) True (put_handle 1 fh' sample_process) = Some (pr'', n, [sample_answer], sys)"
proof -
  obtain fh a where fh: "pr_handles sample_process = [1 \<mapsto> fh]" "fh_worker fh = Some a" "channel_msgs (fh_in fh) = []"
      "channel_msgs (fh_out fh) = []" and r: "ffi_reachable no_rows sample_host True sample_process"
      and a: "new_with_ttl no_rows sample_host ''d'' (Some ''me'') None None None 0 = Inr a"
    by (rule sample_handle)
  have p: "pr_handles sample_process 1 = Some fh" using fh(1) by simp
  have ok: "handle_ok fh" using ffi_reachable_ok [OF r] p by (simp add: process_ok_def)
  obtain fh' where w: "worker_round no_rows sample_host True None fh = Some (fh', [sample_answer])"
    by (rule sample_round [OF ok fh(2,3) a])
  have fits: "sum_list (map (\<lambda>s. 4 + length s) (channel_msgs (fh_out fh) @ [sample_answer])) \<le> 2 ^ 20"
    by (simp add: fh(4) sample_answer_def)
  show ?thesis
    using ffi_round_is_a_tick [OF r p fh(2) _ w] fits w p fh(3,4) sample_answer_text by auto
qed

text \<open>
  C27: a panic of any kind inside a tick poisons the handle.  The last document of that round is an
  \<open>antenna:Error\<close> that reads back as the message of the panic, behind what the tick had sent, and it is
  behind what waited on the ring if the ring has room; from then on no round does anything and nothing can
  be sent.  If the tick has no panic of its own, the handle is poisoned only in a build with the debug
  panic and only by a queued line that mentions it; and such a line does poison it, unless the tick fails
  before it reads, and then the queue is as it was.
\<close>

theorem panic_poisons_the_handle:
  assumes "ffi_reachable env h feature pr" "pr_handles pr p = Some fh" "fh_worker fh = Some a"
    and "worker_round env h feature boom fh = Some (fh', outs)"
  defines "injected \<equiv> feature \<and> (\<exists>l \<in> set (channel_msgs (fh_in fh)). contains ''antenna:DebugPanic'' l)"
    and "reports \<equiv> \<lambda>turtle msg. read_record turtle = Some (''<http://resonator.network/v2/antenna#Error>'',
        [(''<http://resonator.network/v2/antenna#message>'', Lit msg)])"
  shows "(case boom of
      Some cr \<Rightarrow> fh_poisoned fh' \<and> (\<exists>turtle. outs = cr_sent cr @ [turtle] \<and>
        reports turtle (panic_payload_message (cr_payload cr)))
    | None \<Rightarrow>
        (fh_poisoned fh' \<longrightarrow> injected \<and> (\<exists>sent turtle. outs = sent @ [turtle] \<and>
           reports turtle ''antenna:DebugPanic injected via FFI input'')) \<and>
        (injected \<longrightarrow> fh_poisoned fh' \<or> fh_in fh' = fh_in fh)) \<and>
    (fh_poisoned fh' \<longrightarrow>
      ((\<forall>s \<in> set outs. channel_text s) \<longrightarrow>
         sum_list (map (\<lambda>s. 4 + length s) (channel_msgs (fh_out fh) @ outs)) \<le> 2 ^ 20 \<longrightarrow>
         channel_msgs (fh_out fh') = channel_msgs (fh_out fh) @ outs) \<and>
      (\<forall>boom'. worker_round env h feature boom' fh' = Some (fh', [])) \<and>
      (\<forall>t len. antenna_send (Some p) (Some t) len (put_handle p fh' pr) = (put_handle p fh' pr, -4)))"
proof -
  have ok: "handle_ok fh" using ffi_reachable_ok [OF assms(1)] assms(2) by (simp add: process_ok_def)
  then have cin: "channel_ok (fh_in fh)" "\<not> fh_poisoned fh" using assms(3) by (simp_all add: handle_ok_def)
  have ended: "fh_out fh' = send_all outs (fh_out fh) \<and> (fh_poisoned fh' \<longrightarrow> fh_worker fh' = None)"
  proof (cases boom)
    case None
    then show ?thesis using worker_round_running [OF assms(3) assms(4) [unfolded None]] cin(2) by metis
  next
    case (Some cr)
    then show ?thesis using worker_round_crash [OF assms(3) assms(4) [unfolded Some]] by simp
  qed
  have "(case boom of
      Some cr \<Rightarrow> fh_poisoned fh' \<and> (\<exists>turtle. outs = cr_sent cr @ [turtle] \<and>
        reports turtle (panic_payload_message (cr_payload cr)))
    | None \<Rightarrow>
        (fh_poisoned fh' \<longrightarrow> injected \<and> (\<exists>sent turtle. outs = sent @ [turtle] \<and>
           reports turtle ''antenna:DebugPanic injected via FFI input'')) \<and>
        (injected \<longrightarrow> fh_poisoned fh' \<or> fh_in fh' = fh_in fh))"
  proof (cases boom)
    case None
    have inj: "injected \<longleftrightarrow> feature \<and> list_ex panic_line (channel_msgs (fh_in fh))"
      by (simp add: injected_def list_ex_iff panic_line_def)
    from worker_round_running [OF assms(3) assms(4) [unfolded None]] obtain a' c r where
      t: "ffi_tick env h feature (fh_in fh) (fst (run_timeout env a)) = Some (a', c, r)" and c: "fh_in fh' = c" and
      sent: "(\<exists>x. r = Ticked x) \<and> fh_worker fh' = Some a' \<and> fh_poisoned fh' = fh_poisoned fh \<and>
         outs = drop (length (an_out a)) (an_out a') \<or>
       (\<exists>p. r = Panicked p \<and> fh_worker fh' = None \<and> fh_poisoned fh' \<and>
         outs = drop (length (an_out a)) (an_out a') @ [worker_error (panic_payload_message p)])"
      by metis
    show ?thesis
    proof (cases injected)
      case True
      then have "r = Panicked debug_panic \<or> (\<exists>e. r = Ticked (Inl e)) \<and> c = fh_in fh"
        using ffi_tick_panics [OF cin(1) _ _ t] inj by blast
      then show ?thesis
        using None True sent c cin(2) worker_error_reads_back by (auto simp: debug_panic_def reports_def)
    next
      case False
      then have "\<exists>x. r = Ticked x" using ffi_tick_plain [OF cin(1) _ t] inj by blast
      then show ?thesis using None False sent cin(2) by auto
    qed
  next
    case (Some cr)
    then show ?thesis
      using worker_round_crash [OF assms(3) assms(4) [unfolded Some]] worker_error_reads_back
      by (auto simp: reports_def)
  qed
  moreover have "channel_msgs (fh_out fh') = channel_msgs (fh_out fh) @ outs"
    if "\<forall>s \<in> set outs. channel_text s" "sum_list (map (\<lambda>s. 4 + length s) (channel_msgs (fh_out fh) @ outs)) \<le> 2 ^ 20"
    using send_all_kept [OF _ that(1), of "fh_out fh"] ok that(2) ended
    by (simp add: handle_ok_def channel_lines.held_def ffi_ring_bytes_def)
  moreover have "\<forall>boom'. worker_round env h feature boom' fh' = Some (fh', [])" if "fh_poisoned fh'"
    using ended that by (simp add: worker_round_def)
  moreover have "\<forall>t len. antenna_send (Some p) (Some t) len (put_handle p fh' pr) = (put_handle p fh' pr, -4)" if "fh_poisoned fh'"
    using that by (simp add: antenna_send_def at_handle_def put_handle_def)
  ultimately show ?thesis by blast
qed

text \<open>A line that mentions the debug panic, and a panic without a message in the round instead.\<close>

theorem panic_poisons_the_handle_witness:
  "\<exists>pr fh fh' outs. pr_handles pr 1 = Some fh \<and> channel_msgs (fh_in fh) = [''[] a antenna:DebugPanic .''] \<and>
     worker_round no_rows sample_host True None fh = Some (fh', outs) \<and> fh_poisoned fh' \<and>
     antenna_send (Some 1) (Some ''[] a carrier:GetId .'') 20 (put_handle 1 fh' pr) = (put_handle 1 fh' pr, -4) \<and>
     (\<exists>fh2 turtle. worker_round no_rows sample_host True
         (Some \<lparr>cr_sent = [''hi''], cr_read = 1, cr_account = ''me'', cr_payload = Other_payload\<rparr>) fh = Some (fh2, [''hi'', turtle]) \<and>
       fh_poisoned fh2 \<and> read_record turtle = Some (''<http://resonator.network/v2/antenna#Error>'',
         [(''<http://resonator.network/v2/antenna#message>'', Lit ''(non-string panic payload)'')]))"
proof -
  let ?line = "''[] a antenna:DebugPanic .''"
  obtain fh a where fh: "pr_handles sample_process = [1 \<mapsto> fh]" "fh_worker fh = Some a" "\<not> fh_poisoned fh"
      "channel_msgs (fh_in fh) = []" and r: "ffi_reachable no_rows sample_host True sample_process"
      and a: "new_with_ttl no_rows sample_host ''d'' (Some ''me'') None None None 0 = Inr a"
    by (rule sample_handle)
  have p: "pr_handles sample_process 1 = Some fh" using fh(1) by simp
  have ok: "handle_ok fh" using ffi_reachable_ok [OF r] p by (simp add: process_ok_def)
  have u: "from_utf8 ?line = Some ?line" by (simp add: from_utf8_def bv_def)
  have ls: "turtle_lines (lines_of ?line) = [?line]" by code_simp
  obtain c rc where c: "push_turtle_lines channel_put ?line (fh_in fh) = (c, rc)" by force
  have few: "length ?line + 4 < 2 ^ 32" by simp
  obtain n where n: "channel_ok c" "channel_msgs c = take n [?line]"
      "rc = 0 \<and> n = 1 \<or> rc = -3 \<and> n < 1 \<and> ffi_ring_bytes < channel_lines.held c + (4 + length ([?line] ! n))"
    by (rule send_lines_ok [OF ok u few c]) (simp add: fh(4) ls)
  then have msgs: "channel_msgs c = [?line]" by (auto simp: channel_lines.held_def ffi_ring_bytes_def)
  define pr where "pr = fst (antenna_send (Some 1) (Some ?line) 25 sample_process)"
  define fh1 where "fh1 = fh\<lparr>fh_in := c\<rparr>"
  have "ffi_step no_rows sample_host True sample_process pr"
    unfolding pr_def by (rule ffi_send) simp
  then have r1: "ffi_reachable no_rows sample_host True pr"
    using r unfolding ffi_reachable_def by (rule rtranclp.rtrancl_into_rtrancl [rotated])
  have pr: "pr = put_handle 1 fh1 sample_process"
    using p fh(3) u c by (simp add: pr_def fh1_def antenna_send_def at_handle_def raw_slice_def)
  have p1: "pr_handles pr 1 = Some fh1" "fh_worker fh1 = Some a" using fh(2) by (simp_all add: pr put_handle_def fh1_def)
  obtain e where e: "drain channel_recv c = Some (e, [?line])" using drain_channel [OF n(1)] msgs by metis
  have d: "debug_panic_in True [?line] = ([], True)" by code_simp
  have "case new_with_ttl no_rows sample_host ''d'' (Some ''me'') None None None 0 of
      Inl _ \<Rightarrow> False | Inr a \<Rightarrow>
        (case tick_interrupted no_rows sample_host [] (fst (run_timeout no_rows a)) of
           None \<Rightarrow> False | Some (a', r) \<Rightarrow> is_ok r)"
    by code_simp
  then obtain a' where "tick_interrupted no_rows sample_host [] (fst (run_timeout no_rows a)) = Some (a', Inr ())"
    by (auto simp: a is_ok_iff split: option.splits)
  then obtain fh' outs where w: "worker_round no_rows sample_host True None fh1 = Some (fh', outs)" "fh_poisoned fh'"
    using e d p1(2) by (simp add: worker_round_def ffi_tick_def debug_panic_def Let_def fh1_def poison_def)
  have "antenna_send (Some 1) (Some ''[] a carrier:GetId .'') 20 (put_handle 1 fh' pr) = (put_handle 1 fh' pr, -4)"
    using panic_poisons_the_handle [OF r1 p1 w(1)] w(2) by blast
  moreover define cr where "cr = \<lparr>cr_sent = [''hi''], cr_read = 1, cr_account = ''me'', cr_payload = Other_payload\<rparr>"
  obtain fh2 outs2 where w2: "worker_round no_rows sample_host True (Some cr) fh1 = Some (fh2, outs2)"
    using p1(2) by (simp add: worker_round_def poison_def Let_def)
  have "\<exists>turtle. fh_poisoned fh2 \<and> outs2 = [''hi'', turtle] \<and>
      read_record turtle = Some (''<http://resonator.network/v2/antenna#Error>'',
         [(''<http://resonator.network/v2/antenna#message>'', Lit ''(non-string panic payload)'')])"
    using panic_poisons_the_handle [OF r1 p1 w2] by (auto simp: cr_def)
  ultimately show ?thesis
    using w w2 p1(1) msgs
    by (intro exI [of _ pr] exI [of _ fh1] exI [of _ fh'] exI [of _ outs]) (auto simp: fh1_def cr_def)
qed

text \<open>
  C35: \<open>antenna_account_id\<close> writes inside the caller's buffer only: it keeps the length of the buffer and
  everything behind the terminating zero, what it writes before the zero is the beginning of the
  account id of the running context, and it is the whole id if the buffer has room for it and the
  zero.
\<close>

theorem account_id_stays_in_buffer:
  assumes "ffi_reachable env h feature pr" "pr_handles pr p = Some fh" "0 < len" "len \<le> length buf"
    and "antenna_account_id (Some p) (Some buf) len pr = (Some buf', n)"
  shows "n < len \<and> length buf' = length buf \<and> buf' ! n = nul \<and> drop (Suc n) buf' = drop (Suc n) buf \<and>
    take n buf' = take n (fh_account fh) \<and> (length (fh_account fh) < len \<longrightarrow> n = length (fh_account fh)) \<and>
    (\<forall>a. fh_worker fh = Some a \<longrightarrow> fh_account fh = an_account a)"
proof -
  have sync: "\<forall>a. fh_worker fh = Some a \<longrightarrow> fh_account fh = an_account a"
    using ffi_reachable_ok [OF assms(1)] assms(2) by (simp add: process_ok_def handle_ok_def)
  have n: "n = min (length (fh_account fh)) (len - 1)"
      "buf' = (take n (fh_account fh) @ drop n buf)[n := nul]"
    using assms(2,3,5) by (auto simp: antenna_account_id_def at_handle_def Let_def)
  define w where "w = take n (fh_account fh)"
  have m: "n < len" "n < length buf" "length w = n" using n(1) assms(3,4) by (auto simp: w_def)
  have "buf' = w @ nul # drop (Suc n) buf"
    using n(2) m by (simp add: w_def [symmetric] list_update_append Cons_nth_drop_Suc [symmetric])
  moreover have "length (fh_account fh) < len \<longrightarrow> n = length (fh_account fh)" using n(1) by auto
  ultimately show ?thesis using m sync by (simp add: w_def [symmetric] nth_append)
qed

theorem account_id_stays_in_buffer_witness:
  "antenna_account_id (Some 1) (Some ''xxxxx'') 2 sample_process = (Some [CHR ''m'', nul, CHR ''x'', CHR ''x'', CHR ''x''], 1) \<and>
   (1 :: nat) < 2"
proof -
  obtain fh a where fh: "pr_handles sample_process = [1 \<mapsto> fh]" "fh_account fh = ''me''"
      and r: "ffi_reachable no_rows sample_host True sample_process"
    by (rule sample_handle)
  have p: "pr_handles sample_process 1 = Some fh" using fh(1) by simp
  have b: "antenna_account_id (Some 1) (Some ''xxxxx'') 2 sample_process = (Some [CHR ''m'', nul, CHR ''x'', CHR ''x'', CHR ''x''], 1)"
    by (simp add: antenna_account_id_def at_handle_def fh numeral_2_eq_2)
  show ?thesis using account_id_stays_in_buffer [OF r p _ _ b] b by simp
qed

end
