(* ===== verification/Script_Vm.thy ===== *)
theory Script_Vm
  imports Dag Carrier_Client "HOL-Library.State_Monad" "HOL-Library.Multiset"
begin

text \<open>
  The script engine of a node, \<^verbatim>\<open>src/script_vm.rs\<close>: one QuickJS runtime and context, the functions
  given to scripts, and the run of a script on a message.

  QuickJS is a parameter: its calls change an engine state that is not looked into and answer with
  values and texts.  An evaluation is a tree: the engine either returns or calls one of the functions
  registered by the program and goes on with what that returns.  Scripts that run forever have no
  such tree.  The program threads its state through many small calls, so it is written in the
  state monad; every value, text, context and runtime that is taken from the engine or given back
  to it is written down, and the bookkeeping shows that nothing leaks and nothing is freed twice.
\<close>

section \<open>The engine\<close>

text \<open>A \<open>JSValue\<close>: the union as its 64 bits, and the tag.\<close>

record js_value =
  js_bits :: "64 word"
  js_tag :: "64 word"

definition js_tag_exception :: int where "js_tag_exception = 6"

definition is_exception :: "js_value \<Rightarrow> bool" where
  "is_exception v \<longleftrightarrow> sint (js_tag v) = js_tag_exception"

definition js_undefined :: js_value where
  "js_undefined = \<lparr>js_bits = 0, js_tag = 3\<rparr>"

text \<open>The values that QuickJS counts references of are those with a negative tag.\<close>

definition counted :: "js_value \<Rightarrow> bool" where
  "counted v \<longleftrightarrow> sint (js_tag v) < 0"

datatype js_fn = Fn_emit | Fn_print | Fn_console_log | Fn_console_warn | Fn_console_error | Fn_store_query

datatype value_call = JS_GetGlobalObject | JS_GetException | JS_NewString str | JS_NewObject | JS_NewArray
  | JS_NewCFunction js_fn str nat

datatype plain_call = JS_SetMemoryLimit nat | JS_SetContextOpaque bool | JS_FreeContext | JS_FreeRuntime
  | JS_FreeValue js_value | JS_FreeCString nat | JS_SetPropertyStr js_value str js_value
  | JS_SetPropertyUint32 js_value nat js_value

datatype 'j eval = Returned 'j js_value | Calls js_fn "js_value list" 'j "'j \<Rightarrow> js_value \<Rightarrow> 'j eval"

text \<open>Null pointers are \<open>False\<close> and \<open>None\<close>; a C string has an address and the bytes before its zero.\<close>

record 'j quickjs =
  qj_new_runtime :: "'j \<Rightarrow> 'j \<times> bool"
  qj_new_context :: "'j \<Rightarrow> 'j \<times> bool"
  qj_value :: "'j \<Rightarrow> value_call \<Rightarrow> 'j \<times> js_value"
  qj_text :: "'j \<Rightarrow> js_value \<Rightarrow> 'j \<times> (nat \<times> str) option"
  qj_plain :: "'j \<Rightarrow> plain_call \<Rightarrow> 'j"
  qj_eval :: "'j \<Rightarrow> str \<Rightarrow> str \<Rightarrow> 'j eval"

section \<open>The machine and what it holds\<close>

datatype resource = Res_runtime | Res_context | Res_value js_value | Res_text nat

datatype res_event = Acquire resource | Release resource

text \<open>The level and the text of what a script prints.\<close>

datatype script_level = Script_info | Script_warn | Script_error

text \<open>
  \<open>vs_linked\<close> is whether the context points at the channels of the node; \<open>vs_emits\<close> and \<open>vs_queries\<close> are
  what has gone into them, \<open>vs_evals\<close> the texts that have been evaluated.
\<close>

record 'j vm_state =
  vs_engine :: 'j
  vs_events :: "res_event list"
  vs_linked :: bool
  vs_emits :: "str list"
  vs_queries :: "str list"
  vs_log :: "(script_level \<times> str) list"
  vs_evals :: "str list"
  vs_installed :: "64 word option"

definition vm_start :: "'j \<Rightarrow> 'j vm_state" where
  "vm_start j = \<lparr>vs_engine = j, vs_events = [], vs_linked = False, vs_emits = [], vs_queries = [], vs_log = [],
     vs_evals = [], vs_installed = None\<rparr>"

text \<open>
  The other ends: whether the graph still takes emits and queries, and the rows it answers the \<open>n\<close>-th
  query with, \<open>None\<close> if that takes more than five seconds or the query is dropped.
\<close>

record script_host =
  sh_emits :: bool
  sh_queries :: bool
  sh_answer :: "nat \<Rightarrow> (str \<times> str) list list option"
  sh_hash :: "str \<Rightarrow> 64 word"

type_synonym ('j, 'a) vm = "('j vm_state, 'a) state"

definition vm_get :: "('j vm_state \<Rightarrow> 'a) \<Rightarrow> ('j, 'a) vm" where
  "vm_get f = State (\<lambda>s. (f s, s))"

definition vm_update :: "('j vm_state \<Rightarrow> 'j vm_state) \<Rightarrow> ('j, unit) vm" where
  "vm_update f = State (\<lambda>s. ((), f s))"

abbreviation vm_return :: "'a \<Rightarrow> ('j, 'a) vm" where
  "vm_return \<equiv> State_Monad.return"

definition note_event :: "res_event \<Rightarrow> ('j, unit) vm" where
  "note_event e = vm_update (\<lambda>s. s\<lparr>vs_events := vs_events s @ [e]\<rparr>)"

definition note_value :: "(resource \<Rightarrow> res_event) \<Rightarrow> js_value \<Rightarrow> ('j, unit) vm" where
  "note_value e v = (if counted v then note_event (e (Res_value v)) else vm_return ())"

text \<open>Calls of the engine.\<close>

definition call_value :: "'j quickjs \<Rightarrow> value_call \<Rightarrow> ('j, js_value) vm" where
  "call_value q c = do {
     j \<leftarrow> vm_get vs_engine;
     let (j', v) = qj_value q j c;
     vm_update (\<lambda>s. s\<lparr>vs_engine := j'\<rparr>);
     note_value Acquire v;
     vm_return v }"

definition call_plain :: "'j quickjs \<Rightarrow> plain_call \<Rightarrow> ('j, unit) vm" where
  "call_plain q c = vm_update (\<lambda>s. s\<lparr>vs_engine := qj_plain q (vs_engine s) c\<rparr>)"

definition free_value :: "'j quickjs \<Rightarrow> js_value \<Rightarrow> ('j, unit) vm" where
  "free_value q v = do { call_plain q (JS_FreeValue v); note_value Release v }"

definition to_cstring :: "'j quickjs \<Rightarrow> js_value \<Rightarrow> ('j, (nat \<times> str) option) vm" where
  "to_cstring q v = do {
     j \<leftarrow> vm_get vs_engine;
     let (j', c) = qj_text q j v;
     vm_update (\<lambda>s. s\<lparr>vs_engine := j'\<rparr>);
     (case c of None \<Rightarrow> vm_return () | Some (p, _) \<Rightarrow> note_event (Acquire (Res_text p)));
     vm_return c }"

definition free_cstring :: "'j quickjs \<Rightarrow> nat \<Rightarrow> ('j, unit) vm" where
  "free_cstring q p = do { call_plain q (JS_FreeCString p); note_event (Release (Res_text p)) }"

text \<open>A property takes over the reference of the value it is set to.\<close>

definition set_property :: "'j quickjs \<Rightarrow> js_value \<Rightarrow> str \<Rightarrow> js_value \<Rightarrow> ('j, unit) vm" where
  "set_property q obj name v = do { call_plain q (JS_SetPropertyStr obj name v); note_value Release v }"

definition set_element :: "'j quickjs \<Rightarrow> js_value \<Rightarrow> nat \<Rightarrow> js_value \<Rightarrow> ('j, unit) vm" where
  "set_element q arr i v = do { call_plain q (JS_SetPropertyUint32 arr i v); note_value Release v }"

section \<open>The functions given to scripts\<close>

text \<open>\<open>emit(text)\<close>.\<close>

definition js_emit :: "'j quickjs \<Rightarrow> script_host \<Rightarrow> js_value list \<Rightarrow> ('j, js_value) vm" where
  "js_emit q h args =
     (case args of
        [] \<Rightarrow> vm_return js_undefined
      | v # _ \<Rightarrow> do {
          c \<leftarrow> to_cstring q v;
          (case c of
             None \<Rightarrow> vm_return js_undefined
           | Some (p, txt) \<Rightarrow> do {
               free_cstring q p;
               vm_update (\<lambda>s. if vs_linked s \<and> sh_emits h then s\<lparr>vs_emits := vs_emits s @ [from_utf8_lossy txt]\<rparr> else s);
               vm_return js_undefined }) })"

text \<open>\<open>join_js_args\<close>, from argument number \<open>i\<close> on.\<close>

fun join_js_args :: "'j quickjs \<Rightarrow> nat \<Rightarrow> js_value list \<Rightarrow> ('j, str) vm" where
  "join_js_args q i [] = vm_return []"
| "join_js_args q i (v # vs) = do {
     c \<leftarrow> to_cstring q v;
     (case c of
        None \<Rightarrow> join_js_args q (Suc i) vs
      | Some (p, txt) \<Rightarrow> do {
          free_cstring q p;
          rest \<leftarrow> join_js_args q (Suc i) vs;
          vm_return ((if 0 < i then '' '' else []) @ from_utf8_lossy txt @ rest) }) }"

definition js_print :: "'j quickjs \<Rightarrow> script_level \<Rightarrow> js_value list \<Rightarrow> ('j, js_value) vm" where
  "js_print q level args = do {
     msg \<leftarrow> join_js_args q 0 args;
     vm_update (\<lambda>s. s\<lparr>vs_log := vs_log s @ [(level, msg)]\<rparr>);
     vm_return js_undefined }"

text \<open>\<open>store.query(text)\<close>: an array with an object per row; bindings with a zero byte are left out.\<close>

fun set_bindings :: "'j quickjs \<Rightarrow> js_value \<Rightarrow> (str \<times> str) list \<Rightarrow> ('j, unit) vm" where
  "set_bindings q obj [] = vm_return ()"
| "set_bindings q obj ((var, val) # row) =
     (if is_ok (cstring var) \<and> is_ok (cstring val)
      then do {
        v \<leftarrow> call_value q (JS_NewString val);
        set_property q obj var v;
        set_bindings q obj row }
      else set_bindings q obj row)"

fun set_rows :: "'j quickjs \<Rightarrow> js_value \<Rightarrow> nat \<Rightarrow> (str \<times> str) list list \<Rightarrow> ('j, unit) vm" where
  "set_rows q arr i [] = vm_return ()"
| "set_rows q arr i (row # rows) = do {
     obj \<leftarrow> call_value q JS_NewObject;
     set_bindings q obj row;
     set_element q arr i obj;
     set_rows q arr (Suc i) rows }"

definition send_query :: "script_host \<Rightarrow> str \<Rightarrow> ('j, (str \<times> str) list list option) vm" where
  "send_query h sparql = do {
     n \<leftarrow> vm_get (\<lambda>s. length (vs_queries s));
     vm_update (\<lambda>s. s\<lparr>vs_queries := vs_queries s @ [sparql]\<rparr>);
     vm_return (sh_answer h n) }"

definition js_store_query :: "'j quickjs \<Rightarrow> script_host \<Rightarrow> js_value list \<Rightarrow> ('j, js_value) vm" where
  "js_store_query q h args =
     (case args of
        [] \<Rightarrow> call_value q JS_NewArray
      | v # _ \<Rightarrow> do {
          c \<leftarrow> to_cstring q v;
          (case c of
             None \<Rightarrow> call_value q JS_NewArray
           | Some (p, txt) \<Rightarrow> do {
               free_cstring q p;
               linked \<leftarrow> vm_get vs_linked;
               (if \<not> linked \<or> \<not> sh_queries h then call_value q JS_NewArray
                else do {
                  answer \<leftarrow> send_query h (from_utf8_lossy txt);
                  (case answer of
                     None \<Rightarrow> call_value q JS_NewArray
                   | Some rows \<Rightarrow> do {
                       arr \<leftarrow> call_value q JS_NewArray;
                       set_rows q arr 0 rows;
                       vm_return arr }) }) }) })"

fun callback :: "'j quickjs \<Rightarrow> script_host \<Rightarrow> js_fn \<Rightarrow> js_value list \<Rightarrow> ('j, js_value) vm" where
  "callback q h Fn_emit args = js_emit q h args"
| "callback q h Fn_print args = js_print q Script_info args"
| "callback q h Fn_console_log args = js_print q Script_info args"
| "callback q h Fn_console_warn args = js_print q Script_warn args"
| "callback q h Fn_console_error args = js_print q Script_error args"
| "callback q h Fn_store_query args = js_store_query q h args"

text \<open>
  An evaluation: what a function returns is handed to the engine, what the evaluation returns is
  taken from it.
\<close>

primrec run_eval :: "'j quickjs \<Rightarrow> script_host \<Rightarrow> 'j eval \<Rightarrow> ('j, js_value) vm" where
  "run_eval q h (Returned j v) = do {
     vm_update (\<lambda>s. s\<lparr>vs_engine := j\<rparr>);
     note_value Acquire v;
     vm_return v }"
| "run_eval q h (Calls f args j k) = do {
     vm_update (\<lambda>s. s\<lparr>vs_engine := j\<rparr>);
     r \<leftarrow> callback q h f args;
     note_value Release r;
     j' \<leftarrow> vm_get vs_engine;
     run_eval q h (k j' r) }"

definition js_eval :: "'j quickjs \<Rightarrow> script_host \<Rightarrow> str \<Rightarrow> str \<Rightarrow> ('j, js_value) vm" where
  "js_eval q h txt filename = do {
     vm_update (\<lambda>s. s\<lparr>vs_evals := vs_evals s @ [txt]\<rparr>);
     j \<leftarrow> vm_get vs_engine;
     run_eval q h (qj_eval q j txt filename) }"

section \<open>The life of a machine\<close>

definition register :: "'j quickjs \<Rightarrow> js_value \<Rightarrow> js_fn \<Rightarrow> str \<Rightarrow> ('j, unit) vm" where
  "register q obj f name = do {
     v \<leftarrow> call_value q (JS_NewCFunction f name 1);
     set_property q obj name v }"

definition register_functions :: "'j quickjs \<Rightarrow> ('j, unit) vm" where
  "register_functions q = do {
     global \<leftarrow> call_value q JS_GetGlobalObject;
     register q global Fn_emit ''emit'';
     register q global Fn_print ''print'';
     console_obj \<leftarrow> call_value q JS_NewObject;
     register q console_obj Fn_console_log ''log'';
     register q console_obj Fn_console_warn ''warn'';
     register q console_obj Fn_console_error ''error'';
     set_property q global ''console'' console_obj;
     store_obj \<leftarrow> call_value q JS_NewObject;
     register q store_obj Fn_store_query ''query'';
     set_property q global ''store'' store_obj;
     free_value q global }"

text \<open>A call that makes a runtime or a context, and one that frees it.\<close>

definition open_resource :: "('j \<Rightarrow> 'j \<times> bool) \<Rightarrow> resource \<Rightarrow> ('j, bool) vm" where
  "open_resource f r = do {
     j \<leftarrow> vm_get vs_engine;
     let (j', ok) = f j;
     vm_update (\<lambda>s. s\<lparr>vs_engine := j'\<rparr>);
     (if ok then note_event (Acquire r) else vm_return ());
     vm_return ok }"

definition close_resource :: "'j quickjs \<Rightarrow> plain_call \<Rightarrow> resource \<Rightarrow> ('j, unit) vm" where
  "close_resource q c r = do { call_plain q c; note_event (Release r) }"

definition script_vm_new :: "'j quickjs \<Rightarrow> nat \<Rightarrow> ('j, str + unit) vm" where
  "script_vm_new q memory_limit = do {
     rt \<leftarrow> open_resource (qj_new_runtime q) Res_runtime;
     (if \<not> rt then vm_return (Inl ''JS_NewRuntime failed'')
      else do {
        (if memory_limit > 0 then call_plain q (JS_SetMemoryLimit memory_limit) else vm_return ());
        ctx \<leftarrow> open_resource (qj_new_context q) Res_context;
        (if \<not> ctx then do {
           close_resource q JS_FreeRuntime Res_runtime;
           vm_return (Inl ''JS_NewContext failed'') }
         else do {
           call_plain q (JS_SetContextOpaque True);
           vm_update (\<lambda>s. s\<lparr>vs_linked := True, vs_installed := None\<rparr>);
           register_functions q;
           vm_return (Inr ()) }) }) }"

definition set_global_text :: "'j quickjs \<Rightarrow> js_value \<Rightarrow> str \<Rightarrow> str \<Rightarrow> ('j, unit) vm" where
  "set_global_text q global name txt = do {
     v \<leftarrow> call_value q (JS_NewString (case cstring txt of Inl _ \<Rightarrow> [] | Inr t \<Rightarrow> t));
     set_property q global name v }"

definition call_text :: str where
  "call_text = ''globalThis.__scriptBody();''"

definition install_text :: "str \<Rightarrow> str" where
  "install_text source = ''globalThis.__scriptBody = function() {'' @ newline # source @ newline # ''};'' @ newline # call_text"

definition exception_text :: "'j quickjs \<Rightarrow> ('j, str) vm" where
  "exception_text q = do {
     exc \<leftarrow> call_value q JS_GetException;
     c \<leftarrow> to_cstring q exc;
     msg \<leftarrow> (case c of
        None \<Rightarrow> vm_return ''unknown JS error''
      | Some (p, txt) \<Rightarrow> do { free_cstring q p; vm_return (from_utf8_lossy txt) });
     free_value q exc;
     vm_return msg }"

text \<open>The text that is evaluated for a source.\<close>

definition wrapped :: "script_host \<Rightarrow> 64 word option \<Rightarrow> str \<Rightarrow> str" where
  "wrapped h installed source = (if installed = Some (sh_hash h source) then call_text else install_text source)"

definition script_vm_exec :: "'j quickjs \<Rightarrow> script_host \<Rightarrow> str \<Rightarrow> str \<Rightarrow> str \<Rightarrow> ('j, str + unit) vm" where
  "script_vm_exec q h source inp channel_uri = do {
     global \<leftarrow> call_value q JS_GetGlobalObject;
     set_global_text q global ''input'' inp;
     set_global_text q global ''channel'' channel_uri;
     installed \<leftarrow> vm_get vs_installed;
     vm_update (\<lambda>s. s\<lparr>vs_installed := Some (sh_hash h source)\<rparr>);
     (case cstring (wrapped h installed source) of
        Inl _ \<Rightarrow> vm_return (Inl ''script contains null byte'')
      | Inr txt \<Rightarrow> do {
          result \<leftarrow> js_eval q h txt ''<script>'';
          (if is_exception result then do {
             msg \<leftarrow> exception_text q;
             free_value q global;
             vm_return (Inl (''JS error: '' @ msg)) }
           else do {
             free_value q result;
             free_value q global;
             vm_return (Inr ()) }) }) }"

fun clear_globals :: "'j quickjs \<Rightarrow> js_value \<Rightarrow> str list \<Rightarrow> ('j, unit) vm" where
  "clear_globals q global [] = vm_return ()"
| "clear_globals q global (name # names) = do {
     set_property q global name js_undefined;
     clear_globals q global names }"

definition script_vm_drop :: "'j quickjs \<Rightarrow> ('j, unit) vm" where
  "script_vm_drop q = do {
     call_plain q (JS_SetContextOpaque False);
     vm_update (\<lambda>s. s\<lparr>vs_linked := False\<rparr>);
     global \<leftarrow> call_value q JS_GetGlobalObject;
     clear_globals q global [''emit'', ''print'', ''store''];
     free_value q global;
     close_resource q JS_FreeContext Res_context;
     close_resource q JS_FreeRuntime Res_runtime }"

section \<open>Bookkeeping\<close>

text \<open>
  What is held after some events; \<open>None\<close> if something is given back that is not held.
\<close>

fun settle :: "resource multiset \<Rightarrow> res_event list \<Rightarrow> resource multiset option" where
  "settle m [] = Some m"
| "settle m (Acquire r # es) = settle (add_mset r m) es"
| "settle m (Release r # es) = (if r \<in># m then settle (m - {#r#}) es else None)"

lemma settle_append: "settle m (es @ fs) = Option.bind (settle m es) (\<lambda>n. settle n fs)"
  by (induction m es rule: settle.induct) auto

definition held :: "js_value \<Rightarrow> resource multiset" where
  "held v = (if counted v then {#Res_value v#} else {#})"

definition held_text :: "(nat \<times> str) option \<Rightarrow> resource multiset" where
  "held_text c = (case c of None \<Rightarrow> {#} | Some (p, _) \<Rightarrow> {#Res_text p#})"

text \<open>
  A program that starts out with the resources \<open>A\<close> ends with \<open>B x\<close>, where \<open>x\<close> is its result, whatever
  the engine does.
\<close>

definition owns :: "resource multiset \<Rightarrow> ('j, 'a) vm \<Rightarrow> ('a \<Rightarrow> resource multiset) \<Rightarrow> bool" where
  "owns A m B \<longleftrightarrow> (\<forall>s. \<exists>es. vs_events (snd (run_state m s)) = vs_events s @ es \<and>
     settle A es = Some (B (fst (run_state m s))))"

lemma owns_bind:
  assumes "owns A m B" "\<And>x. owns (B x) (f x) C"
  shows "owns A (State_Monad.bind m f) C"
  unfolding owns_def
proof
  fix s
  obtain x s1 where m: "run_state m s = (x, s1)" by force
  obtain es where es: "vs_events s1 = vs_events s @ es" "settle A es = Some (B x)"
    using assms(1) m unfolding owns_def by (metis fst_conv snd_conv)
  obtain fs where "vs_events (snd (run_state (f x) s1)) = vs_events s1 @ fs"
      "settle (B x) fs = Some (C (fst (run_state (f x) s1)))"
    using assms(2) [of x] unfolding owns_def by blast
  then show "\<exists>es. vs_events (snd (run_state (State_Monad.bind m f) s)) = vs_events s @ es \<and>
      settle A es = Some (C (fst (run_state (State_Monad.bind m f) s)))"
    using es m by (intro exI [of _ "es @ fs"]) (simp add: settle_append)
qed

lemma owns_bind_unit:
  "owns A m (\<lambda>_. B) \<Longrightarrow> owns B n C \<Longrightarrow> owns A (State_Monad.bind m (\<lambda>_. n)) C"
  by (rule owns_bind)

lemma owns_return: "owns (B x) (vm_return x) B"
  by (simp add: owns_def)

lemma owns_return_const: "owns A (vm_return x) (\<lambda>_. A)"
  by (rule owns_return)

lemma owns_get: "owns A (vm_get f) (\<lambda>_. A)"
  by (simp add: owns_def vm_get_def)

lemma owns_update: "(\<And>s. vs_events (f s) = vs_events s) \<Longrightarrow> owns A (vm_update f) (\<lambda>_. A)"
  by (simp add: owns_def vm_update_def)

lemma owns_acquire: "owns A (note_event (Acquire r)) (\<lambda>_. add_mset r A)"
  by (simp add: owns_def note_event_def vm_update_def)

lemma owns_release: "owns (add_mset r A) (note_event (Release r)) (\<lambda>_. A)"
  by (simp add: owns_def note_event_def vm_update_def)

lemma owns_acquire_value: "owns A (note_value Acquire v) (\<lambda>_. held v + A)"
  using owns_acquire [of A] owns_return_const by (auto simp: note_value_def held_def)

lemma owns_release_value: "owns (held v + A) (note_value Release v) (\<lambda>_. A)"
  using owns_release [of _ A] owns_return_const by (auto simp: note_value_def held_def)

lemma owns_plain: "owns A (call_plain q c) (\<lambda>_. A)"
  unfolding call_plain_def by (rule owns_update) simp

lemma owns_value: "owns A (call_value q c) (\<lambda>v. held v + A)"
  unfolding call_value_def Let_def split_beta
  by (intro owns_bind_unit [OF owns_update] owns_bind [OF owns_get] owns_bind_unit [OF owns_acquire_value]) (auto intro: owns_return)

lemma owns_free: "owns (held v + A) (free_value q v) (\<lambda>_. A)"
  unfolding free_value_def by (intro owns_bind_unit [OF owns_plain] owns_release_value)

lemma owns_set: "owns (held v + A) (set_property q obj name v) (\<lambda>_. A)"
  unfolding set_property_def by (intro owns_bind_unit [OF owns_plain] owns_release_value)

lemma owns_element: "owns (held v + A) (set_element q arr i v) (\<lambda>_. A)"
  unfolding set_element_def by (intro owns_bind_unit [OF owns_plain] owns_release_value)

lemma owns_text: "owns A (to_cstring q v) (\<lambda>c. held_text c + A)"
proof -
  have "owns A (case c of None \<Rightarrow> vm_return () | Some (p, _) \<Rightarrow> note_event (Acquire (Res_text p))) (\<lambda>_. held_text c + A)" for c
    using owns_acquire [of A] owns_return_const by (auto simp: held_text_def split: option.split)
  then show ?thesis
    unfolding to_cstring_def Let_def split_beta
    by (intro owns_bind [OF owns_get] owns_bind_unit [OF owns_update] owns_bind_unit) (auto intro: owns_return)
qed

lemma owns_free_text: "owns (add_mset (Res_text p) A) (free_cstring q p) (\<lambda>_. A)"
  unfolding free_cstring_def by (intro owns_bind_unit [OF owns_plain] owns_release)

lemmas owns_steps = owns_bind_unit [OF owns_update] owns_bind_unit [OF owns_plain] owns_bind [OF owns_get]
  owns_bind [OF owns_value] owns_bind_unit [OF owns_set] owns_bind_unit [OF owns_element] owns_bind_unit [OF owns_free]
  owns_bind [OF owns_text] owns_bind_unit [OF owns_free_text]

lemma owns_emit: "owns A (js_emit q h args) (\<lambda>v. held v + A)"
proof -
  have u: "held js_undefined + A = A" by (simp add: held_def counted_def js_undefined_def)
  have r: "owns A (vm_return js_undefined) (\<lambda>v. held v + A)" using owns_return [of "\<lambda>v. held v + A" js_undefined] u by simp
  have "owns (held_text c + A) (case c of
             None \<Rightarrow> vm_return js_undefined
           | Some (p, txt) \<Rightarrow> do {
               free_cstring q p;
               vm_update (\<lambda>s. if vs_linked s \<and> sh_emits h then s\<lparr>vs_emits := vs_emits s @ [from_utf8_lossy txt]\<rparr> else s);
               vm_return js_undefined }) (\<lambda>v. held v + A)" for c
    using r by (auto simp: held_text_def split: option.split intro!: owns_steps)
  then show ?thesis using r by (auto simp: js_emit_def split: list.split intro!: owns_steps)
qed

lemma owns_join: "owns A (join_js_args q i vs) (\<lambda>_. A)"
proof (induction q i vs rule: join_js_args.induct)
  case (1 q i)
  show ?case by (simp add: owns_return_const)
next
  case (2 q i v vs)
  have "owns (held_text c + A) (case c of
        None \<Rightarrow> join_js_args q (Suc i) vs
      | Some (p, txt) \<Rightarrow> do {
          free_cstring q p;
          rest \<leftarrow> join_js_args q (Suc i) vs;
          vm_return ((if 0 < i then '' '' else []) @ from_utf8_lossy txt @ rest) }) (\<lambda>_. A)" for c
    using 2 by (auto simp: held_text_def split: option.split intro!: owns_steps owns_bind owns_return_const)
  then show ?case unfolding join_js_args.simps by (rule owns_bind [OF owns_text])
qed

lemma owns_print: "owns A (js_print q level args) (\<lambda>v. held v + A)"
proof -
  have "owns A (vm_return js_undefined) (\<lambda>v. held v + A)"
    using owns_return [of "\<lambda>v. held v + A" js_undefined] by (simp add: held_def counted_def js_undefined_def)
  then show ?thesis unfolding js_print_def by (intro owns_bind [OF owns_join] owns_steps) simp_all
qed

lemma owns_bindings: "owns A (set_bindings q obj row) (\<lambda>_. A)"
  by (induction q obj row rule: set_bindings.induct) (auto intro!: owns_steps owns_return_const)

lemma owns_rows: "owns A (set_rows q arr i rows) (\<lambda>_. A)"
proof (induction q arr i rows rule: set_rows.induct)
  case (2 q arr i row rows)
  then show ?case by (auto intro!: owns_steps owns_bind_unit [OF owns_bindings])
qed (simp add: owns_return_const)

lemma owns_query: "owns A (js_store_query q h args) (\<lambda>v. held v + A)"
proof -
  have s: "owns A (send_query h sparql) (\<lambda>_. A)" for sparql
    unfolding send_query_def by (intro owns_steps owns_return_const) simp
  have rows: "owns A (do { arr \<leftarrow> call_value q JS_NewArray; set_rows q arr 0 rows; vm_return arr }) (\<lambda>v. held v + A)" for rows
    by (intro owns_steps owns_bind_unit [OF owns_rows]) (rule owns_return)
  have answer: "owns A (case x of None \<Rightarrow> call_value q JS_NewArray
      | Some rows \<Rightarrow> do { arr \<leftarrow> call_value q JS_NewArray; set_rows q arr 0 rows; vm_return arr }) (\<lambda>v. held v + A)" for x
    using owns_value rows by (auto split: option.split)
  have found: "owns (held_text c + A) (case c of
             None \<Rightarrow> call_value q JS_NewArray
           | Some (p, txt) \<Rightarrow> do {
               free_cstring q p;
               linked \<leftarrow> vm_get vs_linked;
               (if \<not> linked \<or> \<not> sh_queries h then call_value q JS_NewArray
                else do {
                  answer \<leftarrow> send_query h (from_utf8_lossy txt);
                  (case answer of
                     None \<Rightarrow> call_value q JS_NewArray
                   | Some rows \<Rightarrow> do {
                       arr \<leftarrow> call_value q JS_NewArray;
                       set_rows q arr 0 rows;
                       vm_return arr }) }) }) (\<lambda>v. held v + A)" for c
    using owns_value answer
    by (auto simp: held_text_def split: option.split intro!: owns_steps owns_bind [OF s])
  show ?thesis
  proof (cases args)
    case Nil
    then show ?thesis by (simp add: js_store_query_def owns_value)
  next
    case (Cons v vs)
    show ?thesis unfolding js_store_query_def Cons list.case by (rule owns_bind [OF owns_text found])
  qed
qed

lemma owns_callback: "owns A (callback q h f args) (\<lambda>v. held v + A)"
  by (cases f) (simp_all add: owns_emit owns_print owns_query)

lemma owns_eval: "owns A (run_eval q h t) (\<lambda>v. held v + A)"
proof (induction t)
  case (Returned j v)
  then show ?case by (auto intro!: owns_steps owns_bind_unit [OF owns_acquire_value] owns_return)
next
  case (Calls f args j k)
  then show ?case by (auto intro!: owns_steps owns_bind [OF owns_callback] owns_bind_unit [OF owns_release_value])
qed

lemma owns_js_eval: "owns A (js_eval q h source filename) (\<lambda>v. held v + A)"
  unfolding js_eval_def by (intro owns_steps owns_eval) simp

lemma owns_register: "owns A (register q obj f name) (\<lambda>_. A)"
  unfolding register_def by (intro owns_steps owns_set)

lemma owns_register_functions: "owns A (register_functions q) (\<lambda>_. A)"
  unfolding register_functions_def by (intro owns_steps owns_bind_unit [OF owns_register] owns_free)

lemma owns_open: "owns A (open_resource f r) (\<lambda>ok. if ok then add_mset r A else A)"
  by (auto simp: owns_def open_resource_def vm_get_def vm_update_def note_event_def Let_def split_beta)

lemma owns_close: "owns (add_mset r A) (close_resource q c r) (\<lambda>_. A)"
  unfolding close_resource_def by (intro owns_bind_unit [OF owns_plain] owns_release)

lemma owns_set_global: "owns A (set_global_text q global name v) (\<lambda>_. A)"
  unfolding set_global_text_def by (intro owns_steps owns_set)

lemma owns_clear: "owns A (clear_globals q global names) (\<lambda>_. A)"
proof (induction q global names rule: clear_globals.induct)
  case (2 q global name names)
  have "owns A (set_property q global name js_undefined) (\<lambda>_. A)"
    using owns_set [of js_undefined A] by (simp add: held_def counted_def js_undefined_def)
  then show ?case using 2 by (auto intro: owns_bind_unit)
qed (simp add: owns_return_const)

lemma owns_new:
  "owns {#} (script_vm_new q limit) (\<lambda>r. if is_ok r then {#Res_context, Res_runtime#} else {#})"
proof -
  let ?B = "\<lambda>r :: str + unit. if is_ok r then {#Res_context, Res_runtime#} else {#}"
  have made: "owns {#Res_context, Res_runtime#} (do {
       call_plain q (JS_SetContextOpaque True);
       vm_update (\<lambda>s. s\<lparr>vs_linked := True, vs_installed := None\<rparr>);
       register_functions q;
       vm_return (Inr ()) }) ?B"
    by (intro owns_steps owns_bind_unit [OF owns_register_functions]) (simp_all add: owns_def)
  have failed: "owns {#Res_runtime#} (do {
       close_resource q JS_FreeRuntime Res_runtime; vm_return (Inl ''JS_NewContext failed'') }) ?B"
    by (rule owns_bind_unit [OF owns_close]) (simp add: owns_def)
  have limit: "owns {#Res_runtime#} (if limit > 0 then call_plain q (JS_SetMemoryLimit limit) else vm_return ()) (\<lambda>_. {#Res_runtime#})"
    using owns_plain owns_return_const by auto
  have "owns {#Res_runtime#} (do {
        (if limit > 0 then call_plain q (JS_SetMemoryLimit limit) else vm_return ());
        ctx \<leftarrow> open_resource (qj_new_context q) Res_context;
        (if \<not> ctx then do { close_resource q JS_FreeRuntime Res_runtime; vm_return (Inl ''JS_NewContext failed'') }
         else do {
           call_plain q (JS_SetContextOpaque True);
           vm_update (\<lambda>s. s\<lparr>vs_linked := True, vs_installed := None\<rparr>);
           register_functions q;
           vm_return (Inr ()) }) }) ?B"
    by (intro owns_bind_unit [OF limit] owns_bind [OF owns_open]) (use made failed in auto)
  moreover have "owns {#} (vm_return (Inl ''JS_NewRuntime failed'')) ?B" by (simp add: owns_def)
  ultimately show ?thesis unfolding script_vm_new_def by (intro owns_bind [OF owns_open]) auto
qed

lemma owns_drop: "owns {#Res_context, Res_runtime#} (script_vm_drop q) (\<lambda>_. {#})"
proof -
  have "owns {#Res_runtime#} (close_resource q JS_FreeRuntime Res_runtime) (\<lambda>_. {#})"
    by (rule owns_close)
  moreover have "owns {#Res_context, Res_runtime#} (close_resource q JS_FreeContext Res_context) (\<lambda>_. {#Res_runtime#})"
    by (rule owns_close)
  ultimately show ?thesis
    unfolding script_vm_drop_def by (intro owns_steps owns_bind_unit [OF owns_clear] owns_bind_unit) simp_all
qed

text \<open>What the engine is made to do, apart from an evaluation, does not touch these parts of the machine.\<close>

definition keeps_vm :: "('j, 'a) vm \<Rightarrow> bool" where
  "keeps_vm m \<longleftrightarrow> state_io_rel (\<lambda>s s'. vs_installed s' = vs_installed s \<and> vs_evals s' = vs_evals s) m"

lemma keeps_vm_bind: "keeps_vm m \<Longrightarrow> (\<And>x. keeps_vm (f x)) \<Longrightarrow> keeps_vm (State_Monad.bind m f)"
  unfolding keeps_vm_def state_io_rel_def by (simp add: split_beta)

lemma keeps_vm_return: "keeps_vm (vm_return x)"
  by (simp add: keeps_vm_def state_io_rel_def)

lemma keeps_vm_get: "keeps_vm (vm_get f)"
  by (simp add: keeps_vm_def state_io_rel_def vm_get_def)

lemma keeps_vm_update:
  "(\<And>s. vs_installed (f s) = vs_installed s \<and> vs_evals (f s) = vs_evals s) \<Longrightarrow> keeps_vm (vm_update f)"
  by (simp add: keeps_vm_def state_io_rel_def vm_update_def)

lemmas keeps_vm_intros = keeps_vm_bind keeps_vm_return keeps_vm_get keeps_vm_update

lemma keeps_vm_note: "keeps_vm (note_event e)" "keeps_vm (note_value ev v)"
  by (auto simp: note_event_def note_value_def intro!: keeps_vm_intros)

lemma keeps_vm_calls:
  "keeps_vm (call_plain q c)" "keeps_vm (call_value q vc)" "keeps_vm (free_value q v)" "keeps_vm (set_property q obj name v)"
  "keeps_vm (set_element q arr i v)" "keeps_vm (free_cstring q p)" "keeps_vm (to_cstring q v)"
  by (auto simp: call_plain_def call_value_def free_value_def set_property_def set_element_def free_cstring_def to_cstring_def
      Let_def split_beta split: option.split intro!: keeps_vm_intros keeps_vm_note)

lemma keeps_vm_join: "keeps_vm (join_js_args q i vs)"
  by (induction q i vs rule: join_js_args.induct)
    (auto split: option.split intro!: keeps_vm_intros keeps_vm_calls)

lemma keeps_vm_bindings: "keeps_vm (set_bindings q obj row)"
  by (induction q obj row rule: set_bindings.induct) (auto intro!: keeps_vm_intros keeps_vm_calls)

lemma keeps_vm_rows: "keeps_vm (set_rows q arr i rows)"
  by (induction q arr i rows rule: set_rows.induct) (auto intro!: keeps_vm_intros keeps_vm_calls keeps_vm_bindings)

lemma keeps_vm_callback: "keeps_vm (callback q h f args)"
  by (cases f)
    (auto simp: js_emit_def js_print_def js_store_query_def send_query_def split: list.split option.split
      intro!: keeps_vm_intros keeps_vm_calls keeps_vm_join keeps_vm_rows)

lemma keeps_vm_eval: "keeps_vm (run_eval q h t)"
  by (induction t) (auto intro!: keeps_vm_intros keeps_vm_note keeps_vm_callback)

lemma keeps_vm_set_global: "keeps_vm (set_global_text q global name v)"
  unfolding set_global_text_def by (intro keeps_vm_intros keeps_vm_calls)

lemma keeps_vm_exception: "keeps_vm (exception_text q)"
  unfolding exception_text_def by (auto split: option.split intro!: keeps_vm_intros keeps_vm_calls)

lemma keeps_vmD: "keeps_vm m \<Longrightarrow> run_state m s = (x, s') \<Longrightarrow> vs_installed s' = vs_installed s \<and> vs_evals s' = vs_evals s"
  unfolding keeps_vm_def state_io_rel_def by (metis snd_conv)

section \<open>The run of a script\<close>

lemma nul_wrapped: "nul \<in> set (wrapped h installed source) \<longleftrightarrow> installed \<noteq> Some (sh_hash h source) \<and> nul \<in> set source"
proof -
  have "nul \<notin> set call_text" "nul \<notin> set ''globalThis.__scriptBody = function() {''" "nul \<notin> set ''};''" "nul \<noteq> newline"
    by (simp_all add: call_text_def nul_def newline_def)
  then show ?thesis by (auto simp: wrapped_def install_text_def)
qed

text \<open>The parts of a run before and after the decision.\<close>

definition exec_prepare :: "'j quickjs \<Rightarrow> script_host \<Rightarrow> str \<Rightarrow> str \<Rightarrow> str \<Rightarrow> ('j, js_value \<times> 64 word option) vm" where
  "exec_prepare q h source inp channel_uri = do {
     global \<leftarrow> call_value q JS_GetGlobalObject;
     set_global_text q global ''input'' inp;
     set_global_text q global ''channel'' channel_uri;
     installed \<leftarrow> vm_get vs_installed;
     vm_update (\<lambda>s. s\<lparr>vs_installed := Some (sh_hash h source)\<rparr>);
     vm_return (global, installed) }"

definition exec_evaluate :: "'j quickjs \<Rightarrow> script_host \<Rightarrow> js_value \<Rightarrow> str \<Rightarrow> ('j, str + unit) vm" where
  "exec_evaluate q h global source = do {
     result \<leftarrow> js_eval q h source ''<script>'';
     (if is_exception result then do {
        msg \<leftarrow> exception_text q;
        free_value q global;
        vm_return (Inl (''JS error: '' @ msg)) }
      else do {
        free_value q result;
        free_value q global;
        vm_return (Inr ()) }) }"

lemma case_cstring: "(case cstring t of Inl e \<Rightarrow> f e | Inr u \<Rightarrow> g u) = (if nul \<in> set t then f (projl (cstring t)) else g t)"
  by (simp add: cstring_def)

lemma exec_split: "script_vm_exec q h source inp channel_uri =
    State_Monad.bind (exec_prepare q h source inp channel_uri) (\<lambda>(global, installed).
      if nul \<in> set (wrapped h installed source) then vm_return (Inl ''script contains null byte'')
      else exec_evaluate q h global (wrapped h installed source))"
  unfolding script_vm_exec_def exec_prepare_def exec_evaluate_def case_cstring by simp

lemma owns_prepare: "owns A (exec_prepare q h source inp channel_uri) (\<lambda>(global, _). held global + A)"
  unfolding exec_prepare_def
  by (intro owns_steps owns_bind_unit [OF owns_set_global]) (auto simp: owns_def)

lemma owns_exception_text: "owns A (exception_text q) (\<lambda>_. A)"
proof -
  have "owns (held_text c + A) (case c of
        None \<Rightarrow> vm_return ''unknown JS error''
      | Some (p, t) \<Rightarrow> do { free_cstring q p; vm_return (from_utf8_lossy t) }) (\<lambda>_. A)" for A c
    by (auto simp: held_text_def split: option.split intro!: owns_steps owns_return_const)
  then show ?thesis unfolding exception_text_def
    by (intro owns_steps owns_bind [OF _ owns_bind_unit [OF owns_free owns_return_const]])
qed

lemma owns_evaluate: "owns (held global + A) (exec_evaluate q h global source) (\<lambda>_. A)"
proof -
  have "owns (held r + (held global + A)) (if is_exception r then do {
        msg \<leftarrow> exception_text q;
        free_value q global;
        vm_return (Inl (''JS error: '' @ msg)) }
      else do {
        free_value q r;
        free_value q global;
        vm_return (Inr ()) }) (\<lambda>_. A)" for r
  proof (cases "is_exception r")
    case True
    then have "held r = {#}" by (simp add: held_def counted_def is_exception_def js_tag_exception_def)
    then show ?thesis using True
      by (auto intro!: owns_bind [OF owns_exception_text] owns_steps owns_return_const)
  next
    case False
    then show ?thesis by (auto intro!: owns_steps owns_return_const)
  qed
  then show ?thesis unfolding exec_evaluate_def by (rule owns_bind [OF owns_js_eval])
qed

lemma owns_exec:
  assumes "nul \<notin> set source"
  shows "owns A (script_vm_exec q h source inp channel_uri) (\<lambda>_. A)"
  unfolding exec_split
proof (rule owns_bind [OF owns_prepare])
  fix x :: "js_value \<times> 64 word option"
  show "owns (case x of (global, _) \<Rightarrow> held global + A)
     (case x of (global, installed) \<Rightarrow> if nul \<in> set (wrapped h installed source) then vm_return (Inl ''script contains null byte'')
        else exec_evaluate q h global (wrapped h installed source)) (\<lambda>_. A)"
    using assms owns_evaluate by (auto simp: nul_wrapped split: prod.split)
qed

fun vm_runs :: "'j quickjs \<Rightarrow> script_host \<Rightarrow> (str \<times> str \<times> str) list \<Rightarrow> ('j, unit) vm" where
  "vm_runs q h [] = vm_return ()"
| "vm_runs q h ((source, inp, channel_uri) # runs) = do {
     script_vm_exec q h source inp channel_uri;
     vm_runs q h runs }"

text \<open>The whole life of a machine.\<close>

definition vm_life :: "'j quickjs \<Rightarrow> script_host \<Rightarrow> nat \<Rightarrow> (str \<times> str \<times> str) list \<Rightarrow> ('j, unit) vm" where
  "vm_life q h memory_limit runs = do {
     made \<leftarrow> script_vm_new q memory_limit;
     (case made of
        Inl _ \<Rightarrow> vm_return ()
      | Inr _ \<Rightarrow> do { vm_runs q h runs; script_vm_drop q }) }"

lemma owns_runs: "\<forall>(source, inp, uri) \<in> set runs. nul \<notin> set source \<Longrightarrow> owns A (vm_runs q h runs) (\<lambda>_. A)"
  by (induction q h runs rule: vm_runs.induct) (auto intro: owns_return_const owns_bind_unit [OF owns_exec])

text \<open>What a run does to the parts that an evaluation leaves alone.\<close>

lemma prepare_frame:
  assumes "run_state (exec_prepare q h source inp channel_uri) s = ((global, installed), s')"
  shows "installed = vs_installed s \<and> vs_installed s' = Some (sh_hash h source) \<and> vs_evals s' = vs_evals s \<and>
    global = snd (qj_value q (vs_engine s) JS_GetGlobalObject)"
proof -
  obtain g s1 where g: "run_state (call_value q JS_GetGlobalObject) s = (g, s1)" by force
  obtain s2 where s2: "run_state (set_global_text q g ''input'' inp) s1 = ((), s2)"
    by (cases "run_state (set_global_text q g ''input'' inp) s1") auto
  obtain s3 where s3: "run_state (set_global_text q g ''channel'' channel_uri) s2 = ((), s3)"
    by (cases "run_state (set_global_text q g ''channel'' channel_uri) s2") auto
  have "g = snd (qj_value q (vs_engine s) JS_GetGlobalObject)"
    using g by (auto simp: call_value_def vm_get_def vm_update_def note_value_def note_event_def split_beta Let_def split: if_splits)
  moreover have "installed = vs_installed s3" "s' = s3\<lparr>vs_installed := Some (sh_hash h source)\<rparr>" "global = g"
    using assms g s2 s3 by (simp_all add: exec_prepare_def vm_get_def vm_update_def)
  ultimately show ?thesis
    using keeps_vmD [OF keeps_vm_calls(2) g] keeps_vmD [OF keeps_vm_set_global s2] keeps_vmD [OF keeps_vm_set_global s3]
    by simp
qed

lemma evaluate_frame:
  assumes "run_state (exec_evaluate q h global t) s = (r, s')"
  shows "vs_installed s' = vs_installed s \<and> vs_evals s' = vs_evals s @ [t]"
proof -
  let ?s0 = "s\<lparr>vs_evals := vs_evals s @ [t]\<rparr>"
  let ?rest = "\<lambda>result. if is_exception result then do {
        msg \<leftarrow> exception_text q;
        free_value q global;
        vm_return (Inl (''JS error: '' @ msg)) }
      else do { free_value q result; free_value q global; vm_return (Inr ()) }"
  have keep: "keeps_vm (?rest v)" for v
    by (auto intro!: keeps_vm_intros keeps_vm_exception keeps_vm_calls)
  have "run_state (do { v \<leftarrow> run_eval q h (qj_eval q (vs_engine s) t ''<script>''); ?rest v }) ?s0 = (r, s')"
    using assms by (simp add: exec_evaluate_def js_eval_def vm_update_def vm_get_def)
  from keeps_vmD [OF keeps_vm_bind [OF keeps_vm_eval keep] this]
  have "vs_installed s' = vs_installed ?s0 \<and> vs_evals s' = vs_evals ?s0" .
  then show ?thesis by simp
qed

lemma exec_cases:
  assumes "run_state (script_vm_exec q h source inp channel_uri) s = (r, s')"
  shows "vs_installed s' = Some (sh_hash h source) \<and>
    (if nul \<in> set (wrapped h (vs_installed s) source)
     then r = Inl ''script contains null byte'' \<and> vs_evals s' = vs_evals s \<and>
       (\<exists>es. vs_events s' = vs_events s @ es \<and>
          settle {#} es = Some (held (snd (qj_value q (vs_engine s) JS_GetGlobalObject))))
     else vs_evals s' = vs_evals s @ [wrapped h (vs_installed s) source])"
proof -
  obtain global installed s1 where p: "run_state (exec_prepare q h source inp channel_uri) s = ((global, installed), s1)"
    by (metis prod.exhaust)
  note f = prepare_frame [OF p]
  have run: "(if nul \<in> set (wrapped h (vs_installed s) source) then (Inl ''script contains null byte'', s1)
      else run_state (exec_evaluate q h global (wrapped h (vs_installed s) source)) s1) = (r, s')"
    using assms p f by (auto simp: exec_split split: if_splits)
  show ?thesis
  proof (cases "nul \<in> set (wrapped h (vs_installed s) source)")
    case True
    have "\<exists>es. vs_events s1 = vs_events s @ es \<and> settle {#} es = Some (held global)"
      using owns_prepare [of "{#}" q h source inp channel_uri, unfolded owns_def, THEN spec, of s] p by simp
    then show ?thesis using True run f by auto
  next
    case False
    then show ?thesis using evaluate_frame [of q h global _ s1 r s'] run f by auto
  qed
qed

text \<open>For the examples: an engine whose scripts emit one text.\<close>

definition sample_js :: "nat quickjs" where
  "sample_js = \<lparr>qj_new_runtime = (\<lambda>j. (j, True)), qj_new_context = (\<lambda>j. (j, True)),
     qj_value = (\<lambda>j c. (j + 1, \<lparr>js_bits = of_nat j, js_tag = -1\<rparr>)), qj_text = (\<lambda>j v. (j + 1, Some (j, ''hi''))),
     qj_plain = (\<lambda>j c. j),
     qj_eval = (\<lambda>j t f. Calls Fn_emit [js_undefined] j (\<lambda>j r. Returned j js_undefined))\<rparr>"

definition sample_script_host :: script_host where
  "sample_script_host = \<lparr>sh_emits = True, sh_queries = True, sh_answer = (\<lambda>_. None), sh_hash = (\<lambda>s. of_nat (length s))\<rparr>"

section \<open>Properties\<close>

text \<open>
  C36: over the whole life of a script engine, created, run on any messages and dropped, every runtime,
  context, reference-counted value and text taken from QuickJS is given back exactly once, whatever
  QuickJS answers, whatever the scripts call and however their runs end, as long as no source has a
  zero byte.
\<close>

theorem vm_life_settles:
  assumes "\<forall>(source, inp, channel_uri) \<in> set runs. nul \<notin> set source"
  shows "settle {#} (vs_events (snd (run_state (vm_life q h memory_limit runs) (vm_start j)))) = Some {#}"
proof -
  have runs: "owns {#Res_context, Res_runtime#} (do { vm_runs q h runs; script_vm_drop q }) (\<lambda>_. {#})"
    by (rule owns_bind_unit [OF owns_runs [OF assms] owns_drop])
  have "owns (if is_ok made then {#Res_context, Res_runtime#} else {#})
      (case made of Inl _ \<Rightarrow> vm_return () | Inr _ \<Rightarrow> do { vm_runs q h runs; script_vm_drop q }) (\<lambda>_. {#})"
    for made :: "str + unit"
    using runs owns_return_const [of "{#}"] by (cases made) (auto simp: is_ok_iff)
  then have "owns {#} (vm_life q h memory_limit runs) (\<lambda>_. {#})"
    unfolding vm_life_def by (rule owns_bind [OF owns_new])
  from this [unfolded owns_def, THEN spec, of "vm_start j"] show ?thesis by (auto simp: vm_start_def)
qed

theorem vm_life_settles_witness:
  "settle {#} (vs_events (snd (run_state (vm_life sample_js sample_script_host 0
     [(''emit(1)'', ''m'', ''urn:c''), (''emit(1)'', ''n'', ''urn:c'')]) (vm_start 0)))) = Some {#}"
  by (rule vm_life_settles) (simp add: nul_def)

text \<open>
  C37: a run marks its source as installed before it is known to be any good.  It evaluates the text
  that installs the body, or only the call of the body if the source is the one marked, and the next
  run of the same source evaluates only the call, even if this one failed.  A source with a zero byte
  that is not the marked one is refused without an evaluation, and the reference to the global
  object is then never given back.
\<close>

theorem exec_marks_source_first:
  assumes "run_state (script_vm_exec q h source inp channel_uri) s = (r, s')"
  shows "vs_installed s' = Some (sh_hash h source) \<and>
    (if vs_installed s \<noteq> Some (sh_hash h source) \<and> nul \<in> set source
     then r = Inl ''script contains null byte'' \<and> vs_evals s' = vs_evals s \<and>
       (\<exists>es. vs_events s' = vs_events s @ es \<and>
          settle {#} es = Some (held (snd (qj_value q (vs_engine s) JS_GetGlobalObject))))
     else vs_evals s' = vs_evals s @ [if vs_installed s = Some (sh_hash h source) then call_text else install_text source]) \<and>
    (\<forall>inp' uri' r' s''. run_state (script_vm_exec q h source inp' uri') s' = (r', s'') \<longrightarrow>
       vs_evals s'' = vs_evals s' @ [call_text])"
proof -
  note c = exec_cases [OF assms]
  have "vs_evals s'' = vs_evals s' @ [call_text]"
    if "run_state (script_vm_exec q h source inp' uri') s' = (r', s'')" for inp' uri' r' s''
  proof -
    have w: "wrapped h (vs_installed s') source = call_text" using c by (simp add: wrapped_def)
    then have "nul \<notin> set (wrapped h (vs_installed s') source)" using nul_wrapped [of h "vs_installed s'" source] c by blast
    then show ?thesis using exec_cases [OF that] w by simp
  qed
  then show ?thesis using c unfolding nul_wrapped by (auto simp: wrapped_def split: if_splits)
qed

theorem exec_marks_source_first_witness:
  "\<exists>r s. run_state (script_vm_exec sample_js sample_script_host [nul] ''m'' ''urn:c'') (vm_start 0) = (r, s) \<and>
     r = Inl ''script contains null byte'' \<and> vs_installed s = Some 1 \<and> vs_evals s = []"
proof -
  obtain r s where run: "run_state (script_vm_exec sample_js sample_script_host [nul] ''m'' ''urn:c'') (vm_start 0) = (r, s)"
    by force
  show ?thesis using exec_marks_source_first [OF run] run by (simp add: sample_script_host_def vm_start_def)
qed

end
