(* ===== verification/Ws.thy ===== *)
theory Ws
  imports Channel Utf8_Cut "HOL-Library.Sublist"
begin

text \<open>
  The WebSocket transport, \<^verbatim>\<open>src/ws.rs\<close>: the thread that accepts one client after the other and
  serves it, and the thread that forwards what the runtime sends to the current client.

  The state holds the channels between the threads: lines for the runtime, documents from it, the
  registrations of clients with the forwarder and the queue of each client.  Clients are numbered in the
  order of their connection.  What tungstenite and the sockets answer to reads, writes and flushes
  are inputs of the operations; a document counts as written once it has been handed to
  tungstenite, which buffers what the socket does not take.
\<close>

section \<open>Serving a client\<close>

datatype ws_read = Read_text str | Read_close | Read_would_block | Read_error | Read_other

datatype ws_write = Write_ok | Write_would_block | Write_error

text \<open>
  The loop of reads: the lines for the runtime, and whether the client is still there.  After a close
  the rest of what is read is thrown away.
\<close>

fun read_frames :: "ws_read list \<Rightarrow> str list \<times> bool" where
  "read_frames [] = ([], True)"
| "read_frames (Read_text t # rs) = (let (ls, alive) = read_frames rs in (turtle_lines (lines_of t) @ ls, alive))"
| "read_frames (Read_close # rs) = ([], False)"
| "read_frames (Read_would_block # rs) = ([], True)"
| "read_frames (Read_error # rs) = ([], False)"
| "read_frames (Read_other # rs) = read_frames rs"

text \<open>
  The loop of writes over the queue of the client: what has been handed over, what stays queued, and
  whether the client is still there.  The document of a failing write is lost.
\<close>

fun write_queue :: "ws_write list \<Rightarrow> str list \<Rightarrow> str list \<times> str list \<times> bool" where
  "write_queue ws [] = ([], [], True)"
| "write_queue [] (m # q) = ([m], q, True)"
| "write_queue (Write_ok # ws) (m # q) = (let (sent, rest, alive) = write_queue ws q in (m # sent, rest, alive))"
| "write_queue (Write_would_block # ws) (m # q) = ([m], q, True)"
| "write_queue (Write_error # ws) (m # q) = ([], q, False)"

section \<open>The server\<close>

text \<open>Where the forwarder is: at the top of its loop, waiting for a document, or holding one.\<close>

datatype forwarder = Fw_top | Fw_wait | Fw_hold str | Fw_send str

text \<open>
  \<open>ws_queues n\<close> is the queue of client \<open>n\<close>, \<open>None\<close> once its end has been dropped; \<open>ws_greeted n\<close> is the
  greeting and \<open>ws_wires n\<close> the documents written to it.
\<close>

record ws_server =
  ws_in :: "str list"
  ws_out :: "str list"
  ws_regs :: "nat list"
  ws_current :: "nat option"
  ws_forwarder :: forwarder
  ws_next :: nat
  ws_active :: "nat option"
  ws_queues :: "nat \<Rightarrow> str list option"
  ws_wires :: "nat \<Rightarrow> str list"
  ws_greeted :: "nat \<Rightarrow> str option"

definition ws_start :: ws_server where
  "ws_start = \<lparr>ws_in = [], ws_out = [], ws_regs = [], ws_current = None, ws_forwarder = Fw_top, ws_next = 0,
     ws_active = None, ws_queues = (\<lambda>_. None), ws_wires = (\<lambda>_. []),
     ws_greeted = (\<lambda>_. None)\<rparr>"

text \<open>\<open>WsIn::recv\<close> and \<open>WsOut::send\<close>.\<close>

definition ws_recv :: "ws_server \<Rightarrow> ws_server \<times> str option" where
  "ws_recv s = (let (q, x) = list_get (ws_in s) in (s\<lparr>ws_in := q\<rparr>, x))"

definition ws_send :: "str \<Rightarrow> ws_server \<Rightarrow> ws_server" where
  "ws_send t s = s\<lparr>ws_out := fst (mpsc_send (ws_out s) t)\<rparr>"

text \<open>
  A client connects: if the handshake succeeds it gets the greeting, if there is one and its write
  succeeds, and is registered with the forwarder.
\<close>

definition ws_connect :: "str option \<Rightarrow> bool \<Rightarrow> bool \<Rightarrow> ws_server \<Rightarrow> ws_server" where
  "ws_connect greeting handshake greeted s =
     (if ws_active s \<noteq> None \<or> \<not> handshake then s
      else let n = ws_next s in
        s\<lparr>ws_greeted := (ws_greeted s)(n := if greeted then greeting else None),
          ws_queues := (ws_queues s)(n \<mapsto> []),
          ws_regs := fst (mpsc_send (ws_regs s) n),
          ws_active := Some n, ws_next := n + 1\<rparr>)"

text \<open>The end of a client, also when its handler panics: its queue is dropped with what is in it.\<close>

definition ws_leave :: "ws_server \<Rightarrow> ws_server" where
  "ws_leave s = (case ws_active s of None \<Rightarrow> s | Some n \<Rightarrow> s\<lparr>ws_active := None, ws_queues := (ws_queues s)(n := None)\<rparr>)"

text \<open>One round of the loop of a client: reads, writes, a flush.\<close>

definition ws_serve :: "ws_read list \<Rightarrow> ws_write list \<Rightarrow> ws_write \<Rightarrow> ws_server \<Rightarrow> ws_server" where
  "ws_serve reads writes flush s =
     (case ws_active s of
        None \<Rightarrow> s
      | Some n \<Rightarrow>
          let (ls, alive) = read_frames reads;
              s = s\<lparr>ws_in := ws_in s @ ls\<rparr>
          in if \<not> alive then ws_leave s
             else let (sent, rest, alive) = write_queue writes (unwrap_or (ws_queues s n) []);
                      s = s\<lparr>ws_wires := (ws_wires s)(n := ws_wires s n @ sent), ws_queues := (ws_queues s)(n \<mapsto> rest)\<rparr>
                  in if \<not> alive \<or> flush = Write_error then ws_leave s else s)"

section \<open>The forwarder\<close>

text \<open>\<open>try_recv\<close> on the registrations.\<close>

definition take_registration :: "ws_server \<Rightarrow> ws_server" where
  "take_registration s =
     (case list_get (ws_regs s) of
        (q, Some n) \<Rightarrow> s\<lparr>ws_regs := q, ws_current := Some n\<rparr>
      | (q, None) \<Rightarrow> s)"

definition forward :: "str \<Rightarrow> ws_server \<Rightarrow> ws_server" where
  "forward m s =
     (case ws_current s of
        None \<Rightarrow> s
      | Some n \<Rightarrow>
          (case ws_queues s n of
             None \<Rightarrow> s\<lparr>ws_current := None\<rparr>
           | Some q \<Rightarrow> s\<lparr>ws_queues := (ws_queues s)(n \<mapsto> fst (mpsc_send q m))\<rparr>))"

text \<open>
  One step of the forwarder's thread; the other threads may do anything between two of its steps.  A
  wait that finds nothing may time out.
\<close>

definition ws_forward :: "ws_server \<Rightarrow> ws_server" where
  "ws_forward s =
     (case ws_forwarder s of
        Fw_top \<Rightarrow> (take_registration s)\<lparr>ws_forwarder := Fw_wait\<rparr>
      | Fw_wait \<Rightarrow>
          (case list_get (ws_out s) of
             (q, Some m) \<Rightarrow> s\<lparr>ws_out := q, ws_forwarder := Fw_hold m\<rparr>
           | (q, None) \<Rightarrow> s\<lparr>ws_forwarder := Fw_top\<rparr>)
      | Fw_hold m \<Rightarrow> (take_registration s)\<lparr>ws_forwarder := Fw_send m\<rparr>
      | Fw_send m \<Rightarrow> (forward m s)\<lparr>ws_forwarder := Fw_top\<rparr>)"

text \<open>What can happen to a server.\<close>

datatype ws_op = App_send str | App_recv | Connect "str option" bool bool | Serve "ws_read list" "ws_write list" ws_write
  | Handler_panic | Forward

fun ws_step :: "ws_op \<Rightarrow> ws_server \<Rightarrow> ws_server" where
  "ws_step (App_send t) s = ws_send t s"
| "ws_step App_recv s = fst (ws_recv s)"
| "ws_step (Connect greeting handshake greeted) s = ws_connect greeting handshake greeted s"
| "ws_step (Serve reads writes flush) s = ws_serve reads writes flush s"
| "ws_step Handler_panic s = ws_leave s"
| "ws_step Forward s = ws_forward s"

definition ws_run :: "ws_op list \<Rightarrow> ws_server" where
  "ws_run ops = fold ws_step ops ws_start"

section \<open>Order of the documents\<close>

text \<open>The documents a client has been given: written, or in its queue.\<close>

definition ws_docs :: "ws_server \<Rightarrow> nat \<Rightarrow> str list" where
  "ws_docs s n = ws_wires s n @ unwrap_or (ws_queues s n) []"

definition ws_holding :: "ws_server \<Rightarrow> str list" where
  "ws_holding s = (case ws_forwarder s of Fw_hold m \<Rightarrow> [m] | Fw_send m \<Rightarrow> [m] | _ \<Rightarrow> [])"

definition ws_delivered :: "ws_server \<Rightarrow> str list" where
  "ws_delivered s = concat (map (ws_docs s) [0..<ws_next s])"

text \<open>
  The registrations not yet taken are those of the last clients, in order; the forwarder's client is
  the one before them, if it has not been found gone; clients not yet taken have no documents; the
  one being served is the last one, and only it has a queue.
\<close>

definition ws_inv :: "ws_server \<Rightarrow> bool" where
  "ws_inv s \<longleftrightarrow> (\<exists>k \<le> ws_next s. ws_regs s = [k..<ws_next s] \<and>
     (ws_current s = None \<or> (\<exists>c. ws_current s = Some c \<and> Suc c = k)) \<and>
     (\<forall>c q. Suc c = k \<longrightarrow> ws_queues s c = Some q \<longrightarrow> ws_current s = Some c) \<and>
     (\<forall>n \<ge> k. ws_docs s n = [])) \<and>
   (\<forall>n. ws_active s = Some n \<longrightarrow> Suc n = ws_next s) \<and>
   (\<forall>n. ws_queues s n \<noteq> None \<longleftrightarrow> ws_active s = Some n)"

lemma ws_invI:
  assumes "k \<le> ws_next s" "ws_regs s = [k..<ws_next s]"
    "ws_current s = None \<or> (\<exists>c. ws_current s = Some c \<and> Suc c = k)"
    "\<And>c q. Suc c = k \<Longrightarrow> ws_queues s c = Some q \<Longrightarrow> ws_current s = Some c"
    "\<And>n. k \<le> n \<Longrightarrow> ws_docs s n = []" "\<And>n. ws_active s = Some n \<Longrightarrow> Suc n = ws_next s"
    "\<And>n. ws_queues s n = None \<longleftrightarrow> ws_active s \<noteq> Some n"
  shows "ws_inv s"
  unfolding ws_inv_def using assms by (intro conjI exI [of _ k]) auto

lemma subseq_concat: "(\<And>n. subseq (f n) (g n)) \<Longrightarrow> subseq (concat (map f ns)) (concat (map g ns))"
  by (induction ns) (auto intro: list_emb_append_mono)

lemma write_queue_subseq: "write_queue ws q = (sent, rest, alive) \<Longrightarrow> subseq (sent @ rest) q"
  by (induction ws q arbitrary: sent rest alive rule: write_queue.induct) (auto split: prod.splits)

lemma ws_start_inv: "ws_inv ws_start" "ws_delivered ws_start = []"
  by (auto simp: ws_inv_def ws_start_def ws_docs_def ws_delivered_def)

text \<open>Fields that the documents do not depend on.\<close>

lemma ws_docs_frame [simp]:
  "ws_docs (s\<lparr>ws_in := x\<rparr>) = ws_docs s" "ws_docs (s\<lparr>ws_out := x\<rparr>) = ws_docs s" "ws_docs (s\<lparr>ws_forwarder := f\<rparr>) = ws_docs s"
  "ws_docs (s\<lparr>ws_regs := r\<rparr>) = ws_docs s" "ws_docs (s\<lparr>ws_current := c\<rparr>) = ws_docs s" "ws_docs (s\<lparr>ws_active := a\<rparr>) = ws_docs s"
  by (simp_all add: ws_docs_def fun_eq_iff)

lemma ws_delivered_frame [simp]:
  "ws_delivered (s\<lparr>ws_in := x\<rparr>) = ws_delivered s" "ws_delivered (s\<lparr>ws_out := x\<rparr>) = ws_delivered s"
  "ws_delivered (s\<lparr>ws_forwarder := f\<rparr>) = ws_delivered s"
  by (simp_all add: ws_delivered_def)

lemma ws_inv_frame [simp]:
  "ws_inv (s\<lparr>ws_in := x\<rparr>) = ws_inv s" "ws_inv (s\<lparr>ws_out := x\<rparr>) = ws_inv s" "ws_inv (s\<lparr>ws_forwarder := f\<rparr>) = ws_inv s"
  by (simp_all add: ws_inv_def)

lemma ws_connect_inv:
  assumes "ws_inv s"
  shows "ws_inv (ws_connect g hs gr s) \<and> ws_delivered (ws_connect g hs gr s) = ws_delivered s \<and>
    ws_out (ws_connect g hs gr s) = ws_out s \<and> ws_holding (ws_connect g hs gr s) = ws_holding s"
proof (cases "ws_active s \<noteq> None \<or> \<not> hs")
  case True
  then show ?thesis using assms by (auto simp: ws_connect_def)
next
  case False
  obtain k where k: "k \<le> ws_next s" "ws_regs s = [k..<ws_next s]"
      "ws_current s = None \<or> (\<exists>c. ws_current s = Some c \<and> Suc c = k)"
      "\<forall>n \<ge> k. ws_docs s n = []"
    using assms by (auto simp: ws_inv_def)
  have none: "ws_queues s n = None" for n using assms False by (auto simp: ws_inv_def)
  let ?s = "ws_connect g hs gr s"
  have q: "ws_queues ?s = (\<lambda>_. None)(ws_next s \<mapsto> [])" "ws_wires ?s = ws_wires s" "ws_next ?s = Suc (ws_next s)"
      "ws_regs ?s = [k..<Suc (ws_next s)]" "ws_current ?s = ws_current s" "ws_active ?s = Some (ws_next s)"
    using False none k(1,2) by (auto simp: ws_connect_def Let_def mpsc_send_def)
  have d: "ws_docs ?s = ws_docs s" using q none by (auto simp: ws_docs_def fun_eq_iff)
  have "ws_docs s (ws_next s) = []" using k by simp
  then have "ws_delivered ?s = ws_delivered s" by (simp add: ws_delivered_def q d)
  moreover have "ws_inv ?s"
    unfolding ws_inv_def by (intro conjI exI [of _ k]) (use k in \<open>auto simp: q d\<close>)
  ultimately show ?thesis using False by (simp add: ws_connect_def Let_def ws_holding_def)
qed

lemma ws_leave_inv:
  assumes "ws_inv s"
  shows "ws_inv (ws_leave s) \<and> subseq (ws_delivered (ws_leave s)) (ws_delivered s) \<and>
    ws_out (ws_leave s) = ws_out s \<and> ws_holding (ws_leave s) = ws_holding s"
proof (cases "ws_active s")
  case None
  then show ?thesis using assms by (simp add: ws_leave_def)
next
  case (Some n)
  let ?s = "ws_leave s"
  have s: "?s = s\<lparr>ws_active := None, ws_queues := (ws_queues s)(n := None)\<rparr>" using Some by (simp add: ws_leave_def)
  have d: "subseq (ws_docs ?s i) (ws_docs s i)" for i by (auto simp: s ws_docs_def)
  then have empty: "ws_docs s i = [] \<Longrightarrow> ws_docs ?s i = []" for i by (metis list_emb_Nil2)
  obtain k where k: "k \<le> ws_next s" "ws_regs s = [k..<ws_next s]"
    "ws_current s = None \<or> (\<exists>c. ws_current s = Some c \<and> Suc c = k)" "\<forall>n \<ge> k. ws_docs s n = []"
    "\<forall>n. ws_queues s n \<noteq> None \<longleftrightarrow> ws_active s = Some n"
    using assms unfolding ws_inv_def by blast
  have others: "ws_queues s i = None" if "i \<noteq> n" for i using k(5) Some that by (metis option.inject)
  have "ws_inv ?s"
    by (rule ws_invI [of k]) (use k(1-4) Some empty in \<open>auto simp: s others split: if_splits\<close>)
  moreover have "subseq (ws_delivered ?s) (ws_delivered s)"
    unfolding ws_delivered_def using subseq_concat [OF d] by (simp add: s)
  ultimately show ?thesis by (simp add: s ws_holding_def)
qed

lemma ws_serve_inv:
  assumes "ws_inv s"
  shows "ws_inv (ws_serve reads writes flush s) \<and> subseq (ws_delivered (ws_serve reads writes flush s)) (ws_delivered s) \<and>
    ws_out (ws_serve reads writes flush s) = ws_out s \<and> ws_holding (ws_serve reads writes flush s) = ws_holding s"
proof (cases "ws_active s")
  case None
  then show ?thesis using assms by (simp add: ws_serve_def)
next
  case (Some n)
  obtain k where k: "k \<le> ws_next s" "ws_regs s = [k..<ws_next s]"
    "ws_current s = None \<or> (\<exists>c. ws_current s = Some c \<and> Suc c = k)"
    "\<forall>c q. Suc c = k \<longrightarrow> ws_queues s c = Some q \<longrightarrow> ws_current s = Some c"
    "\<forall>n \<ge> k. ws_docs s n = []" "\<forall>n. ws_active s = Some n \<longrightarrow> Suc n = ws_next s"
    "\<forall>n. ws_queues s n \<noteq> None \<longleftrightarrow> ws_active s = Some n"
    using assms unfolding ws_inv_def by blast
  obtain q where q: "ws_queues s n = Some q" using k(7) Some by auto
  have others: "ws_queues s i = None" if "i \<noteq> n" for i using k(7) Some that by (metis option.inject)
  obtain ls alive where r: "read_frames reads = (ls, alive)" by force
  obtain sent rest ok where w: "write_queue writes q = (sent, rest, ok)" by (metis prod_cases3)
  let ?a = "s\<lparr>ws_in := ws_in s @ ls\<rparr>"
  let ?b = "?a\<lparr>ws_wires := (ws_wires s)(n := ws_wires s n @ sent), ws_queues := (ws_queues s)(n \<mapsto> rest)\<rparr>"
  have a: "ws_inv ?a" "ws_delivered ?a = ws_delivered s" "ws_out ?a = ws_out s" "ws_holding ?a = ws_holding s"
    using assms by (simp_all add: ws_holding_def)
  have d: "subseq (ws_docs ?b i) (ws_docs s i)" for i
    using write_queue_subseq [OF w] q by (auto simp: ws_docs_def intro: list_emb_append_mono)
  then have empty: "ws_docs s i = [] \<Longrightarrow> ws_docs ?b i = []" for i by (metis list_emb_Nil2)
  have b: "ws_inv ?b"
    by (rule ws_invI [of k]) (use k(1-6) q Some empty in \<open>auto simp: others split: if_splits\<close>)
  have bd: "subseq (ws_delivered ?b) (ws_delivered s)"
    unfolding ws_delivered_def using subseq_concat [OF d] by simp
  have "ws_serve reads writes flush s = (if \<not> alive then ws_leave ?a
      else if \<not> ok \<or> flush = Write_error then ws_leave ?b else ?b)"
    using Some q r w by (simp add: ws_serve_def Let_def)
  moreover have "ws_out ?b = ws_out s" "ws_holding ?b = ws_holding s" by (simp_all add: ws_holding_def)
  ultimately show ?thesis
    using ws_leave_inv [OF a(1)] ws_leave_inv [OF b] a b bd subseq_order.trans by (auto split: if_splits)
qed

lemma take_registration_inv:
  assumes "ws_inv s"
  shows "ws_inv (take_registration s) \<and> ws_docs (take_registration s) = ws_docs s \<and>
    ws_next (take_registration s) = ws_next s \<and> ws_out (take_registration s) = ws_out s"
proof (cases "ws_regs s")
  case Nil
  then show ?thesis using assms by (simp add: take_registration_def list_get_def)
next
  case (Cons n q)
  obtain k where k: "k \<le> ws_next s" "ws_regs s = [k..<ws_next s]" "\<forall>n \<ge> k. ws_docs s n = []"
    using assms by (auto simp: ws_inv_def)
  have "[k..<ws_next s] = n # q" using k(2) Cons by simp
  then have n: "n = k" "q = [Suc k..<ws_next s]" "k < ws_next s"
    unfolding upt_eq_Cons_conv by auto
  have s: "take_registration s = s\<lparr>ws_regs := q, ws_current := Some n\<rparr>"
    using Cons by (simp add: take_registration_def list_get_def)
  have "ws_inv (take_registration s)"
    unfolding ws_inv_def
    by (intro conjI exI [of _ "Suc k"]) (use assms k n in \<open>auto simp: s ws_inv_def\<close>)
  then show ?thesis by (simp add: s)
qed

lemma ws_delivered_take: "ws_inv s \<Longrightarrow> ws_delivered (take_registration s) = ws_delivered s"
  using take_registration_inv by (simp add: ws_delivered_def)

lemma concat_upt_last:
  assumes "\<forall>i \<ge> Suc c. f i = []" "c < n" "\<forall>i. i \<noteq> c \<longrightarrow> g i = f i" "g c = f c @ x"
  shows "concat (map g [0..<n]) = concat (map f [0..<n]) @ x"
proof -
  have split: "[0..<n] = [0..<c] @ c # [Suc c..<n]"
    using upt_add_eq_append [of 0 c "n - c"] upt_conv_Cons [of c n] assms(2) by simp
  have "concat (map f [Suc c..<n]) = []" "concat (map g [Suc c..<n]) = []" using assms(1,3) by auto
  moreover have "map g [0..<c] = map f [0..<c]" using assms(3) by auto
  ultimately show ?thesis
    by (simp only: split map_append list.map concat_append concat.simps assms(4) append_assoc append_Nil2 append_Nil)
qed

lemma forward_inv:
  assumes "ws_inv s"
  shows "ws_inv (forward m s) \<and> ws_out (forward m s) = ws_out s \<and>
    (ws_delivered (forward m s) = ws_delivered s \<or> ws_delivered (forward m s) = ws_delivered s @ [m])"
proof (cases "ws_current s")
  case None
  then show ?thesis using assms by (simp add: forward_def)
next
  case (Some c)
  obtain k where k: "k \<le> ws_next s" "ws_regs s = [k..<ws_next s]" "Suc c = k" "\<forall>n \<ge> k. ws_docs s n = []"
    using assms Some by (auto simp: ws_inv_def)
  show ?thesis
  proof (cases "ws_queues s c")
    case None
    then have s: "forward m s = s\<lparr>ws_current := None\<rparr>" using Some by (simp add: forward_def)
    have "ws_inv (forward m s)"
      unfolding ws_inv_def by (intro conjI exI [of _ k]) (use assms k None in \<open>auto simp: s ws_inv_def\<close>)
    then show ?thesis by (simp add: s ws_delivered_def)
  next
    case q: (Some q)
    have s: "forward m s = s\<lparr>ws_queues := (ws_queues s)(c \<mapsto> q @ [m])\<rparr>"
      using Some q by (simp add: forward_def mpsc_send_def)
    have d: "ws_docs (forward m s) i = (if i = c then ws_docs s c @ [m] else ws_docs s i)" for i
      using q by (simp add: s ws_docs_def)
    have "ws_delivered (forward m s) = ws_delivered s @ [m]"
      unfolding ws_delivered_def using concat_upt_last [of c "ws_docs s" "ws_next s" "ws_docs (forward m s)" "[m]"] d k
      by (simp add: s)
    moreover have "ws_inv (forward m s)"
      unfolding ws_inv_def by (intro conjI exI [of _ k]) (use assms k q Some d in \<open>auto simp: ws_inv_def s split: if_splits\<close>)
    ultimately show ?thesis by (simp add: s)
  qed
qed

lemma ws_forward_inv:
  assumes "ws_inv s" "subseq (ws_delivered s @ ws_holding s @ ws_out s) sent"
  shows "ws_inv (ws_forward s) \<and> subseq (ws_delivered (ws_forward s) @ ws_holding (ws_forward s) @ ws_out (ws_forward s)) sent"
proof (cases "ws_forwarder s")
  case Fw_top
  then show ?thesis
    using assms take_registration_inv [OF assms(1)] ws_delivered_take [OF assms(1)]
    by (simp add: ws_forward_def ws_holding_def)
next
  case Fw_wait
  then show ?thesis
    using assms by (cases "ws_out s") (simp_all add: ws_forward_def ws_holding_def list_get_def)
next
  case (Fw_hold m)
  then show ?thesis
    using assms take_registration_inv [OF assms(1)] ws_delivered_take [OF assms(1)]
    by (simp add: ws_forward_def ws_holding_def)
next
  case (Fw_send m)
  have "subseq (ws_delivered s @ ws_out s) (ws_delivered s @ [m] @ ws_out s)"
    by (intro list_emb_append_mono) auto
  then have "subseq (ws_delivered s @ ws_out s) sent"
    using assms(2) Fw_send subseq_order.trans by (fastforce simp: ws_holding_def)
  then show ?thesis
    using assms Fw_send forward_inv [OF assms(1), of m] by (auto simp: ws_forward_def ws_holding_def)
qed

fun app_sent :: "ws_op list \<Rightarrow> str list" where
  "app_sent [] = []"
| "app_sent (App_send t # ops) = t # app_sent ops"
| "app_sent (_ # ops) = app_sent ops"

lemma app_sent_append: "app_sent (ops @ [op]) = app_sent ops @ app_sent [op]"
  by (induction ops rule: app_sent.induct) auto

lemma ws_step_inv:
  assumes "ws_inv s" "subseq (ws_delivered s @ ws_holding s @ ws_out s) sent"
  shows "ws_inv (ws_step op s) \<and>
    subseq (ws_delivered (ws_step op s) @ ws_holding (ws_step op s) @ ws_out (ws_step op s)) (sent @ app_sent [op])"
proof (cases op)
  case (App_send t)
  have "ws_holding (ws_send t s) = ws_holding s" by (simp add: ws_send_def ws_holding_def)
  then show ?thesis
    using App_send assms list_emb_append_mono [OF assms(2), of "[t]" "[t]"] by (simp add: ws_send_def mpsc_send_def)
next
  case App_recv
  then show ?thesis using assms by (simp add: ws_recv_def split_beta Let_def ws_holding_def)
next
  case (Connect g hs gr)
  then show ?thesis using assms ws_connect_inv [OF assms(1), of g hs gr] by simp
next
  case (Serve reads writes flush)
  note i = ws_serve_inv [OF assms(1), of reads writes flush]
  then have le: "subseq (ws_delivered (ws_serve reads writes flush s) @ ws_holding s @ ws_out s) (ws_delivered s @ ws_holding s @ ws_out s)"
    by (intro list_emb_append_mono) auto
  show ?thesis using Serve i subseq_order.trans [OF le assms(2)] by simp
next
  case Handler_panic
  note i = ws_leave_inv [OF assms(1)]
  then have le: "subseq (ws_delivered (ws_leave s) @ ws_holding s @ ws_out s) (ws_delivered s @ ws_holding s @ ws_out s)"
    by (intro list_emb_append_mono) auto
  show ?thesis using Handler_panic i subseq_order.trans [OF le assms(2)] by simp
next
  case Forward
  then show ?thesis using ws_forward_inv [OF assms] by simp
qed

lemma ws_run_inv:
  "ws_inv (ws_run ops) \<and> subseq (ws_delivered (ws_run ops) @ ws_holding (ws_run ops) @ ws_out (ws_run ops)) (app_sent ops)"
proof (induction ops rule: rev_induct)
  case Nil
  show ?case using ws_start_inv by (simp add: ws_run_def) (simp add: ws_start_def ws_holding_def)
next
  case (snoc op ops)
  have "ws_run (ops @ [op]) = ws_step op (ws_run ops)" by (simp add: ws_run_def)
  then show ?case using ws_step_inv [of "ws_run ops" "app_sent ops" op] snoc by (simp add: app_sent_append)
qed

section \<open>Properties\<close>

text \<open>
  C14: whatever the clients, the sockets and the threads do, documents do not change their order and no
  document reaches two clients: what the clients were given, one client after the other in the order of
  their connection, followed by what the forwarder holds and what waits for it, is a subsequence of
  what the runtime sent.  Only the client being served has a queue.
\<close>

theorem ws_documents_keep_order:
  "subseq (concat (map (\<lambda>n. ws_wires (ws_run ops) n @ unwrap_or (ws_queues (ws_run ops) n) []) [0..<ws_next (ws_run ops)]) @
      ws_holding (ws_run ops) @ ws_out (ws_run ops)) (app_sent ops) \<and>
   (\<forall>n. ws_queues (ws_run ops) n \<noteq> None \<longleftrightarrow> ws_active (ws_run ops) = Some n)"
  using ws_run_inv [of ops] unfolding ws_delivered_def ws_docs_def ws_inv_def by blast

text \<open>Only the connection in progress has a queue, and what the forwarder aims at next is that one unless a registration is stale.\<close>

lemma ws_live_queue: "ws_inv s \<Longrightarrow> ws_queues s n \<noteq> None \<longleftrightarrow> ws_active s = Some n"
  unfolding ws_inv_def by blast

lemma ws_target:
  assumes inv: "ws_inv s" and n: "ws_active s = Some n"
  shows "ws_current (take_registration s) = Some n \<longleftrightarrow> length (ws_regs s) \<le> 1"
proof -
  obtain k where k: "k \<le> ws_next s" "ws_regs s = [k..<ws_next s]" "Suc n = ws_next s"
    "\<forall>c q. Suc c = k \<longrightarrow> ws_queues s c = Some q \<longrightarrow> ws_current s = Some c"
    using inv n unfolding ws_inv_def by blast
  obtain q where q: "ws_queues s n = Some q" using ws_live_queue [OF inv] n by blast
  show ?thesis
  proof (cases "ws_regs s")
    case Nil
    then have "k = Suc n" using k(1-3) by simp
    then show ?thesis using k(4) q Nil by (simp add: take_registration_def list_get_def)
  next
    case (Cons c cs)
    then have "c = k" "k < ws_next s" "length (ws_regs s) = ws_next s - k"
      using k(2) by (auto simp: upt_eq_Cons_conv)
    then show ?thesis using Cons k(3) by (auto simp: take_registration_def list_get_def)
  qed
qed

text \<open>
  C38: where the document goes that the forwarder holds, if nothing else happens in its next two steps:
  to the client of the oldest registration it has not taken, or else to its client so far, if that
  one is still being served; otherwise it is lost.  With at most one registration pending that is the
  client being served; with more of them the document is lost although a client is being served.
\<close>

theorem ws_document_destination:
  assumes "ws_forwarder (ws_run ops) = Fw_hold m"
  defines "s \<equiv> ws_run ops"
  defines "s' \<equiv> ws_forward (ws_forward s)"
  shows "(\<forall>n q. ws_active s = Some n \<longrightarrow> ws_queues s n = Some q \<longrightarrow>
       ws_queues s' n = Some (if length (ws_regs s) \<le> 1 then q @ [m] else q)) \<and>
    (\<forall>n. ws_active s \<noteq> Some n \<longrightarrow> ws_queues s' n = None) \<and> ws_forwarder s' = Fw_top"
proof -
  have inv: "ws_inv s" using ws_run_inv [of ops] by (simp add: s_def)
  let ?t = "take_registration s"
  have s': "s' = (forward m (?t\<lparr>ws_forwarder := Fw_send m\<rparr>))\<lparr>ws_forwarder := Fw_top\<rparr>"
    using assms(1) by (simp add: s'_def ws_forward_def s_def)
  have t: "ws_queues ?t = ws_queues s" by (simp add: take_registration_def list_get_def split: list.split)
  have q': "ws_queues s' = (case ws_current ?t of None \<Rightarrow> ws_queues s
      | Some c \<Rightarrow> (case ws_queues s c of None \<Rightarrow> ws_queues s | Some q \<Rightarrow> (ws_queues s)(c \<mapsto> q @ [m])))"
    by (simp add: s' forward_def t mpsc_send_def split: option.split)
  have "ws_forwarder s' = Fw_top" by (simp add: s')
  moreover have "ws_queues s' n = None" if "ws_active s \<noteq> Some n" for n
  proof -
    have "ws_queues s n = None" using ws_live_queue [OF inv] that by blast
    then show ?thesis unfolding q' by (auto split: option.split)
  qed
  moreover have "ws_queues s' n = Some (if length (ws_regs s) \<le> 1 then q @ [m] else q)"
    if "ws_active s = Some n" "ws_queues s n = Some q" for n q
    unfolding q' using ws_target [OF inv that(1)] that(2) by (auto split: option.split)
  ultimately show ?thesis by blast
qed

theorem ws_document_destination_witness:
  "ws_forwarder (ws_run [Forward, Connect None True True, Handler_panic, Connect None True True, App_send ''m'', Forward]) =
     Fw_hold ''m'' \<and>
   ws_queues (ws_forward (ws_forward (ws_run [Forward, Connect None True True, Handler_panic, Connect None True True,
     App_send ''m'', Forward]))) 1 = Some []"
proof -
  let ?ops = "[Forward, Connect None True True, Handler_panic, Connect None True True, App_send ''m'', Forward]"
  have hold: "ws_forwarder (ws_run ?ops) = Fw_hold ''m''" by code_simp
  have "ws_active (ws_run ?ops) = Some 1" "ws_queues (ws_run ?ops) 1 = Some []" "length (ws_regs (ws_run ?ops)) = 2"
    by code_simp+
  then show ?thesis using ws_document_destination [OF hold] hold by simp
qed

end
