(* ===== verification/Web_Session.thy ===== *)
theory Web_Session
  imports Antenna Ws
begin

text \<open>
  The runtime behind the WebSocket server: the loop of \<^verbatim>\<open>src/lib.rs\<close> on the two ends that
  \<^verbatim>\<open>src/ws.rs\<close> gives it.  Between two ticks clients, sockets and the forwarder may do anything; a tick
  takes the lines that have arrived and sends its documents.
\<close>

section \<open>Ticks\<close>

text \<open>
  A tick on \<open>WsIn\<close> and \<open>WsOut\<close>; the lines stay where they are if the library's iteration fails, as they are read
  after it.  The last component are the lines read.
\<close>

definition ws_tick :: "('s, 'c) env \<Rightarrow> host \<Rightarrow> ws_server \<Rightarrow> ('s, 'c) antenna \<Rightarrow>
    (ws_server \<times> ('s, 'c) antenna \<times> (str + unit) \<times> str list) option" where
  "ws_tick env h s a =
     Option.bind (drain ws_recv s) (\<lambda>(empty, lines).
       map_option (\<lambda>(a', r).
           (fold ws_send (drop (length (an_out a)) (an_out a')) (if is_ok r then empty else s), a', r,
            if is_ok r then lines else []))
         (tick env h lines a))"

text \<open>\<open>clients n\<close> is what happens outside before the \<open>n\<close>-th tick.\<close>

partial_function (option) run_web :: "('s, 'c) env \<Rightarrow> host \<Rightarrow> (nat \<Rightarrow> ws_op list) \<Rightarrow> nat \<Rightarrow> ws_server \<Rightarrow>
    ('s, 'c) antenna \<Rightarrow> (ws_server \<times> ('s, 'c) antenna \<times> str) option" where
  "run_web env h clients n s a =
     (case ws_tick env h (fold ws_step (clients n) s) (fst (run_timeout env a)) of
        None \<Rightarrow> None
      | Some (s', a', r, _) \<Rightarrow>
          (case r of Inl e \<Rightarrow> Some (s', a', e) | Inr _ \<Rightarrow> run_web env h clients (Suc n) s' a'))"

declare run_web.simps [code]

text \<open>What happens outside: everything but the calls of the runtime itself.\<close>

definition outside :: "ws_op \<Rightarrow> bool" where
  "outside op \<longleftrightarrow> app_sent [op] = [] \<and> op \<noteq> App_recv"

text \<open>The lines that the client being served sends.\<close>

fun client_lines :: "ws_op list \<Rightarrow> ws_server \<Rightarrow> str list" where
  "client_lines [] s = []"
| "client_lines (op # ops) s =
     (case op of
        Serve reads writes flush \<Rightarrow> if ws_active s \<noteq> None then fst (read_frames reads) else []
      | _ \<Rightarrow> []) @ client_lines ops (ws_step op s)"

text \<open>Some rounds of the loop; the last components are the lines the ticks have read and the lines that have come.\<close>

fun web_rounds :: "('s, 'c) env \<Rightarrow> host \<Rightarrow> ws_op list list \<Rightarrow> ws_server \<Rightarrow> ('s, 'c) antenna \<Rightarrow>
    (ws_server \<times> ('s, 'c) antenna \<times> str list \<times> str list) option" where
  "web_rounds env h [] s a = Some (s, a, [], [])"
| "web_rounds env h (ops # opss) s a =
     (let t = fold ws_step ops s; came = client_lines ops s
      in Option.bind (ws_tick env h t (fst (run_timeout env a))) (\<lambda>(s', a', r, lines).
         if is_ok r
         then map_option (\<lambda>(s'', a'', lines', came'). (s'', a'', lines @ lines', came @ came')) (web_rounds env h opss s' a')
         else Some (s', a', lines, came)))"

section \<open>Lemmas\<close>

lemma drain_ws: "drain ws_recv s = Some (s\<lparr>ws_in := []\<rparr>, ws_in s)"
proof (induction "ws_in s" arbitrary: s)
  case Nil
  have "s\<lparr>ws_in := []\<rparr> = s" using Nil by (cases s) simp
  then show ?case using Nil by (subst drain.simps) (simp add: ws_recv_def list_get_def)
next
  case (Cons l ls)
  then have "ws_recv s = (s\<lparr>ws_in := ls\<rparr>, Some l)"
    using Cons.hyps(2) [symmetric] by (simp add: ws_recv_def list_get_def)
  moreover have "drain ws_recv (s\<lparr>ws_in := ls\<rparr>) = Some (s\<lparr>ws_in := []\<rparr>, ls)"
    using Cons.hyps(1) [of "s\<lparr>ws_in := ls\<rparr>"] by simp
  ultimately show ?case using Cons.hyps(2) by (subst drain.simps) simp
qed

text \<open>What clients were given, what is on its way to them, and what was sent.\<close>

definition ordered :: "ws_server \<Rightarrow> str list \<Rightarrow> bool" where
  "ordered s sent \<longleftrightarrow> ws_inv s \<and> subseq (ws_delivered s @ ws_holding s @ ws_out s) sent"

lemma ordered_step: "ordered s sent \<Longrightarrow> ordered (ws_step op s) (sent @ app_sent [op])"
  using ws_step_inv [of s sent op] by (simp add: ordered_def)

lemma ordered_outside: "ordered s sent \<Longrightarrow> \<forall>op \<in> set ops. outside op \<Longrightarrow> ordered (fold ws_step ops s) sent"
proof (induction ops arbitrary: s)
  case (Cons op ops)
  then show ?case using ordered_step [of s sent op] by (simp add: outside_def)
qed simp

lemma ordered_send: "ordered s sent \<Longrightarrow> ordered (fold ws_send ts s) (sent @ ts)"
proof (induction ts arbitrary: s sent)
  case (Cons t ts)
  then show ?case using ordered_step [of s sent "App_send t"] Cons.IH [of "ws_send t s" "sent @ [t]"] by simp
qed simp

lemma ordered_in [simp]: "ordered (s\<lparr>ws_in := ls\<rparr>) sent = ordered s sent"
  using ws_step_inv by (simp add: ordered_def ws_holding_def)

lemma ws_in_send [simp]: "ws_in (fold ws_send ts s) = ws_in s"
  by (induction ts arbitrary: s) (simp_all add: ws_send_def)

lemma ws_in_leave [simp]: "ws_in (ws_leave s) = ws_in s"
  by (simp add: ws_leave_def split: option.split)

lemma ws_in_serve:
  "ws_in (ws_serve reads writes flush s) = ws_in s @ (if ws_active s \<noteq> None then fst (read_frames reads) else [])"
  by (cases "read_frames reads") (auto simp: ws_serve_def Let_def split: option.split prod.split)

lemma ws_in_forward [simp]: "ws_in (ws_forward s) = ws_in s"
  by (auto simp: ws_forward_def take_registration_def forward_def split: forwarder.split prod.split option.split)

lemma ws_in_step: "outside op \<Longrightarrow> ws_in (ws_step op s) = ws_in s @ client_lines [op] s"
  by (cases op) (simp_all add: outside_def ws_in_serve ws_connect_def Let_def)

lemma ws_in_outside: "\<forall>op \<in> set ops. outside op \<Longrightarrow> ws_in (fold ws_step ops s) = ws_in s @ client_lines ops s"
proof (induction ops arbitrary: s)
  case (Cons op ops)
  then show ?case using ws_in_step [of op s] by simp
qed simp

lemma web_tick:
  assumes "ordered s sent" "ws_tick env h s a = Some (s', a', r, lines)"
  shows "\<exists>outs. an_out a' = an_out a @ outs \<and> ordered s' (sent @ outs) \<and> lines @ ws_in s' = ws_in s"
proof -
  have t: "tick env h (ws_in s) a = Some (a', r)" "lines = (if is_ok r then ws_in s else [])"
    "s' = fold ws_send (drop (length (an_out a)) (an_out a')) (if is_ok r then s\<lparr>ws_in := []\<rparr> else s)"
    using assms(2) by (auto simp: ws_tick_def drain_ws)
  obtain outs where o: "an_out a' = an_out a @ outs" using tick_out [OF t(1)] by blast
  have "ordered (if is_ok r then s\<lparr>ws_in := []\<rparr> else s) sent" using assms(1) by simp
  then show ?thesis using o t(2,3) ordered_send [of _ sent outs] by auto
qed

lemma web_rounds_ordered:
  assumes "ordered s sent" "\<forall>ops \<in> set opss. \<forall>op \<in> set ops. outside op"
    "web_rounds env h opss s a = Some (s', a', lines, came)"
  shows "\<exists>outs. an_out a' = an_out a @ outs \<and> ordered s' (sent @ outs) \<and> lines @ ws_in s' = ws_in s @ came"
  using assms
proof (induction opss arbitrary: s a sent lines came)
  case (Cons ops opss)
  define t where "t = fold ws_step ops s"
  have o: "ordered t sent" "ws_in t = ws_in s @ client_lines ops s"
    using Cons.prems(1,2) ordered_outside ws_in_outside by (auto simp: t_def)
  obtain s1 a1 r l1 where w: "ws_tick env h t (fst (run_timeout env a)) = Some (s1, a1, r, l1)"
    using Cons.prems(3) by (auto simp: Let_def t_def bind_eq_Some_conv)
  have same: "an_out (fst (run_timeout env a)) = an_out a" by (simp add: run_timeout_def split_beta Let_def)
  obtain outs where p: "an_out a1 = an_out a @ outs" "ordered s1 (sent @ outs)" "l1 @ ws_in s1 = ws_in t"
    using web_tick [OF o(1) w] same by auto
  show ?case
  proof (cases "is_ok r")
    case True
    then obtain l2 c2 where n: "web_rounds env h opss s1 a1 = Some (s', a', l2, c2)" "lines = l1 @ l2"
        "came = client_lines ops s @ c2"
      using Cons.prems(3) w by (auto simp: t_def [symmetric])
    obtain more where "an_out a' = an_out a1 @ more" "ordered s' ((sent @ outs) @ more)" "l2 @ ws_in s' = ws_in s1 @ c2"
      using Cons.IH [OF p(2) _ n(1)] Cons.prems(2) by auto
    then show ?thesis using p o(2) n by (intro exI [of _ "outs @ more"]) simp
  next
    case False
    then show ?thesis using Cons.prems(3) w p o(2) by (auto simp: t_def [symmetric])
  qed
qed simp

section \<open>Property\<close>

text \<open>
  C15: over any number of rounds, whatever clients, sockets and the forwarder do between them, the lines
  the ticks have read followed by those still waiting are the lines of the clients' messages, in the order in
  which they came; and what the clients have been given, followed by what is on its way to them,
  is a subsequence of what the runtime has emitted.
\<close>

theorem web_session_in_order:
  assumes "\<forall>ops \<in> set opss. \<forall>op \<in> set ops. outside op"
    and "web_rounds env h opss ws_start a = Some (s, a', lines, came)"
  shows "lines @ ws_in s = came \<and> (\<exists>outs. an_out a' = an_out a @ outs \<and>
    subseq (concat (map (\<lambda>n. ws_wires s n @ unwrap_or (ws_queues s n) []) [0..<ws_next s]) @ ws_holding s @ ws_out s) outs)"
proof -
  have "ordered ws_start []" using ws_start_inv by (simp add: ordered_def ws_holding_def) (simp add: ws_start_def)
  from web_rounds_ordered [OF this assms]
  obtain outs where "an_out a' = an_out a @ outs" "ordered s outs" "lines @ ws_in s = came"
    by (auto simp: ws_start_def)
  then show ?thesis unfolding ordered_def ws_delivered_def ws_docs_def by auto
qed

text \<open>A client connects and sends a comment; the first tick reads it.\<close>

theorem web_session_in_order_witness:
  "\<exists>s a' outs. web_rounds (sample_env (\<lambda>_. Solutions [])) sample_host
      [[Connect None True True, Serve [Read_text ''# hi'', Read_would_block] [] Write_ok]] ws_start (sample_antenna [] sample_client) =
      Some (s, a', [''# hi''], [''# hi'']) \<and> ws_in s = [] \<and> an_out a' = outs"
proof -
  let ?ops = "[Connect None True True, Serve [Read_text ''# hi'', Read_would_block] [] Write_ok]"
  let ?env = "sample_env (\<lambda>_. Solutions [])"
  have c: "client_lines ?ops ws_start = [''# hi'']" "ws_in (fold ws_step ?ops ws_start) = [''# hi'']"
    by code_simp+
  have o: "\<forall>ops \<in> set [?ops]. \<forall>op \<in> set ops. outside op" by (simp add: outside_def)
  have "\<exists>a'. tick ?env sample_host [''# hi''] (fst (run_timeout ?env (sample_antenna [] sample_client))) = Some (a', Inr ())"
  proof -
    obtain b cl x a' where i: "iterate sample_lib False 0 (an_client (before_iterate ?env b)) = Some (cl, x)"
        "tick ?env sample_host [''# hi''] (fst (run_timeout ?env (sample_antenna [] sample_client))) = Some (a', x)"
      using tick_total [OF sample_finite, of sample_host "fst (run_timeout ?env (sample_antenna [] sample_client))" "[''# hi'']"]
      by (auto simp: sample_host_def sample_env_def)
    then have "x = Inr ()" by (auto simp: iterate_def c_call_def sample_lib_def Let_def split: if_splits)
    then show ?thesis using i(2) by blast
  qed
  then obtain a' where t: "tick ?env sample_host [''# hi''] (fst (run_timeout ?env (sample_antenna [] sample_client))) = Some (a', Inr ())"
    by blast
  then have "\<exists>s. web_rounds ?env sample_host [?ops] ws_start (sample_antenna [] sample_client) = Some (s, a', [''# hi''], [''# hi''])"
    using c by (simp add: ws_tick_def drain_ws)
  then show ?thesis using web_session_in_order [OF o] by fastforce
qed

end
