(* ===== verification/Text_Safety.thy ===== *)
theory Text_Safety
  imports Carrier_Event Utf8_Cut
begin

text \<open>
  Every text of the program is a Rust string.  A \<open>str\<close> of the model is any list of bytes; Rust's \<open>String\<close>
  and \<open>&str\<close> are well-formed UTF-8, and cutting one inside a character panics.  Here it is shown that
  the operations that cut and build texts by byte positions (\<^verbatim>\<open>src/dispatch.rs\<close>,
  \<^verbatim>\<open>src/carrier.rs\<close>) give strings again.
\<close>

lemma ascii_not_cont: "bv c < 128 \<Longrightarrow> \<not> cont_byte c"
  by (simp add: cont_byte_def)

lemma cut_at_ascii:
  assumes "utf8_valid (a @ c # b)" "bv c < 128"
  shows "utf8_valid a \<and> utf8_valid b"
  using utf8_valid_cut [of a "c # b"] assms by (simp add: ascii_not_cont)

lemma cut_after_ascii: "utf8_valid (a @ p @ b) \<Longrightarrow> p \<noteq> [] \<Longrightarrow> bv (last p) < 128 \<Longrightarrow> utf8_valid b"
  using cut_at_ascii [of "a @ butlast p" "last p" b] append_butlast_last_id [of p] by (metis append.assoc append_Cons append_Nil)

lemma bv_special [simp]: "bv quote < 128" "bv backslash < 128" "bv newline < 128" "bv creturn < 128"
  by (simp_all add: bv_def char_names)

lemma takeWhile_valid:
  assumes "utf8_valid s" "\<forall>c. \<not> P c \<longrightarrow> bv c < 128"
  shows "utf8_valid (takeWhile P s)"
proof (cases "dropWhile P s")
  case Nil
  then have "takeWhile P s = s" by (metis append_Nil2 takeWhile_dropWhile_id)
  then show ?thesis using assms(1) by metis
next
  case (Cons c r)
  then have "\<not> P c" by (metis dropWhile_eq_Cons_conv)
  then show ?thesis using cut_at_ascii [of "takeWhile P s" c r] assms Cons by (metis takeWhile_dropWhile_id)
qed

section \<open>Escaping\<close>



lemma esc_char_ascii: "c \<in> {quote, backslash, newline, creturn} \<Longrightarrow> ascii (esc_char c)"
  by (auto simp: esc_char_def) (simp_all add: bv_def)

context literal_escape
begin

lemma esc_valid: "utf8_valid s \<Longrightarrow> utf8_valid (esc s)"
proof (induction "length s" arbitrary: s rule: less_induct)
  case less
  let ?P = "\<lambda>c. c \<notin> {quote, backslash, newline, creturn}"
  show ?case
  proof (cases "dropWhile ?P s")
    case Nil
    then have "\<forall>c \<in> set s. ?P c" by (simp add: dropWhile_eq_Nil_conv)
    then show ?thesis using esc_id less.prems by metis
  next
    case (Cons c r)
    then have c: "c \<in> {quote, backslash, newline, creturn}" by (metis dropWhile_eq_Cons_conv)
    obtain w where s: "s = w @ c # r" and w: "\<forall>x \<in> set w. ?P x"
      using Cons takeWhile_dropWhile_id [of ?P s] set_takeWhileD [of _ ?P s] by metis
    have "bv c < 128" using c by auto
    then have v: "utf8_valid w" "utf8_valid r" using cut_at_ascii [of w c r] less.prems s by metis+
    then have "utf8_valid (esc r)" using less.hyps [of r] s by simp
    moreover have "esc s = w @ esc_char c @ esc r" by (simp add: s esc_append esc_Cons esc_id [OF w])
    ultimately show ?thesis using v(1) utf8_valid_ascii [OF esc_char_ascii [OF c]] by (simp add: utf8_valid_append)
  qed
qed

end

section \<open>Cutting\<close>

lemma value_ends_ascii: "\<forall>c. \<not> c \<notin> value_ends \<longrightarrow> bv c < 128"
  by (auto simp: value_ends_def bv_def)

lemma first_token_valid: "utf8_valid s \<Longrightarrow> utf8_valid (first_token value_ends s)"
  using takeWhile_valid [OF _ value_ends_ascii] by (simp add: first_token_def)

lemma after_found_valid:
  assumes "utf8_valid s" "find_str p s = Some n" "p \<noteq> []" "bv (last p) < 128"
  shows "utf8_valid (drop (n + length p) s)"
  using cut_after_ascii [of "take n s" p "drop (n + length p) s"] find_str_Some [OF assms(2)] assms by metis

lemma directive_end_dot: "directive_end b i s = Some e \<Longrightarrow> i < e \<and> (\<exists>r. drop (e - i - 1) s = CHR ''.'' # r)"
proof (induction b i s rule: directive_end.induct)
  case (2 b i c s)
  then show ?case
    by (auto split: if_splits simp: Suc_diff_Suc drop_Cons' dest: Suc_lessD)
qed simp

lemma after_directive_valid:
  assumes "utf8_valid s" "directive_end False 0 s = Some e"
  shows "utf8_valid (drop e s)"
proof -
  obtain r where r: "0 < e" "drop (e - 1) s = CHR ''.'' # r" using directive_end_dot [OF assms(2)] by auto
  then have "drop e s = r" by (metis One_nat_def Suc_pred drop_Suc list.sel(3) tl_drop)
  moreover have "s = take (e - 1) s @ CHR ''.'' # r" using r(2) by (metis append_take_drop_id)
  ultimately show ?thesis using cut_at_ascii [of "take (e - 1) s" "CHR ''.''" r] assms(1) by (simp add: bv_def)
qed

lemma strip_directives_valid: "utf8_valid s \<Longrightarrow> utf8_valid (strip_directives_loop s)"
proof (induction s rule: strip_directives_loop.induct)
  case (1 s)
  then show ?case
    by (subst strip_directives_loop.simps) (auto split: option.split simp: trim_start_valid after_directive_valid)
qed

lemma literal_end_quote: "literal_end b i s = e \<Longrightarrow> e = 0 \<or> i \<le> e \<and> (\<exists>r. drop (e - i) s = quote # r)"
proof (induction b i s arbitrary: e rule: literal_end.induct)
  case (2 b i c s)
  then show ?case by (fastforce split: if_splits simp: drop_Cons' Suc_diff_le)
qed simp

lemma literal_valid: "utf8_valid s \<Longrightarrow> utf8_valid (take (literal_end False 0 s) s)"
  using literal_end_quote [of False 0 s] cut_at_ascii [of "take (literal_end False 0 s) s" quote]
  by (metis append_take_drop_id bv_special(1) diff_zero take0 utf8_valid.simps(1))

lemma strip_prefix_valid: "utf8_valid s \<Longrightarrow> strip_prefix p s = Some r \<Longrightarrow> p \<noteq> [] \<Longrightarrow> bv (last p) < 128 \<Longrightarrow> utf8_valid r"
  using cut_after_ascii [of "[]" p r] by (simp add: strip_prefix_Some_iff)

section \<open>The operations on lines\<close>

lemma extract_property_valid:
  assumes "utf8_valid line" "extract_property line key = Some v"
  shows "utf8_valid v"
proof -
  obtain pos where pos: "find_str (key @ '' '') line = Some pos"
    using assms(2) by (auto simp: extract_property_def Let_def split: option.splits)
  let ?after = "trim (drop (pos + length (key @ '' '')) line)"
  have after: "utf8_valid ?after"
    using after_found_valid [OF assms(1) pos] by (simp add: trim_valid bv_def)
  show ?thesis
  proof (cases "strip_prefix [quote] ?after")
    case (Some inner)
    have "utf8_valid inner" using strip_prefix_valid [OF after Some] by simp
    then show ?thesis using assms(2) pos Some literal_valid by (auto simp: extract_property_def Let_def split: if_splits)
  next
    case None
    then show ?thesis
      using assms(2) pos after by (auto simp: extract_property_def Let_def trim_valid first_token_valid split: if_splits)
  qed
qed

lemma bv_gt: "bv (CHR ''>'') < 128"
  by (simp add: bv_def)

lemma ascii_namespaces: "type_ns p = Some ns \<Longrightarrow> ascii ns"
  by (auto simp: type_ns_def sp_ns_def spin_ns_def carrier_ns_def antenna_ns_def design_ns_def rdf_ns_def bv_def
      split: if_splits)

lemma split_once_valid: "utf8_valid s \<Longrightarrow> split_once '':'' s = Some (a, b) \<Longrightarrow> utf8_valid b"
  using after_found_valid [of s "'':''"] by (auto simp: split_once_def bv_def split: option.splits)

lemma extract_rdf_type_valid:
  assumes "utf8_valid line0" "extract_rdf_type line0 = Some t"
  shows "utf8_valid t"
proof -
  let ?line = "trim line0"
  obtain pos where pos: "find_str '' a '' ?line = Some pos"
    using assms(2) by (auto simp: extract_rdf_type_def Let_def split: option.splits)
  let ?after = "trim_start (drop (pos + 3) ?line)"
  have after: "utf8_valid ?after"
    using after_found_valid [OF trim_valid [OF assms(1)] pos] by (simp add: trim_start_valid bv_def numeral_3_eq_3)
  show ?thesis
  proof (cases "starts_with ''<'' ?after")
    case True
    then obtain r where r: "?after = CHR ''<'' # r" by (auto simp: starts_with_iff)
    then obtain e where e: "find_str ''>'' ?after = Some e" "t = take (e - 1) r"
      using assms(2) pos by (auto simp: extract_rdf_type_def Let_def split: option.splits if_splits)
    have "?after = take e ?after @ CHR ''>'' # drop (e + 1) ?after" using find_str_Some [OF e(1)] by simp
    then have "utf8_valid (take e ?after)" using cut_at_ascii [of "take e ?after" "CHR ''>''"] after by (metis bv_gt)
    moreover have "e \<noteq> 0" using e(1) r by auto
    ultimately show ?thesis using r e(2) by (cases e) (auto simp: bv_def)
  next
    case False
    let ?ty = "trim (first_token value_ends ?after)"
    obtain p loc ns where s: "split_once '':'' ?ty = Some (p, loc)" "type_ns p = Some ns" "t = ns @ loc"
      using assms(2) pos False by (auto simp: extract_rdf_type_def Let_def split: option.splits)
    have "utf8_valid loc" using split_once_valid [OF _ s(1)] after by (simp add: trim_valid first_token_valid)
    then show ?thesis
      using s(3) utf8_valid_ascii [OF ascii_namespaces [OF s(2)]] by (simp add: utf8_valid_append)
  qed
qed

lemma strip_leading_valid: "utf8_valid line \<Longrightarrow> utf8_valid (strip_leading_directives line)"
  by (simp add: strip_leading_directives_def strip_directives_valid trim_start_valid)

section \<open>The lines of events\<close>

lemma cstr_from_buf_valid [simp]: "utf8_valid (cstr_from_buf b)"
  by (simp add: cstr_from_buf_def from_utf8_def Let_def)

lemma bytes_to_string_valid [simp]: "utf8_valid (bytes_to_string p n)"
  by (simp add: bytes_to_string_def split: option.split)

lemma cstr_to_string_valid [simp]: "utf8_valid d \<Longrightarrow> utf8_valid (cstr_to_string p d)"
  by (simp add: cstr_to_string_def split: option.split)

text \<open>A field whose name is ASCII and whose value is a string.\<close>

fun field_valid :: "str \<times> field_value \<Rightarrow> bool" where
  "field_valid (n, Lit v) = (ascii n \<and> utf8_valid v)"
| "field_valid (n, Dated v) = (ascii n \<and> utf8_valid v)"
| "field_valid (n, Bare v) = (ascii n \<and> utf8_valid v)"

lemma ascii_then: "ascii a \<Longrightarrow> utf8_valid (a @ s) = utf8_valid s"
  by (simp add: utf8_valid_append utf8_valid_ascii)

lemma render_field_valid: "field_valid f \<Longrightarrow> utf8_valid (render_field f)"
  by (cases f rule: field_valid.cases)
    (simp_all add: render_field_def ascii_then utf8_valid_append carrier_lit.esc_valid bv_def quote_def)

lemma concat_valid: "\<forall>s \<in> set ss. utf8_valid s \<Longrightarrow> utf8_valid (concat ss)"
  by (induction ss) (simp_all add: utf8_valid_append)

lemma number_ascii: "\<forall>c \<in> set s. number_char c \<Longrightarrow> utf8_valid s"
  by (intro utf8_valid_ascii) (auto simp: ascii_def number_char_def is_digit_def bv_def)

lemma event_fields_valid: "\<forall>f \<in> set (event_fields d). field_valid f"
  by (cases d) (auto simp: buf_field_def opt_field_def bv_def number_ascii int_to_dec_number nat_to_dec_number)

lemma carrier_name_field: "field_valid f \<Longrightarrow> field_valid (carrier_name f)"
  by (cases f rule: field_valid.cases) (simp_all add: carrier_name_def bv_def)

lemma event_class_ascii: "ascii (event_class d)"
  by (cases d) (simp_all add: bv_def)

lemma render_record_valid:
  assumes "ascii (fst r)" "\<forall>f \<in> set (snd r). field_valid f"
  shows "utf8_valid (render_record r)"
proof -
  have "utf8_valid (concat (map render_field (snd r)))"
    using assms(2) by (intro concat_valid) (auto simp: render_field_valid)
  then show ?thesis using assms(1) by (simp add: render_record_def utf8_valid_append ascii_then bv_def)
qed

lemma event_to_turtle_valid:
  assumes "event_to_turtle ev = Some l"
  shows "utf8_valid l"
proof -
  have fields: "\<forall>f \<in> set (snd (event_record ev)). field_valid f"
    using event_fields_valid [of "ev_data ev"] number_ascii [OF format_timestamp_number]
    by (auto simp: event_record_def opt_field_def buf_field_def bv_def intro!: carrier_name_field)
  have "ascii (fst (event_record ev))" by (simp add: event_record_def event_class_ascii bv_def)
  then show ?thesis
    using assms render_record_valid [OF _ fields] by (simp add: event_to_turtle_render)
qed

section \<open>Property\<close>

text \<open>
  C17: cut from a Rust string, the type and every property of a line, the line without its directives
  and its escaped forms are Rust strings again, so no position at which the code cuts lies
  inside a character; and the line of every event is one, whatever bytes its buffers hold.
\<close>

theorem texts_are_strings:
  assumes "utf8_valid line"
  shows "(\<forall>v. extract_rdf_type line = Some v \<longrightarrow> utf8_valid v) \<and>
    (\<forall>key v. extract_property line key = Some v \<longrightarrow> utf8_valid v) \<and>
    utf8_valid (strip_leading_directives line) \<and>
    utf8_valid (dispatch_escape line) \<and> utf8_valid (carrier_escape line) \<and> utf8_valid (ffi_escape line) \<and>
    (\<forall>ev l. event_to_turtle ev = Some l \<longrightarrow> utf8_valid l)"
  using assms strip_leading_valid dispatch_lit.esc_valid carrier_lit.esc_valid ffi_lit.esc_valid
  by (intro conjI allI impI) (auto intro: extract_rdf_type_valid extract_property_valid event_to_turtle_valid)

theorem texts_are_strings_witness:
  "let line = [CHR 0xC3, CHR 0xA9] @ '' a carrier:SendReaction ; carrier:text '' @ [quote, CHR 0xC3, CHR 0xA9, quote] in
   utf8_valid line \<and> extract_property line ''carrier:text'' = Some [CHR 0xC3, CHR 0xA9] \<and>
   utf8_valid (the (extract_property line ''carrier:text''))"
proof -
  let ?line = "[CHR 0xC3, CHR 0xA9] @ '' a carrier:SendReaction ; carrier:text '' @ [quote, CHR 0xC3, CHR 0xA9, quote]"
  have l: "utf8_valid ?line" by code_simp
  have v: "extract_property ?line ''carrier:text'' = Some [CHR 0xC3, CHR 0xA9]" by code_simp
  have "utf8_valid [CHR 0xC3, CHR 0xA9]" using texts_are_strings [OF l] v by blast
  then show ?thesis using l v by (simp add: Let_def)
qed

end
