(* ===== verification/Logging.thy ===== *)
theory Logging
  imports Calendar Carrier_Event
begin

text \<open>
  Log records: the format of a line and the filter by tags, \<^verbatim>\<open>src/logging.rs\<close>, and the bridge that
  hands the records of the carrier library to it, \<^verbatim>\<open>src/carrier.rs\<close>.  What the \<^verbatim>\<open>tracing\<close> crates
  do is a parameter: the rendering of the fields of an event, the reading of filter directives.
\<close>

section \<open>Levels\<close>

text \<open>The levels of \<^verbatim>\<open>tracing\<close>, ordered by verbosity.\<close>

datatype log_level = Level_error | Level_warn | Level_info | Level_debug | Level_trace

fun level_rank :: "log_level \<Rightarrow> nat" where
  "level_rank Level_error = 0"
| "level_rank Level_warn = 1"
| "level_rank Level_info = 2"
| "level_rank Level_debug = 3"
| "level_rank Level_trace = 4"

instantiation log_level :: linorder
begin

definition less_eq_log_level :: "log_level \<Rightarrow> log_level \<Rightarrow> bool" where
  "less_eq_log_level a b \<longleftrightarrow> level_rank a \<le> level_rank b"

definition less_log_level :: "log_level \<Rightarrow> log_level \<Rightarrow> bool" where
  "less_log_level a b \<longleftrightarrow> level_rank a < level_rank b"

instance
proof
  fix a b :: log_level
  show "a \<le> b \<Longrightarrow> b \<le> a \<Longrightarrow> a = b"
    by (cases a; cases b) (simp_all add: less_eq_log_level_def)
qed (auto simp: less_eq_log_level_def less_log_level_def)

end

fun level_name :: "log_level \<Rightarrow> str" where
  "level_name Level_error = ''ERROR''"
| "level_name Level_warn = ''WARN''"
| "level_name Level_info = ''INFO''"
| "level_name Level_debug = ''DEBUG''"
| "level_name Level_trace = ''TRACE''"

text \<open>\<open>{:5}\<close>: padded on the right to five characters.\<close>

definition pad_level :: "log_level \<Rightarrow> str" where
  "pad_level l = level_name l @ replicate (5 - length (level_name l)) (CHR '' '')"

section \<open>Lines\<close>

definition known_tags :: "str list" where
  "known_tags = [''JAMI'', ''SHIM'', ''CARRIER'', ''DISPATCH'', ''SPARQL'', ''PIPELINE'', ''SCRIPT'', ''CHANNEL'',
     ''LLM'', ''WS'', ''STATION'']"

definition parse_allowed_tags :: "str \<Rightarrow> str set option" where
  "parse_allowed_tags raw =
     (let trimmed = trim raw
      in if trimmed = [] then None
         else Some (set (filter (\<lambda>s. s \<noteq> []) (map trim (split_on (CHR '','') trimmed)))))"

text \<open>
  What a record adds to the log: \<open>secs\<close> and \<open>millis\<close> are the clock, \<open>body\<close> the text the crate makes of the
  fields and the message.
\<close>

definition format_event :: "str set option \<Rightarrow> int \<Rightarrow> int \<Rightarrow> log_level \<Rightarrow> str \<Rightarrow> str \<Rightarrow> str" where
  "format_event allowed_tags secs millis level target body =
     (case allowed_tags of
        Some allowed \<Rightarrow>
          if target \<notin> allowed then []
          else iso8601_millis secs millis @ '' '' @ pad_level level @ '' ['' @ target @ ''] '' @ body @ [newline]
      | None \<Rightarrow> iso8601_millis secs millis @ '' '' @ pad_level level @ '' ['' @ target @ ''] '' @ body @ [newline])"

text \<open>
  Setting up: \<open>default_env\<close> is what \<open>EnvFilter::try_from_default_env\<close> makes of \<^verbatim>\<open>RUST_LOG\<close>, \<open>new_filter\<close>,
  \<open>parse_directive\<close> and \<open>add_directive\<close> the other functions of the crate.  Only the first subscriber of the
  process is installed.
\<close>

record 'f subscriber =
  sub_filter :: 'f
  sub_tags :: "str set option"

definition logging_init :: "'f option \<Rightarrow> (str \<Rightarrow> 'f) \<Rightarrow> (str \<Rightarrow> 'd option) \<Rightarrow> ('f \<Rightarrow> 'd \<Rightarrow> 'f) \<Rightarrow> str \<Rightarrow> str \<Rightarrow>
    'f subscriber option \<Rightarrow> 'f subscriber option \<times> (str + unit)" where
  "logging_init default_env new_filter parse_directive add_directive default_level tags installed =
     (let env_filter =
        (case default_env of
           Some f \<Rightarrow> Inr f
         | None \<Rightarrow>
             (case parse_directive (''antenna='' @ default_level) of
                None \<Rightarrow> Inl (''invalid --log level '' @ [CHR 0x27] @ default_level @ [CHR 0x27])
              | Some d \<Rightarrow> Inr (add_directive (new_filter default_level) d)))
      in case env_filter of
           Inl e \<Rightarrow> (installed, Inl e)
         | Inr f \<Rightarrow>
             (case installed of
                None \<Rightarrow> Some \<lparr>sub_filter = f, sub_tags = parse_allowed_tags tags\<rparr>
              | Some s \<Rightarrow> Some s, Inr ()))"

section \<open>The bridge from the carrier library\<close>

record log_record =
  lr_level :: int
  lr_tag :: str
  lr_message :: str

definition emit_level :: "int \<Rightarrow> log_level" where
  "emit_level level =
     (if level = 0 then Level_error
      else if level = 1 then Level_warn
      else if level = 2 then Level_info
      else if level = 3 then Level_debug
      else Level_info)"

definition emit_target :: "str \<Rightarrow> str" where
  "emit_target tag =
     (if tag \<in> {''JAMI'', ''SHIM'', ''DISPATCH'', ''SPARQL'', ''PIPELINE'', ''SCRIPT'', ''CHANNEL'', ''LLM'', ''WS'', ''STATION''}
      then tag else ''CARRIER'')"

text \<open>The level, the target and the message of the event, \<open>None\<close> for a null pointer.\<close>

definition log_callback :: "log_record option \<Rightarrow> (log_level \<times> str \<times> str) option" where
  "log_callback r =
     map_option (\<lambda>r. (emit_level (lr_level r), emit_target (cstr_from_buf (lr_tag r)),
       from_utf8_lossy (takeWhile (\<lambda>b. b \<noteq> nul) (lr_message r)))) r"

section \<open>Messages of the script graph\<close>

text \<open>
  The levels at which broadcasts and the messages taken from inboxes are logged, \<^verbatim>\<open>src/dag.rs\<close>: the clock,
  many times a second, one level below the others.
\<close>

definition antenna_clock_iri :: str where
  "antenna_clock_iri = ''http://resonator.network/v2/antenna#clock''"

definition log_channel_broadcast :: "str \<Rightarrow> log_level \<times> str" where
  "log_channel_broadcast channel_uri =
     (if channel_uri = antenna_clock_iri then (Level_trace, ''CHANNEL'') else (Level_debug, ''CHANNEL''))"

definition log_script_inbox_recv :: "str \<Rightarrow> log_level \<times> str" where
  "log_script_inbox_recv channel_uri =
     (if channel_uri = antenna_clock_iri then (Level_trace, ''SCRIPT'') else (Level_debug, ''SCRIPT''))"

section \<open>Lemmas\<close>

text \<open>With a filter for debug messages all channels but the clock are logged.\<close>

lemma clock_is_quiet:
  "fst (log_channel_broadcast uri) \<le> Level_debug \<longleftrightarrow> uri \<noteq> antenna_clock_iri"
  "fst (log_script_inbox_recv uri) \<le> Level_debug \<longleftrightarrow> uri \<noteq> antenna_clock_iri"
  by (simp_all add: log_channel_broadcast_def log_script_inbox_recv_def less_eq_log_level_def)

lemma known_tags_distinct: "distinct known_tags \<and> length known_tags = 11"
  by (simp add: known_tags_def)

lemma emit_target_known: "emit_target t \<in> set known_tags"
  by (auto simp: emit_target_def known_tags_def)

lemma emit_target_of_known: "t \<in> set known_tags \<Longrightarrow> emit_target t = t"
  by (auto simp: emit_target_def known_tags_def)

text \<open>The filter knows no order and no repetition of tags: it is the set of the trimmed names between commas.\<close>

lemma parse_allowed_tags_empty: "parse_allowed_tags raw = None \<longleftrightarrow> trim raw = []"
  by (simp add: parse_allowed_tags_def Let_def)

section \<open>Lists of tags\<close>

text \<open>A tag is a word of printable ASCII characters without commas; a list of tags is written with commas between.\<close>

definition tag_word :: "str \<Rightarrow> bool" where
  "tag_word t \<longleftrightarrow> t \<noteq> [] \<and> (\<forall>c \<in> set t. plain_char c \<and> c \<noteq> CHR '','')"

fun write_tags :: "str list \<Rightarrow> str" where
  "write_tags [] = []"
| "write_tags [t] = t"
| "write_tags (t # ts) = t @ '', '' @ write_tags ts"

lemma trim_plain_ends: "s \<noteq> [] \<Longrightarrow> plain_char (s ! 0) \<Longrightarrow> plain_char (last s) \<Longrightarrow> trim s = s"
proof -
  assume s: "s \<noteq> []" "plain_char (s ! 0)" "plain_char (last s)"
  have "trim_start s = s" using s by (cases s) simp_all
  moreover have "trim_end (butlast s @ [last s]) = butlast s @ [last s]" using s(3) by (rule trim_end_plain)
  ultimately show ?thesis using s(1) by (simp add: trim_def)
qed

lemma trim_tag: "tag_word t \<Longrightarrow> trim t = t" "tag_word t \<Longrightarrow> trim (CHR '' '' # t) = t"
proof -
  show t: "tag_word t \<Longrightarrow> trim t = t" by (rule trim_plain_ends) (auto simp: tag_word_def)
  show "trim (CHR '' '' # t) = t" if "tag_word t" using t [OF that] by (simp add: trim_def)
qed

lemma write_tags_ends:
  "ts \<noteq> [] \<Longrightarrow> \<forall>t \<in> set ts. tag_word t \<Longrightarrow>
    write_tags ts \<noteq> [] \<and> plain_char (write_tags ts ! 0) \<and> plain_char (last (write_tags ts))"
  by (induction ts rule: write_tags.induct) (auto simp: tag_word_def nth_append)

lemma split_on_nonempty [simp]: "split_on c s \<noteq> []"
  by (induction s) (auto split: list.split)

lemma split_on_word: "CHR '','' \<notin> set t \<Longrightarrow> split_on (CHR '','') t = [t]"
  by (induction t) auto

lemma split_on_join: "CHR '','' \<notin> set t \<Longrightarrow> split_on (CHR '','') (t @ CHR '','' # s) = t # split_on (CHR '','') s"
  by (induction t) (auto split: list.split)

lemma trim_space: "trim (CHR '' '' # s) = trim s"
  by (simp add: trim_def)

lemma split_on_space: "map trim (split_on (CHR '','') (CHR '' '' # s)) = map trim (split_on (CHR '','') s)"
proof -
  obtain p ps where "split_on (CHR '','') s = p # ps" using split_on_nonempty by (metis list.exhaust)
  then show ?thesis by (simp add: trim_space)
qed

lemma split_write_tags:
  "ts \<noteq> [] \<Longrightarrow> \<forall>t \<in> set ts. tag_word t \<Longrightarrow> map trim (split_on (CHR '','') (write_tags ts)) = ts"
proof (induction ts rule: write_tags.induct)
  case (2 t)
  then have "CHR '','' \<notin> set t" "trim t = t" by (auto simp: tag_word_def trim_tag)
  then show ?case using split_on_word [of t] by simp
next
  case (3 t u ts)
  then have t: "CHR '','' \<notin> set t" "trim t = t" by (auto simp: tag_word_def trim_tag)
  have ih: "map trim (split_on (CHR '','') (write_tags (u # ts))) = u # ts" using 3 by simp
  have "split_on (CHR '','') (write_tags (t # u # ts)) = t # split_on (CHR '','') (CHR '' '' # write_tags (u # ts))"
    using split_on_join [OF t(1)] by (simp only: write_tags.simps append.simps)
  then show ?case by (simp only: list.map split_on_space ih t(2))
qed simp

lemma parse_written_tags:
  assumes "\<forall>t \<in> set ts. tag_word t"
  shows "parse_allowed_tags (write_tags ts) = (if ts = [] then None else Some (set ts))"
proof (cases "ts = []")
  case False
  have w: "write_tags ts \<noteq> []" "trim (write_tags ts) = write_tags ts"
    using write_tags_ends [OF False assms] trim_plain_ends by blast+
  have "set (filter (\<lambda>s. s \<noteq> []) ts) = set ts" using assms by (auto simp: tag_word_def)
  then show ?thesis using w False by (simp add: parse_allowed_tags_def Let_def split_write_tags [OF False assms])
qed (simp add: parse_allowed_tags_def)

section \<open>Property\<close>

text \<open>
  C39: whatever the carrier library logs is written under one of the known tags, and a list of tags given to
  the program, written with commas between, lets through exactly the records with a tag of the list, and
  every record if the list is empty.  A record that is written shows its tag in brackets.
\<close>

theorem carrier_log_is_filtered_by_tag:
  assumes "log_callback r = Some (level, target, message)" "\<forall>t \<in> set tags. tag_word t"
  defines "line secs millis \<equiv> format_event (parse_allowed_tags (write_tags tags)) secs millis level target message"
  shows "target \<in> set known_tags \<and> (line secs millis \<noteq> [] \<longleftrightarrow> tags = [] \<or> target \<in> set tags) \<and>
    (line secs millis \<noteq> [] \<longrightarrow> contains ('' ['' @ target @ ''] '') (line secs millis))"
proof -
  have known: "target \<in> set known_tags" using assms(1) emit_target_known by (auto simp: log_callback_def)
  let ?full = "iso8601_millis secs millis @ '' '' @ pad_level level @ '' ['' @ target @ ''] '' @ message @ [newline]"
  have "line secs millis = (if tags = [] \<or> target \<in> set tags then ?full else [])"
    by (auto simp: line_def format_event_def parse_written_tags [OF assms(2)])
  moreover have "contains ('' ['' @ target @ ''] '') ?full"
    unfolding contains_iff
    by (rule exI [of _ "iso8601_millis secs millis @ '' '' @ pad_level level"]) simp
  ultimately show ?thesis using known by simp
qed

theorem carrier_log_is_filtered_by_tag_witness:
  "log_callback (Some \<lparr>lr_level = 3, lr_tag = ''SHIM'' @ [nul, nul], lr_message = ''up'' @ [nul]\<rparr>) =
     Some (Level_debug, ''SHIM'', ''up'') \<and>
   format_event (parse_allowed_tags ''JAMI, SHIM'') 86400 100 Level_debug ''SHIM'' ''up'' \<noteq> [] \<and>
   format_event (parse_allowed_tags ''JAMI, WS'') 86400 100 Level_debug ''SHIM'' ''up'' = []"
proof -
  have r: "log_callback (Some \<lparr>lr_level = 3, lr_tag = ''SHIM'' @ [nul, nul], lr_message = ''up'' @ [nul]\<rparr>) =
     Some (Level_debug, ''SHIM'', ''up'')" by code_simp
  have w: "\<forall>t \<in> set [''JAMI'', ''SHIM'']. tag_word t" "\<forall>t \<in> set [''JAMI'', ''WS'']. tag_word t"
    by (simp_all add: tag_word_def plain_char_def ascii_white_def)
  show ?thesis
    using carrier_log_is_filtered_by_tag [OF r w(1), of 86400 100] carrier_log_is_filtered_by_tag [OF r w(2), of 86400 100] r
    by simp
qed

end
