(* ===== verification/Program.thy ===== *)
theory Program
  imports Antenna Logging Utf8_Cut Web_Session
begin

text \<open>
  The command line program, \<^verbatim>\<open>src/main.rs\<close>: the choice of the log level, the order in which it sets up
  logging, the context and one transport, and its loop on standard input.  Reading from standard
  input blocks, so here the ticks of \<^verbatim>\<open>src/lib.rs\<close> are run on an input that may be still open.
\<close>

section \<open>Standard input\<close>

text \<open>
  \<open>PipeIn::recv\<close> with the bytes that have arrived and whether more may come: without a whole line it waits
  as long as the input is open, and \<open>None\<close> stands for a call that does not return.
\<close>

definition stdin_recv :: "bool \<Rightarrow> str \<Rightarrow> (str \<times> str option) option" where
  "stdin_recv opn input = (if opn \<and> newline \<notin> set input then None else Some (pipe_recv input))"

text \<open>The reading loop of a tick.\<close>

function read_all :: "bool \<Rightarrow> str \<Rightarrow> (str \<times> str list) option" where
  "read_all opn input =
     (case stdin_recv opn input of
        None \<Rightarrow> None
      | Some (rest, None) \<Rightarrow> Some (rest, [])
      | Some (rest, Some line) \<Rightarrow> map_option (\<lambda>(r, lines). (r, line # lines)) (read_all opn rest))"
  by pat_completeness auto
termination
proof (relation "measure (length \<circ> snd)")
  fix opn input x rest y line
  assume "stdin_recv opn input = Some x" "(rest, y) = x" "y = Some line"
  then have r: "pipe_recv input = (rest, Some line)" by (auto simp: stdin_recv_def split: if_splits)
  show "((opn, rest), (opn, input)) \<in> measure (length \<circ> snd)"
  proof (cases "split_incl input")
    case Nil
    then show ?thesis using r by (simp add: pipe_recv_def)
  next
    case (Cons p ps)
    then have "rest = concat ps" using r by (simp add: pipe_recv_def)
    moreover have "input = p @ concat ps" using concat_split_incl [of input] Cons by simp
    moreover have "p \<noteq> []" using split_incl_nonempty [of p input] Cons by simp
    ultimately show ?thesis by simp
  qed
qed simp

declare read_all.simps [simp del]

text \<open>
  A tick on standard input: its steps are those of \<^verbatim>\<open>AntennaContext::tick\<close>, with the reading where it takes
  place, after the library's iteration.
\<close>

definition pipe_tick :: "('s, 'c) env \<Rightarrow> host \<Rightarrow> bool \<Rightarrow> str \<Rightarrow> ('s, 'c) antenna \<Rightarrow>
    (('s, 'c) antenna \<times> str \<times> (str + unit)) option" where
  "pipe_tick env h opn input a =
     Option.bind (startup env a) (\<lambda>a.
     let a = broadcast_clock (announce env a)
     in Option.bind (iterate (e_lib env) (h_debug_build h) (h_thread h) (an_client a)) (\<lambda>(cl, r).
     let a = a\<lparr>an_client := cl\<rparr>
     in case r of
          Inl e \<Rightarrow> Some (a, input, Inl e)
        | Inr _ \<Rightarrow>
            let a = drain_events env a
            in Option.bind (read_all opn input) (\<lambda>(rest, lines).
               map_option (\<lambda>a. (a, rest, Inr ())) (pump env (an_account a) lines a))))"

text \<open>\<open>stdin n\<close> is what has arrived between the ticks before and the \<open>n\<close>-th one, and whether more may come.\<close>

partial_function (option) run_pipes :: "('s, 'c) env \<Rightarrow> host \<Rightarrow> (nat \<Rightarrow> bool \<times> str) \<Rightarrow> nat \<Rightarrow> str \<Rightarrow>
    ('s, 'c) antenna \<Rightarrow> (('s, 'c) antenna \<times> str) option" where
  "run_pipes env h stdin n rest a =
     (case pipe_tick env h (fst (stdin n)) (rest @ snd (stdin n)) (fst (run_timeout env a)) of
        None \<Rightarrow> None
      | Some (a', rest', r) \<Rightarrow>
          (case r of Inl e \<Rightarrow> Some (a', e) | Inr _ \<Rightarrow> run_pipes env h stdin (Suc n) rest' a'))"

declare run_pipes.simps [code]

section \<open>The program\<close>

record args =
  arg_data_dir :: str
  arg_account :: "str option"
  arg_store :: "str option"
  arg_pipeline :: "str option"
  arg_seed :: "str option"
  arg_ws :: "16 word option"
  arg_debug :: bool
  arg_log :: "str option"
  arg_log_tags :: str

definition main_level :: "args \<Rightarrow> str" where
  "main_level a = (case arg_log a of Some l \<Rightarrow> l | None \<Rightarrow> if arg_debug a then ''debug'' else ''warn'')"

text \<open>
  The transport in use: standard output with what has been written to it, or the server with the greeting
  for its clients.
\<close>

datatype transport = Pipes str | Web "16 word" "str option"

text \<open>
  \<open>log\<close> is the outcome of setting up logging for a level and a list of tags, \<open>bind\<close> that of binding
  the listener to a port.
\<close>

definition main_setup :: "('s, 'c) env \<Rightarrow> host \<Rightarrow> (str \<Rightarrow> str + str) \<Rightarrow> 'c \<Rightarrow> (str \<Rightarrow> str \<Rightarrow> str + unit) \<Rightarrow>
    (16 word \<Rightarrow> str + unit) \<Rightarrow> args \<Rightarrow> str + ('s, 'c) antenna \<times> transport" where
  "main_setup env h files lib0 log bind args =
     and_then (log (main_level args) (arg_log_tags args)) (\<lambda>_.
     and_then (antenna_new env h files (arg_data_dir args) (arg_account args) (arg_store args) (arg_pipeline args)
         (arg_seed args) lib0) (\<lambda>ctx.
     case arg_ws args of
       Some port \<Rightarrow> and_then (bind port) (\<lambda>_. Inr (ctx, Web port (Some (trim turtle_prefixes))))
     | None \<Rightarrow> Inr (ctx, Pipes (pipe_send [] (trim turtle_prefixes)))))"

text \<open>The clients of the server all get its greeting.\<close>

fun greet_with :: "str option \<Rightarrow> ws_op \<Rightarrow> ws_op" where
  "greet_with g (Connect _ handshake greeted) = Connect g handshake greeted"
| "greet_with g op = op"

text \<open>
  The whole program; \<open>stdin\<close> and \<open>clients\<close> are what happens at the two transports.  A result is always an error,
  as the loop ends with one only.
\<close>

definition main_program :: "('s, 'c) env \<Rightarrow> host \<Rightarrow> (str \<Rightarrow> str + str) \<Rightarrow> 'c \<Rightarrow> (str \<Rightarrow> str \<Rightarrow> str + unit) \<Rightarrow>
    (16 word \<Rightarrow> str + unit) \<Rightarrow> (nat \<Rightarrow> bool \<times> str) \<Rightarrow> (nat \<Rightarrow> ws_op list) \<Rightarrow> args \<Rightarrow> str option" where
  "main_program env h files lib0 log bind stdin clients args =
     (case main_setup env h files lib0 log bind args of
        Inl e \<Rightarrow> Some e
      | Inr (ctx, Pipes _) \<Rightarrow> map_option snd (run_pipes env h stdin 0 [] ctx)
      | Inr (ctx, Web _ g) \<Rightarrow>
          map_option (snd \<circ> snd) (run_web env h (\<lambda>n. map (greet_with g) (clients n)) 0 ws_start ctx))"

section \<open>Lemmas\<close>

text \<open>A tick on standard input that gets its lines is the tick on these lines.\<close>

lemma pipe_tick_reads:
  assumes "read_all opn input = Some (rest, lines)"
  shows "map_option (\<lambda>(a, _, r). (a, r)) (pipe_tick env h opn input a) = tick env h lines a"
  unfolding pipe_tick_def tick_def
  by (cases "startup env a")
    (auto simp: assms Let_def option.map_comp o_def split: option.splits sum.splits bind_splits)

lemma pipe_recv_split:
  "split_incl input = p # ps \<Longrightarrow> utf8_valid p \<Longrightarrow> pipe_recv input = (concat ps, Some (trim p))"
  by (simp add: pipe_recv_def Let_def)

text \<open>A valid input, once it is closed, is read to its end; while it is open the loop does not return.\<close>

lemma read_all_valid:
  "utf8_valid input \<Longrightarrow> read_all opn input = (if opn then None else Some ([], map trim (split_incl input)))"
proof (induction opn input rule: read_all.induct)
  case (1 opn input)
  show ?case
  proof (cases "split_incl input")
    case Nil
    then have "input = []" using concat_split_incl [of input] by simp
    then show ?thesis by (subst read_all.simps) (simp add: stdin_recv_def pipe_recv_def)
  next
    case (Cons p ps)
    obtain q qs where q: "split_incl input = q # qs" "input = q @ concat qs" "split_incl (concat qs) = qs"
        "qs = [] \<or> (\<exists>l. q = l @ [newline])"
      using split_incl_shape [of input] Cons by auto
    then have ps: "split_incl (concat ps) = ps" using Cons by simp
    have "utf8_valid p" using split_incl_valid [OF "1.prems"] Cons by simp
    then have r: "pipe_recv input = (concat ps, Some (trim p))" by (rule pipe_recv_split [OF Cons])
    have "utf8_valid (concat ps)"
      using utf8_valid_append [OF \<open>utf8_valid p\<close>, of "concat ps"] "1.prems" q Cons by simp
    show ?thesis
    proof (cases "stdin_recv opn input")
      case None
      then show ?thesis by (subst read_all.simps) (auto simp: stdin_recv_def split: if_splits)
    next
      case (Some x)
      then have x: "x = (concat ps, Some (trim p))" using r by (simp add: stdin_recv_def split: if_splits)
      have "read_all opn (concat ps) = (if opn then None else Some ([], map trim ps))"
        using "1.IH" [OF Some x [symmetric] refl] \<open>utf8_valid (concat ps)\<close> ps by simp
      then show ?thesis using Some x Cons by (subst read_all.simps) simp
    qed
  qed
qed

lemma failing_case: "(case x of Inl e \<Rightarrow> Some (p, q, Inl e) | Inr u \<Rightarrow> None) = Some (p', q', r) \<Longrightarrow> \<exists>e. r = Inl e"
  by (cases x) auto

section \<open>Pipes between two programs\<close>

text \<open>
  \<open>PipeOut\<close> of one program and \<open>PipeIn\<close> of the next are a queue of messages, as long as the messages are trimmed
  lines; the bytes between them are whole lines.
\<close>

definition pipe_lines :: "str \<Rightarrow> str list" where
  "pipe_lines q = map trim (split_incl q)"

definition pipe_ok :: "str \<Rightarrow> bool" where
  "pipe_ok q \<longleftrightarrow> utf8_valid q \<and> (q = [] \<or> last q = newline)"

definition pipe_text :: "str \<Rightarrow> bool" where
  "pipe_text m \<longleftrightarrow> utf8_valid m \<and> newline \<notin> set m \<and> trim m = m \<and> m \<noteq> []"

lemma split_incl_append: "q = [] \<or> last q = newline \<Longrightarrow> split_incl (q @ r) = split_incl q @ split_incl r"
proof (induction q)
  case (Cons c q)
  show ?case
  proof (cases "c = newline")
    case True
    then show ?thesis using Cons by (cases q) auto
  next
    case False
    then have q: "q \<noteq> []" "last q = newline" using Cons.prems by (auto split: if_splits)
    then have "split_incl q \<noteq> []" using concat_split_incl [of q] by fastforce
    then show ?thesis using Cons.IH q False by (auto split: list.split)
  qed
qed simp

interpretation pipe_fifo: unbounded_fifo "\<lambda>q m. (pipe_send q m, True)" pipe_recv pipe_lines pipe_ok pipe_text
proof unfold_locales
  fix q m assume q: "pipe_ok q" and m: "pipe_text m"
  have "utf8_valid (m @ [newline])" using m by (simp add: pipe_text_def utf8_valid_append ascii_newline)
  then show "pipe_ok (fst (pipe_send q m, True))"
    using q by (simp add: pipe_ok_def pipe_send_def utf8_valid_append)
  have "split_incl (m @ [newline]) = [m @ [newline]]" using m split_incl_newline [of m "[]"] by (simp add: pipe_text_def)
  then show "pipe_lines (fst (pipe_send q m, True)) = (if snd (pipe_send q m, True) then pipe_lines q @ [m] else pipe_lines q)"
    using q m trim_line [of m] by (simp add: pipe_lines_def pipe_send_def pipe_ok_def pipe_text_def split_incl_append)
next
  fix q assume "pipe_lines q = []"
  then have "q = []" using concat_split_incl [of q] by (simp add: pipe_lines_def)
  then show "pipe_recv q = (q, None)" by (simp add: pipe_recv_def)
next
  fix q m ms assume q: "pipe_ok q" and c: "pipe_lines q = m # ms"
  then obtain p ps where p: "split_incl q = p # ps" "m = trim p" "ms = map trim ps" by (auto simp: pipe_lines_def)
  obtain r rs where r: "split_incl q = r # rs" "q = r @ concat rs" "split_incl (concat rs) = rs"
    using split_incl_shape [of q] p(1) by auto
  have "utf8_valid p" using split_incl_valid [of q p] q p(1) by (simp add: pipe_ok_def)
  moreover have "utf8_valid (concat ps)"
    using utf8_valid_append [OF \<open>utf8_valid p\<close>, of "concat ps"] q r p(1) by (simp add: pipe_ok_def)
  moreover have "concat ps = [] \<or> last (concat ps) = newline"
    using q r(2) p(1) r(1) by (auto simp: pipe_ok_def last_append split: if_splits)
  ultimately show "\<exists>q'. pipe_recv q = (q', Some m) \<and> pipe_lines q' = ms \<and> pipe_ok q'"
    using p r pipe_recv_split [OF p(1)] by (auto simp: pipe_lines_def pipe_ok_def)
qed simp

text \<open>What one program writes the other reads, in order and unchanged, however the two take turns.\<close>

lemma pipes_deliver_in_order:
  assumes "\<forall>m. Put m \<in> set ops \<longrightarrow> pipe_text m"
    and "run_queue (\<lambda>q m. (pipe_send q m, True)) pipe_recv [] ops = (q, acc, del)"
  shows "acc = [m. Put m \<leftarrow> ops] \<and> del @ pipe_lines q = acc"
  using pipe_fifo.run_fifo [OF _ assms] pipe_fifo.run_accepts_all [OF assms(2)]
  by (simp add: pipe_ok_def pipe_lines_def)

section \<open>Property\<close>

text \<open>
  C20: on standard input a tick that gets past the library's iteration goes on reading until the input is
  closed.  While it is open no tick succeeds, whatever well-formed text has arrived, and the
  loop can end only by the library failing in its first tick; the events of the network are not even looked at
  again.  Once the input is closed a tick is the tick on all of its trimmed lines.
\<close>

theorem pipe_mode_waits_for_the_end:
  assumes "utf8_valid input"
  shows "(\<forall>a' rest. pipe_tick env h True input a \<noteq> Some (a', rest, Inr ())) \<and>
    (\<forall>stdin a' e. stdin 0 = (True, input) \<longrightarrow> run_pipes env h stdin 0 [] a = Some (a', e) \<longrightarrow>
       (\<exists>rest. pipe_tick env h True input (fst (run_timeout env a)) = Some (a', rest, Inl e))) \<and>
    map_option (\<lambda>(a, _, r). (a, r)) (pipe_tick env h False input a) = tick env h (map trim (split_incl input)) a"
proof -
  have "read_all True input = None" using read_all_valid [OF assms] by simp
  then have stuck: "pipe_tick env h True input b = Some (b', rest, r) \<Longrightarrow> \<exists>e. r = Inl e" for b b' rest r
    by (auto simp: pipe_tick_def Let_def bind_eq_Some_conv dest: failing_case)
  then have "pipe_tick env h True input a \<noteq> Some (a', rest, Inr ())" for a' rest by blast
  moreover have "\<exists>rest. pipe_tick env h True input (fst (run_timeout env a)) = Some (a', rest, Inl e)"
    if "stdin 0 = (True, input)" "run_pipes env h stdin 0 [] a = Some (a', e)" for stdin a' e
    using that stuck by (subst (asm) run_pipes.simps) (fastforce split: option.splits sum.splits)
  moreover have "map_option (\<lambda>(a, _, r). (a, r)) (pipe_tick env h False input a) = tick env h (map trim (split_incl input)) a"
    using pipe_tick_reads read_all_valid [OF assms] by metis
  ultimately show ?thesis by blast
qed

text \<open>A command has arrived; while more may come the tick does not end, afterwards it does.\<close>

theorem pipe_mode_waits_for_the_end_witness:
  "(\<forall>a' rest. pipe_tick (sample_env (\<lambda>_. Solutions [])) sample_host True (''# hi'' @ [newline])
      (sample_antenna [] sample_client) \<noteq> Some (a', rest, Inr ())) \<and>
   pipe_tick (sample_env (\<lambda>_. Solutions [])) sample_host False (''# hi'' @ [newline])
      (sample_antenna [] sample_client) \<noteq> None"
proof -
  have v: "utf8_valid (''# hi'' @ [newline])" by (simp add: bv_def newline_def)
  have "tick (sample_env (\<lambda>_. Solutions [])) sample_host ls (sample_antenna [] sample_client) \<noteq> None" for ls
    using sample_tick [of ls] by fastforce
  then show ?thesis
    using pipe_mode_waits_for_the_end [OF v, of "sample_env (\<lambda>_. Solutions [])" sample_host "sample_antenna [] sample_client"]
    by (metis option.map_disc_iff)
qed

end
