(* ===== verification/Build_Script.thy ===== *)
theory Build_Script
  imports Prelude
begin

text \<open>
  The build script, \<^verbatim>\<open>build.rs\<close>: from the target, the environment and the files it finds it decides
  which archives, frameworks and system libraries are linked.  Its result is the list of what it
  asks of cargo and of the C compiler, up to the panic that ends it if there is one.  The
  environment, the file system and the tools \<^verbatim>\<open>uname\<close> and \<^verbatim>\<open>lipo\<close> are the inputs.
\<close>

section \<open>Inputs and results\<close>

text \<open>
  \<open>be_file\<close> is the text of a file that can be read, \<open>be_dir\<close> the names in a directory that can be read,
  \<open>be_mtime\<close> the time of the last change, \<open>be_lipo_info\<close> the output of \<^verbatim>\<open>lipo -info\<close> and \<open>be_lipo_thin\<close>
  whether \<^verbatim>\<open>lipo -thin\<close> succeeded, both \<open>None\<close> if the tool could not be run.
\<close>

record build_env =
  be_os :: str
  be_arch :: str
  be_abi :: str
  be_manifest_dir :: str
  be_out_dir :: str
  be_carrier_dir :: "str option"
  be_jami_prefix :: "str option"
  be_xdg_cache_home :: "str option"
  be_home :: "str option"
  be_uname :: "str \<Rightarrow> str"
  be_exists :: "str \<Rightarrow> bool"
  be_file :: "str \<Rightarrow> str option"
  be_dir :: "str \<Rightarrow> str list option"
  be_mtime :: "str \<Rightarrow> nat option"
  be_mkdir :: "str \<Rightarrow> bool"
  be_copy :: "str \<Rightarrow> str \<Rightarrow> bool"
  be_lipo_info :: "str \<Rightarrow> str option"
  be_lipo_thin :: "str \<Rightarrow> str \<Rightarrow> bool option"

text \<open>
  A line for cargo; a library for the C compiler with its files, its directory of headers, its macros and the
  flags it gets if the compiler knows them.  Warnings are off.
\<close>

datatype action = Say str | Compile str "str list" str "(str \<times> str option) list" "str list"

datatype panic =
    Quickjs_missing str
  | File_unreadable str
  | Carrier_lib_missing str str str
  | Carrier_header_missing str
  | Pin_empty str
  | Home_unset
  | Dir_failed str
  | Lipo_info_failed str
  | Copy_failed str
  | Lipo_thin_failed str
  | Jami_missing str str

type_synonym 'a build = "action list \<times> (panic + 'a)"

definition build_then :: "'a build \<Rightarrow> ('a \<Rightarrow> 'b build) \<Rightarrow> 'b build" where
  "build_then m f = (case m of (out, Inl p) \<Rightarrow> (out, Inl p) | (out, Inr x) \<Rightarrow> (let (out', r) = f x in (out @ out', r)))"

definition build_return :: "'a \<Rightarrow> 'a build" where
  "build_return x = ([], Inr x)"

definition build_panic :: "panic \<Rightarrow> 'a build" where
  "build_panic p = ([], Inl p)"

definition say :: "str \<Rightarrow> unit build" where
  "say t = ([Say t], Inr ())"

text \<open>\<open>assert c p\<close> is \<open>if !c { panic!(..) }\<close>.\<close>

definition build_require :: "bool \<Rightarrow> panic \<Rightarrow> unit build" where
  "build_require c p = (if c then build_return () else build_panic p)"

fun say_all :: "str list \<Rightarrow> unit build" where
  "say_all [] = build_return ()"
| "say_all (t # ts) = build_then (say t) (\<lambda>_. say_all ts)"

text \<open>\<open>Path::join\<close>, \<open>Path::extension\<close> and \<open>Path::file_stem\<close> of a file name.\<close>

definition path_join :: "str \<Rightarrow> str \<Rightarrow> str" where
  "path_join a b =
     (if starts_with ''/'' b then b else if a = [] \<or> last a = CHR ''/'' then a @ b else a @ CHR ''/'' # b)"

definition extension :: "str \<Rightarrow> str option" where
  "extension name =
     (if name = ''..'' then None
      else case rsplit_once (CHR ''.'') name of Some (a, b) \<Rightarrow> if a = [] then None else Some b | None \<Rightarrow> None)"

definition file_stem :: "str \<Rightarrow> str" where
  "file_stem name =
     (if name = ''..'' then name
      else case rsplit_once (CHR ''.'') name of Some (a, b) \<Rightarrow> if a = [] then name else a | None \<Rightarrow> name)"

text \<open>The name a linker uses for an archive, \<^verbatim>\<open>libfoo.a\<close> being \<^verbatim>\<open>foo\<close>.\<close>

definition lib_stem :: "str \<Rightarrow> str option" where
  "lib_stem name = strip_prefix ''lib'' (file_stem name)"

section \<open>The target\<close>

definition is_ios_simulator :: "build_env \<Rightarrow> bool" where
  "is_ios_simulator e \<longleftrightarrow> be_os e = ''ios'' \<and> (be_abi e = ''sim'' \<or> be_arch e = ''x86_64'')"

definition is_ios_device :: "build_env \<Rightarrow> bool" where
  "is_ios_device e \<longleftrightarrow> be_os e = ''ios'' \<and> \<not> is_ios_simulator e"

definition host_triple :: "build_env \<Rightarrow> str \<times> str" where
  "host_triple e =
     (if be_os e = ''ios'' \<or> be_os e = ''android'' then ([], [])
      else let uname_s = trim (be_uname e ''-s''); uname_m = trim (be_uname e ''-m''); uname_r = trim (be_uname e ''-r'')
        in if uname_s = ''Darwin''
           then (uname_m @ ''-apple-darwin'' @ uname_r, replace_str ''arm64'' ''aarch64'' uname_m @ ''-apple-darwin'' @ uname_r)
           else (uname_m @ ''-linux-gnu'', uname_m @ ''-linux-gnu''))"

definition carrier_build_dir :: "build_env \<Rightarrow> str" where
  "carrier_build_dir e =
     (if is_ios_device e then ''build-ios-device-arm64''
      else if is_ios_simulator e then
        (if be_arch e = ''x86_64'' then ''build-ios-sim-x86_64'' else ''build-ios-sim-arm64'')
      else if be_os e = ''android'' then ''build-android-arm64''
      else ''build'')"

section \<open>Archives\<close>

text \<open>
  One archive in \<open>thin_archives_for_arch\<close>: what is printed, the name it is recorded under if it is, and
  whether its copy has been written.
\<close>

definition thin_one :: "build_env \<Rightarrow> str \<Rightarrow> str \<Rightarrow> str \<Rightarrow> str \<Rightarrow> (str option \<times> bool) build" where
  "thin_one e src_dir arch out_dir name =
     (let path = path_join src_dir name; dst = path_join out_dir name; stem = lib_stem name
      in if extension name \<noteq> Some ''a'' then build_return (None, False)
         else if (case (be_mtime e path, be_mtime e dst) of (Some s, Some d) \<Rightarrow> d \<ge> s | _ \<Rightarrow> False)
           then build_return (stem, False)
         else case be_lipo_info e path of
             None \<Rightarrow> build_panic (Lipo_info_failed path)
           | Some info \<Rightarrow>
               if contains ''Non-fat'' info then
                 if \<not> contains arch info then
                   build_then (say (''cargo:warning=skipping '' @ path @ '' (thin '' @ trim info @ ''; arch='' @ arch @ '' requested)''))
                     (\<lambda>_. build_return (None, False))
                 else if \<not> be_copy e path dst then build_panic (Copy_failed path)
                 else build_return (stem, True)
               else if be_lipo_thin e arch path \<noteq> Some True then build_panic (Lipo_thin_failed path)
               else build_return (stem, True))"

fun thin_loop :: "build_env \<Rightarrow> str \<Rightarrow> str \<Rightarrow> str \<Rightarrow> str list \<Rightarrow> (str list \<times> str list) build" where
  "thin_loop e src_dir arch out_dir [] = build_return ([], [])"
| "thin_loop e src_dir arch out_dir (name # names) =
     build_then (thin_one e src_dir arch out_dir name) (\<lambda>(stem, written).
     build_then (thin_loop e src_dir arch out_dir names) (\<lambda>(present, files).
       build_return ((case stem of None \<Rightarrow> present | Some s \<Rightarrow> s # present),
         if written then path_join out_dir name # files else files)))"

text \<open>The names of the archives, and the files written.\<close>

definition thin_archives_for_arch :: "build_env \<Rightarrow> str \<Rightarrow> str \<Rightarrow> str \<Rightarrow> (str list \<times> str list) build" where
  "thin_archives_for_arch e src_dir arch out_dir =
     (if \<not> be_mkdir e out_dir then build_panic (Dir_failed out_dir)
      else case be_dir e src_dir of
          None \<Rightarrow> build_panic (Dir_failed src_dir)
        | Some names \<Rightarrow> thin_loop e src_dir arch out_dir names)"

definition present_lib_stems :: "build_env \<Rightarrow> str \<Rightarrow> str list" where
  "present_lib_stems e dir =
     (case be_dir e dir of
        None \<Rightarrow> []
      | Some names \<Rightarrow> concat (map (\<lambda>name.
          if extension name \<noteq> Some ''a'' then []
          else case lib_stem name of Some stem \<Rightarrow> [stem] | None \<Rightarrow> []) names))"

section \<open>The script\<close>

definition qjs_dir :: "build_env \<Rightarrow> str" where
  "qjs_dir e = path_join (path_join (be_manifest_dir e) ''third_party'') ''quickjs''"

text \<open>The text of the file of the version, which is there when it is used.\<close>

definition qjs_version :: "build_env \<Rightarrow> str" where
  "qjs_version e = unwrap_or (be_file e (path_join (qjs_dir e) ''VERSION'')) []"

definition build_quickjs :: "build_env \<Rightarrow> unit build" where
  "build_quickjs e =
     build_then (build_require (be_exists e (path_join (qjs_dir e) ''quickjs.h'')) (Quickjs_missing (qjs_dir e))) (\<lambda>_.
     build_then (build_require (be_file e (path_join (qjs_dir e) ''VERSION'') \<noteq> None) (File_unreadable (path_join (qjs_dir e) ''VERSION''))) (\<lambda>_.
       ([Compile ''quickjs'' (map (path_join (qjs_dir e)) [''quickjs.c'', ''dtoa.c'', ''libregexp.c'', ''libunicode.c'', ''cutils.c''])
           (qjs_dir e)
           [(''_GNU_SOURCE'', None), (''CONFIG_VERSION'', Some (CHR 0x22 # trim (qjs_version e) @ [CHR 0x22]))]
           [''-fwrapv'', ''-Wno-sign-compare'', ''-Wno-implicit-fallthrough'', ''-Wno-unused-parameter'',
            ''-Wno-unused-but-set-variable'', ''-Wno-array-bounds'', ''-Wno-format-truncation''],
         Compile ''quickjs_shim'' [path_join (path_join (be_manifest_dir e) ''src'') ''quickjs_shim.c''] (qjs_dir e) [] []],
        Inr ())))"

definition carrier_dir :: "build_env \<Rightarrow> str" where
  "carrier_dir e = (case be_carrier_dir e of
       Some val \<Rightarrow> val
     | None \<Rightarrow> path_join (path_join (be_manifest_dir e) ''third_party'') ''carrier'')"

definition carrier_lib_dir :: "build_env \<Rightarrow> str" where
  "carrier_lib_dir e = path_join (carrier_dir e) (carrier_build_dir e)"

definition carrier_lib :: "build_env \<Rightarrow> str" where
  "carrier_lib e = path_join (carrier_lib_dir e) ''libcarrier.a''"

definition carrier_inc :: "build_env \<Rightarrow> str" where
  "carrier_inc e = path_join (carrier_dir e) ''include''"

definition carrier_hint :: "build_env \<Rightarrow> str" where
  "carrier_hint e =
     (if be_os e = ''ios'' then
        ''  cd '' @ carrier_dir e @ '' && make libcarrier-ios PLATFORM='' @ (if is_ios_device e then ''ios-device'' else ''ios-simulator'')
      else if be_os e = ''android'' then
        ''  cd '' @ carrier_dir e @ '' && make libjami PLATFORM=android-arm64 && make libcarrier-android''
      else ''  cd '' @ carrier_dir e @ '' && make libjami-build && make'')"

definition link_carrier :: "build_env \<Rightarrow> unit build" where
  "link_carrier e =
     build_then (build_require (be_exists e (carrier_lib e)) (Carrier_lib_missing (carrier_lib e) (carrier_hint e) (carrier_build_dir e))) (\<lambda>_.
     build_then (build_require (be_exists e (path_join (carrier_inc e) ''carrier.h'')) (Carrier_header_missing (carrier_inc e))) (\<lambda>_.
       say_all [''cargo:rustc-link-search=native='' @ carrier_lib_dir e, ''cargo:rustc-link-lib=static=carrier'']))"

definition jami_suffix :: "build_env \<Rightarrow> str" where
  "jami_suffix e =
     (if is_ios_device e then ''-ios-device-arm64''
      else if is_ios_simulator e then ''-ios-sim-fat''
      else if be_os e = ''android'' then ''-android-arm64''
      else [])"

definition jami_prefix :: "build_env \<Rightarrow> str build" where
  "jami_prefix e =
     (case be_jami_prefix e of
        Some val \<Rightarrow> build_return val
      | None \<Rightarrow>
          (let pin_file = path_join (carrier_dir e) ''JAMI_VERSION''
           in case be_file e pin_file of
                None \<Rightarrow> build_panic (File_unreadable pin_file)
              | Some text \<Rightarrow>
                  (let sha = trim text
                   in if sha = [] then build_panic (Pin_empty pin_file)
                      else case or_else (be_xdg_cache_home e) (map_option (\<lambda>h. path_join h ''.cache'') (be_home e)) of
                             None \<Rightarrow> build_panic Home_unset
                           | Some cache_root \<Rightarrow>
                               build_return (path_join (path_join (path_join cache_root ''resonator'') ''libjami'')
                                 (sha @ jami_suffix e)))))"

text \<open>The directory to link from, the archives known to be there if that is known, and the files written.\<close>

definition jami_lib_dir :: "build_env \<Rightarrow> str \<Rightarrow> (str \<times> str list option \<times> str list) build" where
  "jami_lib_dir e src =
     (if is_ios_simulator e then
        (let lipo_arch = (if be_arch e = ''aarch64'' then ''arm64'' else be_arch e);
             thin_dir = path_join (be_out_dir e) ''jami-thin''
         in build_then (thin_archives_for_arch e src lipo_arch thin_dir) (\<lambda>(present, files).
              build_return (thin_dir, Some present, files)))
      else if be_os e = ''android'' \<or> is_ios_device e then build_return (src, Some (present_lib_stems e src), [])
      else build_return (src, None, []))"

definition jami_hint :: "build_env \<Rightarrow> str" where
  "jami_hint e =
     (if be_os e = ''ios'' then
        ''  cd '' @ carrier_dir e @ '' && make libjami PLATFORM='' @ (if is_ios_device e then ''ios-device'' else ''ios-simulator'')
      else if be_os e = ''android'' then ''  cd '' @ carrier_dir e @ '' && make libjami PLATFORM=android-arm64''
      else ''  cd '' @ carrier_dir e @ '' && make libjami-build'')"

definition contrib_static :: "build_env \<Rightarrow> str list" where
  "contrib_static e =
     (let pj = snd (host_triple e); pj_suffix = (if pj = [] then [] else CHR ''-'' # pj)
      in [''dhtnet'', ''opendht''] @
         map (\<lambda>n. n @ pj_suffix) [''pjsua2'', ''pjsua'', ''pjsip-ua'', ''pjsip-simple'', ''pjsip'', ''pjmedia-codec'',
           ''pjmedia-audiodev'', ''pjmedia-videodev'', ''pjmedia'', ''pjnath'', ''pjlib-util'', ''pj'', ''srtp'', ''yuv''] @
         [''avformat'', ''avcodec'', ''avfilter'', ''avdevice'', ''swresample'', ''swscale'', ''avutil'', ''x264'', ''fmt'',
          ''http_parser'', ''llhttp'', ''natpmp'', ''simdutf'', ''ixml'', ''upnp'', ''speex'', ''speexdsp'', ''secp256k1'',
          ''yaml-cpp'', ''git2'', ''jsoncpp'', ''opus'', ''vpx'', ''argon2'', ''gnutls'', ''hogweed'', ''nettle'', ''gmp'',
          ''ssl'', ''crypto'', ''tls'', ''z''] @
         (if be_os e \<noteq> ''ios'' then [''minizip'', ''zstd'', ''bzip2''] else []) @
         (if be_os e = ''android'' then [''webrtc_audio_processing'', ''iconv'', ''charset''] else []))"

definition static_link :: "str \<Rightarrow> str" where
  "static_link lib = ''cargo:rustc-link-lib=static='' @ lib"

definition contrib_line :: "str list option \<Rightarrow> str \<Rightarrow> str" where
  "contrib_line present lib =
     (case present of
        Some ps \<Rightarrow>
          if lib \<notin> set ps then ''cargo:warning=dropping -l'' @ lib @ '' (no archive in the libjami prefix for this target)''
          else static_link lib
      | None \<Rightarrow> static_link lib)"

fun link_contrib :: "str list option \<Rightarrow> str list \<Rightarrow> unit build" where
  "link_contrib present [] = build_return ()"
| "link_contrib present (lib # libs) =
     build_then (say (contrib_line present lib)) (\<lambda>_. link_contrib present libs)"

text \<open>libjami and its archives; \<open>jami-core\<close> must be in the directory, before or now.\<close>

definition link_jami :: "build_env \<Rightarrow> unit build" where
  "link_jami e =
     build_then (jami_prefix e) (\<lambda>prefix_dir.
     build_then (jami_lib_dir e (path_join prefix_dir ''lib'')) (\<lambda>(lib_dir, present, files).
       let jami_lib = path_join lib_dir ''libjami-core.a''
       in build_then (build_require (be_exists e jami_lib \<or> jami_lib \<in> set files) (Jami_missing jami_lib (jami_hint e))) (\<lambda>_.
          build_then (say_all [''cargo:rustc-link-search=native='' @ lib_dir, static_link ''jami-core'']) (\<lambda>_.
            link_contrib present (contrib_static e)))))"

definition frameworks :: "str \<Rightarrow> str list" where
  "frameworks os = [''AVFoundation'', ''CoreAudio'', ''CoreVideo'', ''CoreMedia'', ''CoreGraphics'', ''VideoToolbox'',
     ''Foundation'', ''CoreFoundation'', ''Security'', ''SystemConfiguration''] @
     (if os = ''macos'' then [''AudioUnit''] else [''AudioToolbox''])"

definition sys_libs :: "str \<Rightarrow> str list" where
  "sys_libs os =
     (if os = ''macos'' \<or> os = ''ios'' then
        [''compression'', ''resolv'', ''c++'', ''iconv''] @ (if os = ''ios'' then [''bz2'', ''z''] else [])
      else if os = ''android'' then [''c++_shared'', ''log'', ''m'', ''dl'', ''android'', ''aaudio'', ''OpenSLES'', ''mediandk'']
      else [''stdc++'', ''dl'', ''rt'', ''resolv''])"

definition link_system :: "str \<Rightarrow> unit build" where
  "link_system os = say_all (
     (if os = ''macos'' \<or> os = ''ios'' then map ((@) ''cargo:rustc-link-lib=framework='') (frameworks os) else []) @
     map ((@) ''cargo:rustc-link-lib='') (sys_libs os) @
     (if os = ''android'' then [''cargo:rustc-link-arg=-Wl,--no-undefined''] else []) @
     (if os \<noteq> ''android'' then [''cargo:rustc-link-lib=pthread''] else []))"

definition rerun_lines :: "build_env \<Rightarrow> str list" where
  "rerun_lines e =
     map ((@) ''cargo:rerun-if-changed='') [carrier_lib e, carrier_inc e, path_join (carrier_dir e) ''JAMI_VERSION'',
       path_join (path_join (be_manifest_dir e) ''src'') ''quickjs_shim.c'', path_join (qjs_dir e) ''VERSION'',
       path_join (qjs_dir e) ''quickjs.h''] @
     [''cargo:rerun-if-env-changed=CARRIER_DIR'', ''cargo:rerun-if-env-changed=JAMI_PREFIX'']"

definition build_main :: "build_env \<Rightarrow> unit build" where
  "build_main e =
     build_then (build_quickjs e) (\<lambda>_.
     build_then (link_carrier e) (\<lambda>_.
     build_then (link_jami e) (\<lambda>_.
     build_then (link_system (be_os e)) (\<lambda>_. say_all (rerun_lines e)))))"

section \<open>Lemmas\<close>

lemma build_then_Inr:
  "build_then m f = (out, Inr x) \<longleftrightarrow> (\<exists>o1 y o2. m = (o1, Inr y) \<and> f y = (o2, Inr x) \<and> out = o1 @ o2)"
  by (auto simp: build_then_def split: prod.splits sum.splits)

lemma build_return_Inr [simp]: "build_return x = (out, Inr y) \<longleftrightarrow> out = [] \<and> x = y"
  by (auto simp: build_return_def)

lemma build_panic_Inr [simp]: "build_panic p \<noteq> (out, Inr y)"
  by (simp add: build_panic_def)

lemma build_require_Inr [simp]: "build_require c p = (out, Inr u) \<longleftrightarrow> c \<and> out = []"
  by (simp add: build_require_def)

lemma say_all_out [simp]: "say_all ts = (out, Inr u) \<longleftrightarrow> out = map Say ts"
  by (induction ts arbitrary: out) (auto simp: build_then_Inr say_def)

lemmas build_runs = build_then_Inr say_def Let_def

text \<open>An archive of that name is in the directory.\<close>

definition archive_in :: "build_env \<Rightarrow> str \<Rightarrow> str \<Rightarrow> bool" where
  "archive_in e dir lib \<longleftrightarrow>
     (\<exists>names name. be_dir e dir = Some names \<and> name \<in> set names \<and> extension name = Some ''a'' \<and> lib_stem name = Some lib)"

lemma present_archive: "lib \<in> set (present_lib_stems e dir) \<longleftrightarrow> archive_in e dir lib"
  by (cases "be_dir e dir") (auto simp: present_lib_stems_def archive_in_def split: option.splits if_splits, force)

lemma thin_one_stem:
  "thin_one e src arch out_dir name = (out, Inr (Some s, w)) \<Longrightarrow> extension name = Some ''a'' \<and> lib_stem name = Some s"
  by (auto simp: thin_one_def build_runs split: if_splits option.splits)

lemma thin_one_says: "thin_one e src arch out_dir name = (out, Inr r) \<Longrightarrow> Say (static_link lib) \<notin> set out"
  by (auto simp: thin_one_def build_runs static_link_def split: if_splits option.splits)

lemma thin_loop_present:
  "thin_loop e src arch out_dir names = (out, Inr (present, files)) \<Longrightarrow> lib \<in> set present \<Longrightarrow>
    \<exists>name \<in> set names. extension name = Some ''a'' \<and> lib_stem name = Some lib"
proof (induction names arbitrary: out present files)
  case (Cons name names)
  then obtain o1 stem w o2 ps fs where l: "thin_one e src arch out_dir name = (o1, Inr (stem, w))"
      "thin_loop e src arch out_dir names = (o2, Inr (ps, fs))" "present = (case stem of None \<Rightarrow> ps | Some s \<Rightarrow> s # ps)"
    by (fastforce simp: build_runs)
  then consider "stem = Some lib" | "lib \<in> set ps" using Cons.prems(2) by (auto split: option.splits)
  then show ?case
  proof cases
    case 1
    then show ?thesis using thin_one_stem l(1) by fastforce
  next
    case 2
    then show ?thesis using Cons.IH [OF l(2)] by auto
  qed
qed simp

lemma thin_loop_says: "thin_loop e src arch out_dir names = (out, Inr r) \<Longrightarrow> Say (static_link lib) \<notin> set out"
proof (induction names arbitrary: out r)
  case (Cons name names)
  then show ?case using thin_one_says by (fastforce simp: build_runs)
qed simp

lemma jami_lib_dir_present:
  assumes "jami_lib_dir e src = (out, Inr (dir, present, files))"
  shows "(present = None \<longleftrightarrow> be_os e \<notin> {''ios'', ''android''}) \<and>
    (\<forall>ps lib. present = Some ps \<longrightarrow> lib \<in> set ps \<longrightarrow> archive_in e src lib) \<and> Say (static_link l) \<notin> set out"
proof (cases "is_ios_simulator e")
  case True
  then obtain ps o1 arch out_dir where t: "thin_archives_for_arch e src arch out_dir = (o1, Inr (ps, files))"
      "present = Some ps" "out = o1"
    using assms by (fastforce simp: jami_lib_dir_def build_runs)
  then obtain names where n: "be_dir e src = Some names" "thin_loop e src arch out_dir names = (o1, Inr (ps, files))"
    by (auto simp: thin_archives_for_arch_def split: if_splits option.splits)
  then show ?thesis
    using t thin_loop_present [OF n(2)] thin_loop_says [OF n(2)] True
    by (auto simp: archive_in_def is_ios_simulator_def)
next
  case False
  then show ?thesis
    using assms by (auto simp: jami_lib_dir_def is_ios_device_def present_archive split: if_splits)
qed

lemma static_link_inj [simp]: "static_link a = static_link b \<longleftrightarrow> a = b"
  by (simp add: static_link_def)

lemma contrib_line_static:
  "static_link lib = contrib_line present l \<longleftrightarrow> lib = l \<and> (\<forall>ps. present = Some ps \<longrightarrow> lib \<in> set ps)"
proof -
  have "static_link lib \<noteq> ''cargo:warning=dropping -l'' @ t" for t by (simp add: static_link_def)
  then show ?thesis by (auto simp: contrib_line_def simp del: append_Cons split: option.split)
qed

lemma link_contrib_says:
  "link_contrib present libs = (out, Inr u) \<Longrightarrow>
    Say (static_link lib) \<in> set out \<longleftrightarrow> lib \<in> set libs \<and> (\<forall>ps. present = Some ps \<longrightarrow> lib \<in> set ps)"
  by (induction libs arbitrary: out) (auto simp: build_runs contrib_line_static)

lemma link_system_says: "link_system os = (out, Inr u) \<Longrightarrow> Say (static_link lib) \<notin> set out"
  by (auto simp: link_system_def static_link_def frameworks_def sys_libs_def split: if_splits)

lemma build_quickjs_says: "build_quickjs e = (out, Inr u) \<Longrightarrow> Say t \<notin> set out"
  by (auto simp: build_quickjs_def build_runs)

lemma link_carrier_says:
  "link_carrier e = (out, Inr u) \<Longrightarrow>
    be_exists e (carrier_lib e) \<and> (Say (static_link lib) \<in> set out \<longleftrightarrow> lib = ''carrier'')"
  by (auto simp: link_carrier_def build_runs static_link_def)

lemma jami_prefix_says: "jami_prefix e = (out, Inr d) \<Longrightarrow> out = []"
  by (auto simp: jami_prefix_def build_runs split: option.splits if_splits)

lemma link_jami_says:
  assumes "link_jami e = (out, Inr u)"
  shows "\<exists>d. snd (jami_prefix e) = Inr d \<and>
    (Say (static_link lib) \<in> set out \<longrightarrow> lib = ''jami-core'' \<or>
       lib \<in> set (contrib_static e) \<and> (be_os e \<in> {''ios'', ''android''} \<longrightarrow> archive_in e (path_join d ''lib'') lib)) \<and>
    (be_os e \<notin> {''ios'', ''android''} \<longrightarrow> lib \<in> set (contrib_static e) \<longrightarrow> Say (static_link lib) \<in> set out)"
proof -
  obtain o1 d o2 dir present files o3 where d: "jami_prefix e = (o1, Inr d)"
      "jami_lib_dir e (path_join d ''lib'') = (o2, Inr (dir, present, files))"
      "link_contrib present (contrib_static e) = (o3, Inr u)"
      "out = o1 @ o2 @ map Say [''cargo:rustc-link-search=native='' @ dir, static_link ''jami-core''] @ o3"
    using assms by (auto simp: link_jami_def build_runs)
  note p = jami_lib_dir_present [OF d(2)]
  have "static_link lib \<noteq> ''cargo:rustc-link-search=native='' @ dir" by (simp add: static_link_def)
  then have "Say (static_link lib) \<in> set out \<longleftrightarrow> lib = ''jami-core'' \<or> Say (static_link lib) \<in> set o3"
    using jami_prefix_says [OF d(1)] p by (auto simp: d(4) simp del: append_Cons)
  then show ?thesis
    using link_contrib_says [OF d(3), of lib] p d(1) by (cases present) auto
qed

section \<open>Property\<close>

text \<open>
  C40: a build that gets to its end has found the carrier library, and it links statically only that
  library, \<open>jami-core\<close> and archives of the list; for iOS and Android only those of which there is an
  archive in the directory of libjami, for any other target all of them.
\<close>

theorem build_links_what_is_there:
  assumes "build_main e = (out, Inr u)"
  shows "be_exists e (carrier_lib e) \<and> Say (static_link ''carrier'') \<in> set out \<and> (\<exists>d. snd (jami_prefix e) = Inr d \<and>
    (\<forall>lib. Say (static_link lib) \<in> set out \<longrightarrow> lib = ''carrier'' \<or> lib = ''jami-core'' \<or>
       lib \<in> set (contrib_static e) \<and> (be_os e \<in> {''ios'', ''android''} \<longrightarrow> archive_in e (path_join d ''lib'') lib)) \<and>
    (be_os e \<notin> {''ios'', ''android''} \<longrightarrow> (\<forall>lib \<in> set (contrib_static e). Say (static_link lib) \<in> set out)))"
proof -
  obtain o1 o2 o3 o4 u1 u2 u3 u4 where r: "build_quickjs e = (o1, Inr u1)" "link_carrier e = (o2, Inr u2)"
      "link_jami e = (o3, Inr u3)" "link_system (be_os e) = (o4, Inr u4)"
      "out = o1 @ o2 @ o3 @ o4 @ map Say (rerun_lines e)"
    using assms by (auto simp: build_main_def build_runs)
  have "static_link lib \<notin> set (rerun_lines e)" for lib by (auto simp: rerun_lines_def static_link_def)
  then have out: "Say (static_link lib) \<in> set out \<longleftrightarrow> lib = ''carrier'' \<or> Say (static_link lib) \<in> set o3" for lib
    using build_quickjs_says [OF r(1)] link_carrier_says [OF r(2)] link_system_says [OF r(4)] by (auto simp: r(5))
  obtain d where d: "snd (jami_prefix e) = Inr d" using link_jami_says [OF r(3)] by blast
  have j: "(Say (static_link lib) \<in> set o3 \<longrightarrow> lib = ''jami-core'' \<or>
       lib \<in> set (contrib_static e) \<and> (be_os e \<in> {''ios'', ''android''} \<longrightarrow> archive_in e (path_join d ''lib'') lib)) \<and>
    (be_os e \<notin> {''ios'', ''android''} \<longrightarrow> lib \<in> set (contrib_static e) \<longrightarrow> Say (static_link lib) \<in> set o3)" for lib
    using link_jami_says [OF r(3), of lib] d by (metis Inr_inject)
  show ?thesis
    unfolding out using link_carrier_says [OF r(2)] d j by blast
qed

text \<open>Linux, everything in place; and an iOS device without an archive of zlib.\<close>

definition sample_build :: "str \<Rightarrow> build_env" where
  "sample_build os = \<lparr>be_os = os, be_arch = ''aarch64'', be_abi = [], be_manifest_dir = ''/r'', be_out_dir = ''/o'',
     be_carrier_dir = None, be_jami_prefix = Some ''/j'', be_xdg_cache_home = None, be_home = None,
     be_uname = (\<lambda>_. ''x''), be_exists = (\<lambda>_. True), be_file = (\<lambda>_. Some ''1''),
     be_dir = (\<lambda>_. Some [''libgmp.a'', ''libjami-core.a'', ''README'']), be_mtime = (\<lambda>_. None), be_mkdir = (\<lambda>_. True),
     be_copy = (\<lambda>_ _. True), be_lipo_info = (\<lambda>_. None), be_lipo_thin = (\<lambda>_ _. None)\<rparr>"

theorem build_links_what_is_there_witness:
  "snd (build_main (sample_build ''linux'')) = Inr () \<and>
   Say (static_link ''z'') \<in> set (fst (build_main (sample_build ''linux''))) \<and>
   snd (build_main (sample_build ''ios'')) = Inr () \<and>
   Say (static_link ''z'') \<notin> set (fst (build_main (sample_build ''ios'')))"
proof -
  have ok: "snd (build_main (sample_build ''linux'')) = Inr ()" "snd (build_main (sample_build ''ios'')) = Inr ()"
    by code_simp+
  then have l: "build_main (sample_build ''linux'') = (fst (build_main (sample_build ''linux'')), Inr ())"
    and i: "build_main (sample_build ''ios'') = (fst (build_main (sample_build ''ios'')), Inr ())"
    by (metis prod.collapse)+
  have "\<not> archive_in (sample_build ''ios'') d ''z''" for d
    by (auto simp: archive_in_def sample_build_def lib_stem_def file_stem_def)
  moreover have "be_os (sample_build ''ios'') = ''ios''" "be_os (sample_build ''linux'') = ''linux''" "''z'' \<in> set (contrib_static (sample_build ''linux''))"
    by (simp_all add: sample_build_def contrib_static_def Let_def)
  ultimately show ?thesis
    using build_links_what_is_there [OF l] build_links_what_is_there [OF i] ok by fastforce
qed

end
