(* ===== verification/Trusted_Boot.thy ===== *)
theory Trusted_Boot
  imports Antenna
begin

text \<open>
  The scripts that a build without the feature \<open>peer-scripting\<close> runs, over the life of a store:
  \<^verbatim>\<open>src/lib.rs\<close> installs a pipeline, serves and is started again on the same store, and
  \<^verbatim>\<open>src/dag.rs\<close> then loads the script graph.  A program of the graph is a text of the installed
  pipeline, whatever RDF came in meanwhile; the routers of the graph have no such guard.
\<close>

section \<open>The life of a store\<close>

text \<open>
  A context whose store has had the pipeline \<open>ttl\<close> installed, over whatever it held before; has been served
  by ticks, with anything the threads of the scripts and the carrier library do between them; and has been opened
  again by a start without a pipeline.  No line of an application or a script is a SPARQL update.
\<close>

definition no_updates :: "str list \<Rightarrow> dag \<Rightarrow> bool" where
  "no_updates lines d \<longleftrightarrow> (\<forall>l \<in> set lines \<union> \<Union> (set ` er_rx ` set (dg_routes d)). \<not> updates_store l)"

inductive served :: "('s, 'c) env \<Rightarrow> str \<Rightarrow> ('s, 'c) antenna \<Rightarrow> bool" for env ttl where
  installed: "served env ttl a"
    if "load_texts (e_ox env) h (Some ttl) seed s = (an_store a, Inr ())"
| ticked: "served env ttl a'"
    if "served env ttl a" "no_updates lines (an_dag a)" "tick env h lines a = Some (a', r)"
| outside: "served env ttl (a\<lparr>an_dag := d, an_client := cl\<rparr>)"
    if "served env ttl a"
| reopened: "served env ttl a'"
    if "served env ttl a" "load_texts (e_ox env) h None seed (an_store a) = (an_store a', Inr ())"

section \<open>What a start leaves in the trusted graph\<close>

abbreviation trusted :: "('s \<Rightarrow> str option \<Rightarrow> 't set) \<Rightarrow> 's \<Rightarrow> 't set" where
  "trusted graph s \<equiv> graph s (Some trusted_pipeline_graph)"

lemma graphs_differ: "theme_graph \<noteq> trusted_pipeline_graph"
  by (simp add: theme_graph_def trusted_pipeline_graph_def)

lemma graph_clear_other:
  "graph_laws ox reads graph \<Longrightarrow> g' \<noteq> g \<Longrightarrow> graph (fst (clear_graph ox s g)) (Some g') = graph s (Some g')"
  using graph_laws_clear [of ox reads graph s g]
  by (auto simp: clear_graph_def split: sum.splits prod.splits)

lemma insert_to_graph_other:
  "graph_laws ox reads graph \<Longrightarrow> g' \<noteq> g \<Longrightarrow> graph (fst (insert_turtle_to_graph ox s t g)) (Some g') = graph s (Some g')"
  using graph_load_other [of ox reads graph "Some g'" "Some g" s "insert_doc t"]
  by (simp add: insert_turtle_to_graph_def split: sum.split)

lemma load_bundle_other:
  assumes "graph_laws ox reads graph" "g \<noteq> theme_graph"
  shows "load_bundle ox ttls s = (s', Inr ()) \<Longrightarrow> graph s' (Some g) = graph s (Some g)"
proof (induction ttls arbitrary: s)
  case (Cons t ttls)
  then obtain s1 u where s1: "insert_turtle_to_graph ox s t theme_graph = (s1, Inr u)" "load_bundle ox ttls s1 = (s', Inr ())"
    by (auto dest: then_do_Inr)
  show ?case using Cons.IH [OF s1(2)] insert_to_graph_other [OF assms, of s t] s1(1) by simp
qed simp

text \<open>The texts of a start: a pipeline becomes what the trusted graph holds, without one it stays as it is.\<close>

lemma load_texts_trusted:
  assumes laws: "graph_laws ox reads graph" and load: "load_texts ox h pipeline seed s = (s', Inr ())"
  shows "case pipeline of
      None \<Rightarrow> trusted graph s' = trusted graph s
    | Some ttl \<Rightarrow> trusted graph s' \<in> reads (insert_doc ttl)"
proof -
  note other = graphs_differ [symmetric]
  obtain s1 s2 s3 s4 s5 and u1 u2 u3 u4 u5 :: unit where st:
    "clear_graph ox s theme_graph = (s1, Inr u1)" "load_bundle ox (h_design_bundle h) s1 = (s2, Inr u2)"
    "load_resolver_str ox s2 (h_resolver h) = (s3, Inr u3)" "insert_turtle ox s3 (h_emoji h) = (s4, Inr u4)"
    "when_given pipeline (replace_pipeline ox) s4 = (s5, Inr u5)"
    "when_given seed (\<lambda>ttl s. insert_turtle ox s ttl) s5 = (s', Inr ())"
    using load unfolding load_texts_def by (auto dest!: then_do_Inr)
  have "trusted graph s1 = trusted graph s" using graph_clear_other [OF laws other, of s] st(1) by simp
  moreover have "trusted graph s2 = trusted graph s1" using load_bundle_other [OF laws other] st(2) by simp
  moreover have "trusted graph s3 = trusted graph s2"
    using insert_to_graph_other [OF laws other, of s2 "h_resolver h"] st(3) by (simp add: load_resolver_str_def)
  moreover have "trusted graph s4 = trusted graph s3" using insert_turtle_named [OF laws, of s3 "h_emoji h"] st(4) by simp
  moreover have "trusted graph s' = trusted graph s5"
  proof (cases seed)
    case (Some t)
    then show ?thesis using insert_turtle_named [OF laws, of s5 t trusted_pipeline_graph] st(6) by (simp add: when_given_def)
  qed (use st(6) in \<open>simp add: when_given_def\<close>)
  ultimately show ?thesis
    using st(5) replace_pipeline_graphs(1) [OF laws, of _ s4 s5] by (auto simp: when_given_def split: option.splits)
qed

section \<open>A tick leaves the trusted graph alone\<close>

text \<open>Steps that leave the named graphs and the pending emits as they are.\<close>

definition undisturbed :: "('s \<Rightarrow> str option \<Rightarrow> 't set) \<Rightarrow> ('s, 'c) antenna \<Rightarrow> ('s, 'c) antenna \<Rightarrow> bool" where
  "undisturbed graph a a' \<longleftrightarrow>
     (\<forall>g. graph (an_store a') (Some g) = graph (an_store a) (Some g)) \<and> dg_routes (an_dag a') = dg_routes (an_dag a)"

lemma undisturbed_refl [simp]: "undisturbed graph a a"
  by (simp add: undisturbed_def)

lemma undisturbed_trans: "undisturbed graph a b \<Longrightarrow> undisturbed graph b c \<Longrightarrow> undisturbed graph a c"
  by (simp add: undisturbed_def)

lemma an_dispatch_undisturbed:
  assumes "graph_laws (e_ox env) reads graph" "\<not> updates_store line" "an_dispatch env acct line a = Some a'"
  shows "undisturbed graph a a'"
proof -
  obtain w where w: "dispatch env line acct (an_world a) = Some w" "a' = put_world w a"
    using assms(3) by (auto simp: an_dispatch_def)
  show ?thesis
    using dispatch_named [OF assms(1) w(1) assms(2)] dispatch_extends [OF w(1)]
    by (simp add: undisturbed_def w(2) put_world_def extends_def) (simp add: an_world_def)
qed

lemma dispatch_all_undisturbed:
  assumes "graph_laws (e_ox env) reads graph"
  shows "\<forall>l \<in> set lines. \<not> updates_store l \<Longrightarrow> dispatch_all env acct lines a = Some a' \<Longrightarrow> undisturbed graph a a'"
proof (induction lines arbitrary: a)
  case (Cons line lines)
  then obtain b where b: "an_dispatch env acct line a = Some b" "dispatch_all env acct lines b = Some a'"
    by (auto simp: bind_eq_Some_conv)
  show ?case
    using an_dispatch_undisturbed [OF assms _ b(1)] Cons.IH [OF _ b(2)] Cons.prems(1) by (auto intro: undisturbed_trans)
qed simp

lemma publish_undisturbed: "graph_laws (e_ox env) reads graph \<Longrightarrow> undisturbed graph a (publish env turtle a)"
  by (simp add: undisturbed_def publish_def insert_turtle_named before_insert_def after_insert_def)

lemma resolve_request_no_update: "\<not> updates_store resolve_request"
  by code_simp

lemma startup_undisturbed:
  assumes "graph_laws (e_ox env) reads graph" "startup env a = Some a'"
  shows "undisturbed graph a a'"
proof (cases "an_started a")
  case False
  then obtain b where b: "an_dispatch env (an_account a) resolve_request (a\<lparr>an_started := True\<rparr>) = Some b"
      "undisturbed graph b a'"
    using assms(2) by (fastforce simp: startup_def undisturbed_def split: option.split)
  have "undisturbed graph a b"
    using an_dispatch_undisturbed [OF assms(1) resolve_request_no_update b(1)] by (simp add: undisturbed_def)
  then show ?thesis using b(2) by (rule undisturbed_trans)
qed (use assms in \<open>simp add: startup_def\<close>)

lemma before_iterate_undisturbed:
  assumes "graph_laws (e_ox env) reads graph"
  shows "undisturbed graph a (before_iterate env a)"
proof -
  have "undisturbed graph a (announce env a)"
    using publish_undisturbed [OF assms] by (fastforce simp: announce_def undisturbed_def split: option.split)
  then show ?thesis by (simp add: before_iterate_def broadcast_clock_def undisturbed_def)
qed

lemma drain_events_undisturbed:
  assumes "graph_laws (e_ox env) reads graph"
  shows "undisturbed graph a (drain_events env a)"
  using assms
proof (induction env a rule: drain_events.induct)
  case (1 env a)
  show ?case
  proof (cases "pop_event a")
    case None
    then show ?thesis by (simp add: drain_events.simps [of env a])
  next
    case (Some x)
    obtain turtle b where x: "x = (turtle, b)" by force
    have "undisturbed graph a b"
      using Some x by (auto simp: pop_event_def undisturbed_def split: list.splits)
    moreover have "undisturbed graph b (on_event env turtle b)"
      using publish_undisturbed [OF "1.prems"] by (simp add: on_event_def undisturbed_def account_ready_def Let_def split_beta)
    moreover note "1.IH" [OF Some x [symmetric] "1.prems"]
    ultimately show ?thesis
      using Some x by (auto simp: drain_events.simps [of env a] intro: undisturbed_trans)
  qed
qed

lemma pump_trusted:
  assumes laws: "graph_laws (e_ox env) reads graph" and calm: "no_updates lines (an_dag a)"
    and p: "pump env acct lines a = Some a'"
  shows "trusted graph (an_store a') = trusted graph (an_store a)"
proof -
  obtain b where b: "dispatch_all env acct (filter (\<lambda>l. l \<noteq> []) lines) a = Some b"
    using p by (auto simp: pump_def bind_eq_Some_conv)
  let ?d = "pump_queries (e_ox env) (an_store b) (an_dag b)"
  obtain c where c: "dispatch_all env acct (snd (pump_emits ?d)) (b\<lparr>an_dag := fst (pump_emits ?d)\<rparr>) = Some c"
    and a': "a' = c\<lparr>an_dag := fst (health_check (an_dag c))\<rparr>"
    using p b by (auto simp: pump_def Let_def split_beta)
  have ab: "undisturbed graph a b" using dispatch_all_undisturbed [OF laws _ b] calm by (simp add: no_updates_def)
  then have "snd (pump_emits ?d) = concat (map er_rx (dg_routes (an_dag a)))"
    by (simp add: pump_emits_def pump_queries_def undisturbed_def Let_def)
  then have "\<forall>l \<in> set (snd (pump_emits ?d)). \<not> updates_store l" using calm by (auto simp: no_updates_def)
  from dispatch_all_undisturbed [OF laws this c] show ?thesis using ab by (simp add: undisturbed_def a')
qed

lemma tick_trusted:
  assumes laws: "graph_laws (e_ox env) reads graph" and calm: "no_updates lines (an_dag a)"
    and t: "tick env h lines a = Some (a', r)"
  shows "trusted graph (an_store a') = trusted graph (an_store a)"
proof -
  obtain b cl and x :: "str + unit" where b: "startup env a = Some b" and x: "case x of
      Inl e \<Rightarrow> a' = (before_iterate env b)\<lparr>an_client := cl\<rparr> \<and> r = Inl e
    | Inr _ \<Rightarrow> r = Inr () \<and> pump env (an_account (after_iterate env b cl)) lines (after_iterate env b cl) = Some a'"
    using t unfolding tick_stages by blast
  note ab = undisturbed_trans [OF startup_undisturbed [OF laws b] before_iterate_undisturbed [OF laws]]
  show ?thesis
  proof (cases x)
    case (Inl e)
    then show ?thesis using ab x by (simp add: undisturbed_def)
  next
    case (Inr u)
    have ac: "undisturbed graph a (after_iterate env b cl)"
      using ab drain_events_undisturbed [OF laws, of "(before_iterate env b)\<lparr>an_client := cl\<rparr>"]
      by (simp add: undisturbed_def after_iterate_def)
    then have "no_updates lines (an_dag (after_iterate env b cl))" using calm by (simp add: no_updates_def undisturbed_def)
    then show ?thesis using pump_trusted [OF laws] x Inr ac by (fastforce simp: undisturbed_def)
  qed
qed

lemma served_trusted:
  assumes "graph_laws (e_ox env) reads graph"
  shows "served env ttl a \<Longrightarrow> trusted graph (an_store a) \<in> reads (insert_doc ttl)"
proof (induction rule: served.induct)
  case (installed h seed s a)
  then show ?case using load_texts_trusted [OF assms] by fastforce
next
  case (ticked a lines h a' r)
  then show ?case using tick_trusted [OF assms] by fastforce
next
  case (reopened a h seed a')
  then show ?case using load_texts_trusted [OF assms] by fastforce
qed simp

section \<open>From the rows of the query to the threads\<close>

text \<open>The scripts of a graph: the identifier and the text of each node thread.\<close>

definition graph_scripts :: "dag \<Rightarrow> (str \<times> str) list" where
  "graph_scripts d = concat (map (\<lambda>(_, t). case t of Node_thread uri body boxes \<Rightarrow> [(uri, body)] | _ \<Rightarrow> []) (dg_threads d))"

abbreviation node_script :: "node_def \<Rightarrow> str \<times> str" where
  "node_script nd \<equiv> (nd_uri nd, nd_body nd)"

definition row_script :: "solution \<Rightarrow> str \<times> str" where
  "row_script row = (term_to_string (solution_get row ''node''), term_to_string (solution_get row ''body''))"

lemma spawn_nodes_scripts:
  "spawn_nodes spawns pending d = Inr d' \<Longrightarrow> graph_scripts d' = graph_scripts d @ map (node_script \<circ> fst) pending"
proof (induction spawns pending d rule: spawn_nodes.induct)
  case (2 spawns nd boxes pending d)
  then obtain d1 where r: "spawn spawns (''node:'' @ short_uri (nd_uri nd)) (Node_thread (nd_uri nd) (nd_body nd) boxes)
      (nd_outs nd) d = Inr d1" "spawn_nodes spawns pending d1 = Inr d'"
    by (auto simp: and_then_Inr_iff)
  show ?case using spawn_step [OF r(1)] "2.IH" [OF r(2)] by (simp add: graph_scripts_def)
qed simp

lemma add_routers_scripts:
  "add_routers clocks spawns backend plat routers d = Inr d' \<Longrightarrow> graph_scripts d' = graph_scripts d"
proof (induction routers arbitrary: d)
  case (Cons rd rds)
  obtain d1 a d2 b d3 where r: "new_ring clocks d = Inr (d1, a)" "new_ring clocks d1 = Inr (d2, b)"
      "spawn spawns (''router:'' @ short_uri (rd_uri rd))
         (Router_thread (rd_uri rd) a b (platform_channels plat rd) rd) (rd_outs rd)
         (subscribe (rd_in_b rd) b (subscribe (rd_in_a rd) a d2)) = Inr d3"
      "add_routers clocks spawns backend plat rds d3 = Inr d'"
    using Cons.prems by (auto simp: and_then_Inr_iff)
  have "graph_scripts d3 = graph_scripts d"
    using spawn_step [OF r(3)] new_ring_step [OF r(1)] new_ring_step [OF r(2)] by (simp add: graph_scripts_def)
  moreover have "graph_scripts d' = graph_scripts d3" by (rule Cons.IH [OF r(4)])
  ultimately show ?case by simp
qed simp

lemma build_dag_scripts:
  assumes "build_dag clocks spawns backend nodes routers = Inr d"
  shows "graph_scripts d = map node_script nodes"
proof (cases "nodes = [] \<and> routers = []")
  case True
  then show ?thesis using assms by (auto simp: build_dag_def graph_scripts_def empty_dag_def)
next
  case False
  then obtain d1 p d2 d3 plat where r: "add_nodes clocks nodes empty_dag = Inr (d1, p)" "spawn_nodes spawns p d1 = Inr d2"
      "add_platform clocks d2 = Inr (d3, plat)" "add_routers clocks spawns backend plat routers d3 = Inr d"
    using assms by (auto simp: build_dag_def and_then_Inr_iff)
  have "graph_scripts d1 = []" "map fst p = nodes"
    using add_nodes_grows [OF r(1)] by (simp_all add: graph_scripts_def empty_dag_def)
  moreover have "graph_scripts d3 = graph_scripts d2" using add_platform_grows [OF r(3)] by (simp add: graph_scripts_def)
  ultimately show ?thesis
    using spawn_nodes_scripts [OF r(2)] add_routers_scripts [OF r(4)] by (metis append_Nil map_map)
qed

lemma node_rows_scripts:
  "node_script ` set (fold node_row rows nodes) \<subseteq> node_script ` set nodes \<union> row_script ` set rows"
proof (induction rows arbitrary: nodes)
  case (Cons row rows)
  have "\<forall>d \<in> set (node_row row nodes). node_script d \<in> insert (row_script row) (node_script ` set nodes)"
    unfolding node_row_def Let_def by (rule upsert_all) (auto simp: row_script_def)
  then have "node_script ` set (node_row row nodes) \<subseteq> insert (row_script row) (node_script ` set nodes)"
    by (simp only: image_subset_iff)
  from Un_mono [OF this subset_refl [of "row_script ` set rows"]]
  have "node_script ` set (fold node_row rows (node_row row nodes))
      \<subseteq> insert (row_script row) (node_script ` set nodes) \<union> row_script ` set rows"
    by (rule order_trans [OF Cons.IH])
  then show ?case by simp
qed simp

lemma dag_load_scripts:
  assumes "dag_load ox peer_scripting order order' clocks spawns backend s = Inr d" "\<forall>ns. set (order ns) \<subseteq> set ns"
  shows "set (graph_scripts d) \<subseteq> {row_script row | row sols.
    ox_query ox s (script_nodes_query peer_scripting) = Inr (Solutions sols) \<and> Inr row \<in> set sols}"
proof -
  obtain nodes routers where l: "query_script_nodes ox peer_scripting order s = Inr nodes"
      "build_dag clocks spawns backend nodes routers = Inr d"
    using assms(1) by (auto simp: dag_load_def and_then_Inr_iff)
  have "order [] = []" using assms(2) by (metis empty_subsetI set_empty subset_antisym)
  then consider "nodes = []" | sols rows where "ox_query ox s (script_nodes_query peer_scripting) = Inr (Solutions sols)"
      "sols = map Inr rows" "nodes = order (fold node_row rows [])"
  proof -
    obtain results where "ox_query ox s (script_nodes_query peer_scripting) = Inr results"
      using l(1) by (auto simp: query_script_nodes_def store_query_def and_then_Inr_iff)
    then show thesis
      using l(1) that \<open>order [] = []\<close>
      by (cases results) (auto simp: query_script_nodes_def store_query_def and_then_Inr_iff all_rows_Inr)
  qed
  then show ?thesis
  proof cases
    case 2
    have "set nodes \<subseteq> set (fold node_row rows [])" using 2(3) assms(2) by simp
    then have "node_script ` set nodes \<subseteq> row_script ` set rows" using node_rows_scripts [of rows "[]"] by auto
    then have "set (graph_scripts d) \<subseteq> row_script ` set rows" by (simp add: build_dag_scripts [OF l(2)])
    moreover have "\<exists>sols. ox_query ox s (script_nodes_query peer_scripting) = Inr (Solutions sols) \<and> Inr row \<in> set sols"
      if "row \<in> set rows" for row using 2(1,2) that by auto
    ultimately show ?thesis by blast
  qed (simp add: build_dag_scripts [OF l(2)])
qed

section \<open>For the examples\<close>

text \<open>
  A store that keeps the list of the documents of each graph; the query of the script nodes finds a node for each
  document of the trusted graph, the query of the routers a router for each of the default graph.
\<close>

definition doc_row :: "str \<Rightarrow> solution" where
  "doc_row doc = [(''node'', Named_node doc), (''body'', Literal_term doc)]"

definition gated_store :: "(str option \<Rightarrow> str list) oxigraph" where
  "gated_store =
     \<lparr>ox_open = (\<lambda>_. Inr (\<lambda>_. [])), ox_iri = (\<lambda>_. Inr ()), ox_load = (\<lambda>s doc g. (s(g := doc # s g), Inr ())),
      ox_clear = (\<lambda>s g. (s(Some g := []), Inr ())),
      ox_query = (\<lambda>s q. Inr (Solutions (map (Inr \<circ> doc_row)
        (if q = script_nodes_query False then s (Some trusted_pipeline_graph)
         else if q = semantic_routers_query then s None else [])))),
      ox_update = (\<lambda>s _. (s, Inr ())), ox_show = term_text\<rparr>"

definition gated_env :: "(str option \<Rightarrow> str list, nat) env" where
  "gated_env = \<lparr>e_ox = gated_store, e_crypto = sample_crypto, e_lib = sample_lib\<rparr>"

definition gated_antenna :: "'s \<Rightarrow> ('s, nat) antenna" where
  "gated_antenna s = \<lparr>an_store = s, an_dag = empty_dag, an_client = sample_client, an_account = ''me'',
     an_bootstrap = None, an_pending_load = None, an_started = False, an_out = []\<rparr>"

definition gated_load :: "(str option \<Rightarrow> str list) \<Rightarrow> str + dag" where
  "gated_load s = dag_load gated_store False id id (\<lambda>n. clock_new_linux (int n)) (\<lambda>_. True) (\<lambda>_. Inr ()) s"

lemma gated_laws: "graph_laws gated_store (\<lambda>doc. {{doc}}) (\<lambda>s g. set (s g))"
  by (auto simp: graph_laws_def gated_store_def fun_eq_iff)

lemma gated_parents: "finite_parents gated_store"
proof -
  have "parent_of gated_store s x = Inr None" for s x
    by (auto simp: parent_of_def first_binding_def store_query_def gated_store_def doc_row_def solution_get_def
        split: list.split)
  then show ?thesis by (simp add: finite_parents_def finite_themesI)
qed

lemma gated_texts: "\<exists>s'. load_texts gated_store sample_host pipeline seed s = (s', Inr ())"
  by (cases pipeline; cases seed)
    (simp_all add: load_texts_def clear_graph_def sample_host_def load_resolver_str_def insert_turtle_to_graph_def
      insert_turtle_def when_given_def replace_pipeline_def store_update_def gated_store_def)

text \<open>With clocks and threads to be had, a graph is built from any definitions.\<close>

lemma new_ring_linux: "\<exists>d' n'. new_ring (\<lambda>n. clock_new_linux (int n)) d = Inr (d', n')"
  by (simp add: new_ring_def channel_new_def clock_new_linux_def Let_def)

lemma add_inboxes_linux: "\<exists>d' boxes. add_inboxes (\<lambda>n. clock_new_linux (int n)) uris d = Inr (d', boxes)"
proof (induction uris arbitrary: d)
  case (Cons uri uris)
  obtain d1 n where "new_ring (\<lambda>n. clock_new_linux (int n)) d = Inr (d1, n)" using new_ring_linux by blast
  then show ?case using Cons.IH [of "subscribe uri n d1"] by auto
qed simp

lemma add_nodes_linux: "\<exists>d' pending. add_nodes (\<lambda>n. clock_new_linux (int n)) nodes d = Inr (d', pending)"
proof (induction nodes arbitrary: d)
  case (Cons nd nodes)
  obtain d1 boxes where "add_inboxes (\<lambda>n. clock_new_linux (int n)) (nd_ins nd) d = Inr (d1, boxes)"
    using add_inboxes_linux by blast
  then show ?case using Cons.IH [of d1] by auto
qed simp

lemma spawn_nodes_all: "\<exists>d'. spawn_nodes (\<lambda>_. True) pending d = Inr d'"
  by (induction "\<lambda>_ :: nat. True" pending d rule: spawn_nodes.induct) (simp_all add: spawn_def)

lemma add_routers_linux: "\<exists>d'. add_routers (\<lambda>n. clock_new_linux (int n)) (\<lambda>_. True) (\<lambda>_. Inr ()) plat routers d = Inr d'"
proof (induction routers arbitrary: d)
  case (Cons rd routers)
  obtain d1 a where a: "new_ring (\<lambda>n. clock_new_linux (int n)) d = Inr (d1, a)" using new_ring_linux by blast
  moreover obtain d2 b where "new_ring (\<lambda>n. clock_new_linux (int n)) d1 = Inr (d2, b)" using new_ring_linux by blast
  ultimately show ?case using Cons.IH by (simp add: spawn_def)
qed simp

lemma build_dag_linux:
  "\<exists>d. build_dag (\<lambda>n. clock_new_linux (int n)) (\<lambda>_. True) (\<lambda>_. Inr ()) nodes routers = Inr d"
proof -
  obtain d1 p where 1: "add_nodes (\<lambda>n. clock_new_linux (int n)) nodes empty_dag = Inr (d1, p)" using add_nodes_linux by blast
  obtain d2 where 2: "spawn_nodes (\<lambda>_. True) p d1 = Inr d2" using spawn_nodes_all by blast
  obtain d3 a where 3: "new_ring (\<lambda>n. clock_new_linux (int n)) d2 = Inr (d3, a)" using new_ring_linux by blast
  obtain d4 b where 4: "new_ring (\<lambda>n. clock_new_linux (int n)) d3 = Inr (d4, b)" using new_ring_linux by blast
  show ?thesis using 1 2 3 4 add_routers_linux by (simp add: build_dag_def add_platform_def)
qed

text \<open>
  A life: a pipeline is installed over hostile texts in both graphs, another one comes in as a line, and the
  store is opened again.
\<close>

definition hostile :: str where
  "hostile = ''<urn:peer:node> a antenna:ScriptNode .''"

lemma gated_life:
  obtains a where "served gated_env ''<a> <b> <c> .'' a"
proof -
  obtain s1 where s1: "load_texts gated_store sample_host (Some ''<a> <b> <c> .'') None (\<lambda>_. [hostile]) = (s1, Inr ())"
    using gated_texts by blast
  have a0: "served gated_env ''<a> <b> <c> .'' (gated_antenna s1)"
    using s1 by (intro installed [where seed = None]) (simp add: gated_env_def gated_antenna_def)
  have "\<not> updates_store hostile" by code_simp
  then have calm: "no_updates [hostile] (an_dag (gated_antenna s1))"
    by (simp add: no_updates_def gated_antenna_def empty_dag_def)
  have "finite_parents (e_ox gated_env)" "\<not> h_debug_build sample_host"
    using gated_parents by (simp_all add: gated_env_def sample_host_def)
  from tick_total [OF this, of "gated_antenna s1" "[hostile]"]
  obtain a1 r where "tick gated_env sample_host [hostile] (gated_antenna s1) = Some (a1, r)" by blast
  then have a1: "served gated_env ''<a> <b> <c> .'' a1" by (rule ticked [OF a0 calm])
  obtain s2 where s2: "load_texts gated_store sample_host None None (an_store a1) = (s2, Inr ())"
    using gated_texts by blast
  have "served gated_env ''<a> <b> <c> .'' (gated_antenna s2)"
    using s2 by (intro reopened [OF a1, where seed = None]) (simp add: gated_env_def gated_antenna_def)
  then show thesis by (rule that)
qed

lemma gated_all_rows: "all_rows (map (Inr \<circ> doc_row) docs) = Inr (map doc_row docs)"
  by (simp add: all_rows_Inr)

lemma gated_graph:
  "\<exists>d. gated_load s = Inr d \<and> graph_scripts d = map node_script (fold node_row (map doc_row (s (Some trusted_pipeline_graph))) []) \<and>
    build_dag (\<lambda>n. clock_new_linux (int n)) (\<lambda>_. True) (\<lambda>_. Inr ())
      (fold node_row (map doc_row (s (Some trusted_pipeline_graph))) []) (fold router_row (map doc_row (s None)) []) = Inr d"
proof -
  have "semantic_routers_query \<noteq> script_nodes_query False"
    by (simp add: semantic_routers_query_def script_nodes_query_def)
  then have l: "gated_load s = build_dag (\<lambda>n. clock_new_linux (int n)) (\<lambda>_. True) (\<lambda>_. Inr ())
      (fold node_row (map doc_row (s (Some trusted_pipeline_graph))) []) (fold router_row (map doc_row (s None)) [])"
    by (simp add: gated_load_def dag_load_def query_script_nodes_def query_semantic_routers_def store_query_def
        gated_store_def gated_all_rows)
  obtain d where d: "build_dag (\<lambda>n. clock_new_linux (int n)) (\<lambda>_. True) (\<lambda>_. Inr ())
      (fold node_row (map doc_row (s (Some trusted_pipeline_graph))) []) (fold router_row (map doc_row (s None)) []) = Inr d"
    using build_dag_linux by blast
  then show ?thesis using l build_dag_scripts [OF d] by simp
qed

lemma upsert_nonempty: "upsert key new f ds \<noteq> []"
  by (cases ds) simp_all

lemma node_rows_nonempty: "rows \<noteq> [] \<or> ds \<noteq> [] \<Longrightarrow> fold node_row rows ds \<noteq> []"
  by (induction rows arbitrary: ds) (simp_all add: node_row_def upsert_nonempty Let_def)

section \<open>Properties\<close>

text \<open>
  C3: in a build without the feature \<open>peer-scripting\<close>, over the whole life of a store since a pipeline was
  installed, whatever it held before, whatever lines and events came in since and however often it was
  opened again, every script of the graph that is then loaded is one that the query finds in a reading of that
  pipeline, as long as no line is a SPARQL update.
\<close>

theorem only_pipeline_scripts_run:
  assumes "graph_laws (e_ox env) reads graph"
    and "\<forall>s sols row. ox_query (e_ox env) s (script_nodes_query False) = Inr (Solutions sols) \<longrightarrow> Inr row \<in> set sols \<longrightarrow>
       row \<in> matches (graph s (Some trusted_pipeline_graph))"
    and "served env ttl a" "\<forall>ns. set (order ns) \<subseteq> set ns"
    and "dag_load (e_ox env) False order order' clocks spawns backend (an_store a) = Inr d"
  shows "\<exists>ts \<in> reads (insert_doc ttl). set (graph_scripts d) \<subseteq> row_script ` matches ts"
proof
  show "trusted graph (an_store a) \<in> reads (insert_doc ttl)" by (rule served_trusted [OF assms(1,3)])
  show "set (graph_scripts d) \<subseteq> row_script ` matches (trusted graph (an_store a))"
    using dag_load_scripts [OF assms(5,4)] assms(2) by blast
qed

theorem only_pipeline_scripts_run_witness:
  "\<exists>a d. served gated_env ''<a> <b> <c> .'' a \<and> gated_load (an_store a) = Inr d \<and>
     set (graph_scripts d) = {(insert_doc ''<a> <b> <c> .'', insert_doc ''<a> <b> <c> .'')}"
proof -
  obtain a where a: "served gated_env ''<a> <b> <c> .'' a" by (rule gated_life)
  obtain d where d: "gated_load (an_store a) = Inr d" "graph_scripts d = map node_script
      (fold node_row (map doc_row (an_store a (Some trusted_pipeline_graph))) [])" using gated_graph by blast
  have laws: "graph_laws (e_ox gated_env) (\<lambda>doc. {{doc}}) (\<lambda>s g. set (s g))" using gated_laws by (simp add: gated_env_def)
  have "set (an_store a (Some trusted_pipeline_graph)) \<noteq> {}" using served_trusted [OF laws a] by simp
  then have some: "graph_scripts d \<noteq> []" unfolding d(2) using node_rows_nonempty by simp
  have "\<forall>s sols row. ox_query (e_ox gated_env) s (script_nodes_query False) = Inr (Solutions sols) \<longrightarrow>
      Inr row \<in> set sols \<longrightarrow> row \<in> doc_row ` set (s (Some trusted_pipeline_graph))"
    by (auto simp: gated_env_def gated_store_def)
  moreover have "dag_load (e_ox gated_env) False id id (\<lambda>n. clock_new_linux (int n)) (\<lambda>_. True) (\<lambda>_. Inr ()) (an_store a) = Inr d"
    using d(1) by (simp add: gated_load_def gated_env_def)
  ultimately have "\<exists>ts \<in> {{insert_doc ''<a> <b> <c> .''}}. set (graph_scripts d) \<subseteq> row_script ` image doc_row ts"
    using only_pipeline_scripts_run [of gated_env "\<lambda>doc. {{doc}}" "\<lambda>s g. set (s g)" "image doc_row"
      "''<a> <b> <c> .''" a id] a laws by simp
  then have "set (graph_scripts d) \<subseteq> {(insert_doc ''<a> <b> <c> .'', insert_doc ''<a> <b> <c> .'')}"
    by (simp add: row_script_def doc_row_def solution_get_def term_to_string_def)
  then have "set (graph_scripts d) = {(insert_doc ''<a> <b> <c> .'', insert_doc ''<a> <b> <c> .'')}"
    using some by (metis set_empty subset_singletonD)
  then show ?thesis using a d(1) by blast
qed

section \<open>Routers have no such guard\<close>

lemma upsert_has: "\<exists>d \<in> set (upsert key new f ds). d = f new \<or> (\<exists>e. key e \<and> d = f e)"
  by (induction ds) auto

lemma upsert_keeps:
  assumes "\<And>d. g (f d) = g d" "x \<in> g ` set ds"
  shows "x \<in> g ` set (upsert key new f ds)"
  using assms(2) by (induction ds) (auto simp: assms(1))

lemma router_row_uri: "term_to_string (solution_get row ''node'') \<in> rd_uri ` set (router_row row ds)"
proof -
  obtain new f where r: "router_row row ds = upsert (\<lambda>d. rd_uri d = term_to_string (solution_get row ''node'')) new f ds"
      "rd_uri new = term_to_string (solution_get row ''node'')" "\<And>d. rd_uri (f d) = rd_uri d"
    by (simp add: router_row_def Let_def that)
  show ?thesis
    using upsert_has [of "\<lambda>d. rd_uri d = term_to_string (solution_get row ''node'')" new f ds] r(2,3)
    unfolding r(1) by (metis image_eqI)
qed

lemma router_row_keeps: "x \<in> rd_uri ` set ds \<Longrightarrow> x \<in> rd_uri ` set (router_row row ds)"
  unfolding router_row_def Let_def by (rule upsert_keeps) simp_all

lemma router_rows_uris:
  "row \<in> set rows \<Longrightarrow> term_to_string (solution_get row ''node'') \<in> rd_uri ` set (fold router_row rows ds)"
proof -
  have keep: "x \<in> rd_uri ` set ds \<Longrightarrow> x \<in> rd_uri ` set (fold router_row rows ds)" for x rows ds
    by (induction rows arbitrary: ds) (simp_all add: router_row_keeps)
  show "row \<in> set rows \<Longrightarrow> ?thesis"
    by (induction rows arbitrary: ds) (auto simp: keep router_row_uri)
qed

lemma add_routers_threads:
  assumes "add_routers clocks spawns backend plat routers d = Inr d'" "rd \<in> set routers"
  shows "\<exists>name n m p. (name, Router_thread (rd_uri rd) n m p rd) \<in> set (dg_threads d')"
proof -
  obtain us where threads: "dg_threads d' = dg_threads d @ us" and "list_all2 (router_thread plat) routers us"
    using add_routers_grows [OF assms(1)] by blast
  moreover obtain i where i: "i < length routers" "routers ! i = rd" using assms(2) by (auto simp: in_set_conv_nth)
  ultimately have "us ! i \<in> set us" "router_thread plat rd (us ! i)" by (auto simp: list_all2_conv_all_nth)
  then obtain a b where "(''router:'' @ short_uri (rd_uri rd), Router_thread (rd_uri rd) a b (platform_channels plat rd) rd) \<in> set us"
    unfolding router_thread_def by metis
  then have "(''router:'' @ short_uri (rd_uri rd), Router_thread (rd_uri rd) a b (platform_channels plat rd) rd) \<in> set (dg_threads d')"
    by (simp only: threads set_append UnI2)
  then show ?thesis by blast
qed

text \<open>
  C29: the guard does not cover routers: in every build, also one without \<open>peer-scripting\<close>, each router that the
  unrestricted query finds becomes a thread of the graph that is loaded.
\<close>

theorem routers_are_not_gated:
  assumes "dag_load ox peer_scripting order order' clocks spawns backend s = Inr d" "\<forall>rs. set rs \<subseteq> set (order' rs)"
    and "ox_query ox s semantic_routers_query = Inr (Solutions sols)" "Inr row \<in> set sols"
  shows "\<exists>name n m p rd. (name, Router_thread (term_to_string (solution_get row ''node'')) n m p rd) \<in> set (dg_threads d)"
proof -
  obtain nodes routers where l: "query_semantic_routers ox order' s = Inr routers"
      "build_dag clocks spawns backend nodes routers = Inr d"
    using assms(1) by (auto simp: dag_load_def and_then_Inr_iff)
  obtain rows where rows: "sols = map Inr rows" "routers = order' (fold router_row rows [])"
    using l(1) by (auto simp: query_semantic_routers_def store_query_def and_then_Inr_iff all_rows_Inr assms(3))
  then have "row \<in> set rows" using assms(4) by auto
  from router_rows_uris [OF this, of "[]"] obtain rd where
    rd: "rd_uri rd = term_to_string (solution_get row ''node'')" and "rd \<in> set (fold router_row rows [])" by force
  then have rd_in: "rd \<in> set routers" using assms(2) unfolding rows(2) by (blast dest: subsetD)
  then have "routers \<noteq> []" by auto
  with l(2) obtain d3 plat where "add_routers clocks spawns backend plat routers d3 = Inr d"
    by (auto simp: build_dag_def and_then_Inr_iff split: if_splits)
  from add_routers_threads [OF this rd_in]
  have "\<exists>name n m p. (name, Router_thread (rd_uri rd) n m p rd) \<in> set (dg_threads d)" .
  then show ?thesis unfolding rd by blast
qed

text \<open>A router in hostile Turtle of the default graph, in a build without \<open>peer-scripting\<close>.\<close>

theorem routers_are_not_gated_witness:
  "\<exists>d name n m p rd. gated_load (\<lambda>_. [hostile]) = Inr d \<and> (name, Router_thread hostile n m p rd) \<in> set (dg_threads d)"
proof -
  obtain d where d: "gated_load (\<lambda>_. [hostile]) = Inr d" using gated_graph by blast
  have "semantic_routers_query \<noteq> script_nodes_query False"
    by (simp add: semantic_routers_query_def script_nodes_query_def)
  then have q: "ox_query gated_store (\<lambda>_. [hostile]) semantic_routers_query = Inr (Solutions [Inr (doc_row hostile)])"
    by (simp add: gated_store_def)
  have "\<forall>rs. set rs \<subseteq> set (id rs)" by simp
  from routers_are_not_gated [OF d [unfolded gated_load_def] this q, of "doc_row hostile"]
  show ?thesis using d by (simp add: doc_row_def solution_get_def term_to_string_def)
qed

end
