(* ===== verification/Ffi_Session.thy ===== *)
theory Ffi_Session
  imports Ffi
begin

text \<open>
  A whole session over the C interface of \<^verbatim>\<open>src/ffi.rs\<close>: an application that sends texts and drains documents
  while the worker makes its rounds, in any order.  What comes out of the context is what ticks of
  \<^verbatim>\<open>src/lib.rs\<close> make of the lines accepted, in their order.
\<close>

section \<open>Sessions\<close>

datatype ffi_call = Send_text str | Drain_out | Worker_round

text \<open>What is seen of a call: the text sent with its code, what the worker emits, what the application gets.\<close>

datatype session_event = Sent str int | Emitted "str list" | Drained "str list"

text \<open>The rounds have no panic of their own; the feature \<open>debug-panic\<close> may be compiled in.\<close>

fun session_call :: "('s, 'c) env \<Rightarrow> host \<Rightarrow> bool \<Rightarrow> nat \<Rightarrow> ffi_call \<Rightarrow> ('s, 'c) process \<Rightarrow>
    (('s, 'c) process \<times> session_event) option" where
  "session_call env h feature p (Send_text t) pr =
     (let (pr', rc) = antenna_send (Some p) (Some t) (length t) pr in Some (pr', Sent t rc))"
| "session_call env h feature p Drain_out pr =
     map_option (\<lambda>(pr', n, docs, sys). (pr', Drained docs)) (antenna_drain (Some p) True pr)"
| "session_call env h feature p Worker_round pr =
     (case at_handle (Some p) pr of
        None \<Rightarrow> Some (pr, Emitted [])
      | Some fh \<Rightarrow>
          map_option (\<lambda>(fh', outs). (put_handle p fh' pr, Emitted outs)) (worker_round env h feature None fh))"

fun ffi_session :: "('s, 'c) env \<Rightarrow> host \<Rightarrow> bool \<Rightarrow> nat \<Rightarrow> ffi_call list \<Rightarrow> ('s, 'c) process \<Rightarrow>
    (('s, 'c) process \<times> session_event list) option" where
  "ffi_session env h feature p [] pr = Some (pr, [])"
| "ffi_session env h feature p (call # calls) pr =
     Option.bind (session_call env h feature p call pr) (\<lambda>(pr1, ev).
     map_option (\<lambda>(pr', log). (pr', ev # log)) (ffi_session env h feature p calls pr1))"

definition sends_of :: "session_event list \<Rightarrow> (str \<times> int) list" where
  "sends_of log = concat (map (\<lambda>ev. case ev of Sent t rc \<Rightarrow> [(t, rc)] | _ \<Rightarrow> []) log)"

definition emitted_of :: "session_event list \<Rightarrow> str list" where
  "emitted_of log = concat (map (\<lambda>ev. case ev of Emitted outs \<Rightarrow> outs | _ \<Rightarrow> []) log)"

definition drained_of :: "session_event list \<Rightarrow> str list" where
  "drained_of log = concat (map (\<lambda>ev. case ev of Drained docs \<Rightarrow> docs | _ \<Rightarrow> []) log)"

lemma of_log_simps [simp]:
  "sends_of [] = []" "emitted_of [] = []" "drained_of [] = []"
  "sends_of (Sent t rc # log) = (t, rc) # sends_of log" "sends_of (Emitted outs # log) = sends_of log"
  "sends_of (Drained docs # log) = sends_of log"
  "emitted_of (Sent t rc # log) = emitted_of log" "emitted_of (Emitted outs # log) = outs @ emitted_of log"
  "emitted_of (Drained docs # log) = emitted_of log"
  "drained_of (Sent t rc # log) = drained_of log" "drained_of (Emitted outs # log) = drained_of log"
  "drained_of (Drained docs # log) = docs @ drained_of log"
  "sends_of (log @ log') = sends_of log @ sends_of log'" "emitted_of (log @ log') = emitted_of log @ emitted_of log'"
  "drained_of (log @ log') = drained_of log @ drained_of log'"
  by (simp_all add: sends_of_def emitted_of_def drained_of_def)

text \<open>
  What a queue of documents bounded by the bytes of their frames does with a session: each document emitted
  goes behind the others if it fits at that moment, and a drain gives everything that waits, in order.
  \<open>None\<close> is for a session that such a queue does not have.
\<close>

definition offer :: "nat \<Rightarrow> str \<Rightarrow> str list \<Rightarrow> str list" where
  "offer limit doc q = fst (list_put (\<lambda>s. 4 + length s) limit q doc)"

fun out_queue :: "nat \<Rightarrow> session_event list \<Rightarrow> str list \<Rightarrow> str list option" where
  "out_queue limit [] q = Some q"
| "out_queue limit (Sent t rc # log) q = out_queue limit log q"
| "out_queue limit (Emitted outs # log) q = out_queue limit log (fold (offer limit) outs q)"
| "out_queue limit (Drained docs # log) q = (if docs = q then out_queue limit log [] else None)"

lemma out_queue_append: "out_queue limit (log @ log') q = Option.bind (out_queue limit log q) (out_queue limit log')"
  by (induction limit log q rule: out_queue.induct) simp_all

abbreviation doc_bytes :: "str list \<Rightarrow> nat" where
  "doc_bytes docs \<equiv> sum_list (map (\<lambda>s. 4 + length s) docs)"

lemma offers:
  "\<exists>kept. subseq kept outs \<and> fold (offer limit) outs q = q @ kept \<and> (doc_bytes q + doc_bytes outs \<le> limit \<longrightarrow> kept = outs)"
proof (induction outs arbitrary: q)
  case (Cons doc outs)
  show ?case
  proof (cases "doc_bytes q + (4 + length doc) \<le> limit")
    case True
    obtain kept where "subseq kept outs" "fold (offer limit) outs (q @ [doc]) = (q @ [doc]) @ kept"
        "doc_bytes (q @ [doc]) + doc_bytes outs \<le> limit \<longrightarrow> kept = outs"
      using Cons.IH by blast
    moreover have "offer limit doc q = q @ [doc]" using True by (simp add: offer_def list_put_def)
    ultimately show ?thesis by (intro exI [of _ "doc # kept"]) (simp add: add.assoc)
  next
    case False
    obtain kept where "subseq kept outs" "fold (offer limit) outs q = q @ kept" using Cons.IH by blast
    moreover have "offer limit doc q = q" using False by (simp add: offer_def list_put_def)
    ultimately show ?thesis using False by (intro exI [of _ kept]) (simp add: list_emb_Cons)
  qed
qed simp

text \<open>What comes out is what was there and what was emitted, in order, all of it if the ring can hold it.\<close>

lemma out_queue_subseq:
  "out_queue limit log q = Some q' \<Longrightarrow> subseq (drained_of log @ q') (q @ emitted_of log) \<and>
    (doc_bytes q + doc_bytes (emitted_of log) \<le> limit \<longrightarrow> drained_of log @ q' = q @ emitted_of log)"
proof (induction limit log q rule: out_queue.induct)
  case (3 limit outs log q)
  obtain kept where kept: "subseq kept outs" "fold (offer limit) outs q = q @ kept"
      "doc_bytes q + doc_bytes outs \<le> limit \<longrightarrow> kept = outs"
    using offers by blast
  have "subseq (drained_of log @ q') ((q @ kept) @ emitted_of log)" using 3 kept(2) by simp
  moreover have "subseq ((q @ kept) @ emitted_of log) (q @ outs @ emitted_of log)"
    using kept(1) by (simp add: list_emb_append_mono)
  ultimately show ?case using 3 kept(2,3) by (auto intro: subseq_order.order_trans)
next
  case (4 limit docs log q)
  then show ?case by (auto simp: list_emb_append_mono split: if_splits)
qed simp_all

text \<open>Ticks on given lines, with what they have read: a tick that fails has not read its lines.\<close>

fun ticks :: "('s, 'c) env \<Rightarrow> host \<Rightarrow> str list list \<Rightarrow> ('s, 'c) antenna \<Rightarrow> (('s, 'c) antenna \<times> str list) option" where
  "ticks env h [] a = Some (a, [])"
| "ticks env h (lines # rest) a =
     Option.bind (tick env h lines (fst (run_timeout env a))) (\<lambda>(a1, r).
     map_option (\<lambda>(a', read). (a', (if is_ok r then lines else []) @ read)) (ticks env h rest a1))"

text \<open>What a call of \<open>antenna_send\<close> that answered \<open>rc\<close> has queued of its text.\<close>

fun accepted_of :: "str \<times> int \<Rightarrow> str list \<Rightarrow> bool" where
  "accepted_of (t, rc) ls \<longleftrightarrow> (\<exists>n. ls = take n (turtle_lines (lines_of t))) \<and>
     (rc = 0 \<longrightarrow> ls = turtle_lines (lines_of t)) \<and> (rc \<noteq> 0 \<and> rc \<noteq> -3 \<longrightarrow> ls = [])"

section \<open>How a part of a session is linked to ticks\<close>

definition linked_by :: "('s, 'c) env \<Rightarrow> host \<Rightarrow> ('s, 'c) ffi_handle \<Rightarrow> ('s, 'c) ffi_handle \<Rightarrow> session_event list \<Rightarrow> bool" where
  "linked_by env h fh fh' log \<longleftrightarrow>
     (\<exists>a a' lss read came. fh_worker fh = Some a \<and> fh_worker fh' = Some a' \<and> ticks env h lss a = Some (a', read) \<and>
        read @ channel_msgs (fh_in fh') = channel_msgs (fh_in fh) @ concat came \<and> list_all2 accepted_of (sends_of log) came \<and>
        an_out a' = an_out a @ emitted_of log \<and>
        out_queue ffi_ring_bytes log (channel_msgs (fh_out fh)) = Some (channel_msgs (fh_out fh')))"

lemma ticks_append:
  "ticks env h lss a = Some (a1, read) \<Longrightarrow> ticks env h lss' a1 = Some (a2, read') \<Longrightarrow>
    ticks env h (lss @ lss') a = Some (a2, read @ read')"
  by (induction lss arbitrary: a read) (fastforce simp: bind_eq_Some_conv)+

lemma linked_refl: "fh_worker fh = Some a \<Longrightarrow> linked_by env h fh fh []"
  unfolding linked_by_def by (intro exI [of _ a] exI [of _ "[]"]) simp

lemma linked_trans:
  assumes "linked_by env h fh fh1 log" "linked_by env h fh1 fh2 log'"
  shows "linked_by env h fh fh2 (log @ log')"
proof -
  obtain a a1 lss read came where l: "fh_worker fh = Some a" "fh_worker fh1 = Some a1" "ticks env h lss a = Some (a1, read)"
      "read @ channel_msgs (fh_in fh1) = channel_msgs (fh_in fh) @ concat came" "list_all2 accepted_of (sends_of log) came"
      "an_out a1 = an_out a @ emitted_of log"
      "out_queue ffi_ring_bytes log (channel_msgs (fh_out fh)) = Some (channel_msgs (fh_out fh1))"
    using assms(1) unfolding linked_by_def by blast
  obtain a2 lss' read' came' where m: "fh_worker fh2 = Some a2" "ticks env h lss' a1 = Some (a2, read')"
      "read' @ channel_msgs (fh_in fh2) = channel_msgs (fh_in fh1) @ concat came'" "list_all2 accepted_of (sends_of log') came'"
      "an_out a2 = an_out a1 @ emitted_of log'"
      "out_queue ffi_ring_bytes log' (channel_msgs (fh_out fh1)) = Some (channel_msgs (fh_out fh2))"
    using assms(2) l(2) unfolding linked_by_def by auto
  have "(read @ read') @ channel_msgs (fh_in fh2) = channel_msgs (fh_in fh) @ concat (came @ came')"
    using l(4) m(3) by (metis append.assoc concat_append)
  then show ?thesis
    unfolding linked_by_def
    using l(1,6,7) m(1,5,6) ticks_append [OF l(3) m(2)] list_all2_appendI [OF l(5) m(4)]
    by (intro exI [of _ a] exI [of _ a2] exI [of _ "lss @ lss'"] exI [of _ "read @ read'"] exI [of _ "came @ came'"])
      (simp add: out_queue_append)
qed

text \<open>No line that panics waits, if none waited before and none was sent.\<close>

definition calm :: "bool \<Rightarrow> str list \<Rightarrow> bool" where
  "calm feature lines \<longleftrightarrow> (\<forall>l \<in> set lines. \<not> (feature \<and> contains ''antenna:DebugPanic'' l))"

lemma linked_calm:
  assumes "linked_by env h fh fh' log" "calm feature (channel_msgs (fh_in fh))"
    and "\<forall>(t, rc) \<in> set (sends_of log). calm feature (turtle_lines (lines_of t))"
  shows "calm feature (channel_msgs (fh_in fh'))"
proof -
  obtain read came where l: "read @ channel_msgs (fh_in fh') = channel_msgs (fh_in fh) @ concat came"
      "list_all2 accepted_of (sends_of log) came"
    using assms(1) unfolding linked_by_def by blast
  have "set (channel_msgs (fh_in fh')) \<subseteq> set (channel_msgs (fh_in fh)) \<union> set (concat came)"
    using arg_cong [OF l(1), of set] by auto
  moreover have "calm feature ls" if ls: "ls \<in> set came" for ls
  proof -
    obtain k where k: "k < length came" "ls = came ! k" using ls by (auto simp: in_set_conv_nth)
    obtain t rc where t: "sends_of log ! k = (t, rc)" by force
    have "accepted_of (t, rc) ls" "(t, rc) \<in> set (sends_of log)"
      using l(2) k t nth_mem [of k "sends_of log"] by (auto simp: list_all2_conv_all_nth)
    then obtain n where "ls = take n (turtle_lines (lines_of t))" "calm feature (turtle_lines (lines_of t))"
      using assms(3) by auto
    then show ?thesis by (auto simp: calm_def dest: in_set_takeD)
  qed
  ultimately show ?thesis using assms(2) unfolding calm_def set_concat by (blast dest: subsetD)
qed

section \<open>Every call is linked\<close>

lemma send_linked:
  assumes "handle_ok fh" "fh_worker fh = Some a" "length t + 4 < 2 ^ 32"
    and "pr_handles pr p = Some fh" "antenna_send (Some p) (Some t) (length t) pr = (pr', rc)"
  shows "\<exists>fh'. pr_handles pr' p = Some fh' \<and> handle_ok fh' \<and> linked_by env h fh fh' [Sent t rc]"
proof -
  have h: "at_handle (Some p) pr = Some fh" "raw_slice (Some t) (length t) = t" "\<not> fh_poisoned fh"
    using assms(1,2,4) by (simp_all add: at_handle_def raw_slice_def handle_ok_def)
  show ?thesis
  proof (cases "from_utf8 t")
    case None
    then have "pr' = pr" "rc = -2" using assms(5) h by (simp_all add: antenna_send_def)
    moreover have "linked_by env h fh fh [Sent t (-2)]"
      unfolding linked_by_def using assms(2)
      by (intro exI [of _ a] exI [of _ "[]"] exI [of _ "[[]]"]) (auto intro: exI [of _ 0])
    ultimately show ?thesis using assms(1,4) by blast
  next
    case (Some s)
    obtain c where c: "push_turtle_lines channel_put s (fh_in fh) = (c, rc)" "pr' = put_handle p (fh\<lparr>fh_in := c\<rparr>) pr"
      using assms(5) h Some by (cases "push_turtle_lines channel_put s (fh_in fh)") (simp add: antenna_send_def)
    from send_lines_ok [OF assms(1) Some assms(3) c(1)] obtain n where
      n: "channel_ok c" "ring_limit (ch_ring c) = ffi_ring_bytes"
        "channel_msgs c = channel_msgs (fh_in fh) @ take n (turtle_lines (lines_of t))"
        "rc = 0 \<and> n = length (turtle_lines (lines_of t)) \<or> rc = -3"
      by blast
    have "linked_by env h fh (fh\<lparr>fh_in := c\<rparr>) [Sent t rc]"
      unfolding linked_by_def using assms(2) n(3,4)
      by (intro exI [of _ a] exI [of _ "[]"] exI [of _ "[take n (turtle_lines (lines_of t))]"]) auto
    moreover have "handle_ok (fh\<lparr>fh_in := c\<rparr>)" using assms(1) n(1,2) by (simp add: handle_ok_def)
    ultimately show ?thesis using c(2) by (auto simp: put_handle_def)
  qed
qed

lemma drain_linked:
  assumes "handle_ok fh" "fh_worker fh = Some a" "pr_handles pr p = Some fh"
    and "antenna_drain (Some p) True pr = Some (pr', n, docs, sys)"
  shows "\<exists>fh'. pr_handles pr' p = Some fh' \<and> handle_ok fh' \<and> linked_by env h fh fh' [Drained docs]"
proof -
  have h: "at_handle (Some p) pr = Some fh" using assms(3) by (simp add: at_handle_def)
  obtain c where c: "drain channel_recv (fh_out fh) = Some (c, channel_msgs (fh_out fh))" "channel_msgs c = []" "channel_ok c"
      "ring_limit (ch_ring c) = ring_limit (ch_ring (fh_out fh))" "ch_clock c = ch_clock (fh_out fh)"
    using drain_channel [of "fh_out fh"] assms(1) by (metis handle_ok_def)
  then have d: "docs = channel_msgs (fh_out fh)" "pr' = put_handle p (fh\<lparr>fh_out := c\<rparr>) pr"
    using assms(4) h by (auto simp: antenna_drain_def)
  have "linked_by env h fh (fh\<lparr>fh_out := c\<rparr>) [Drained docs]"
    unfolding linked_by_def using assms(2) c(2) d(1) by (intro exI [of _ a] exI [of _ "[]"]) simp
  moreover have "handle_ok (fh\<lparr>fh_out := c\<rparr>)" using assms(1) c by (simp add: handle_ok_def)
  ultimately show ?thesis using d(2) by (auto simp: put_handle_def)
qed

text \<open>What a round puts on the ring is what the bounded queue keeps of it.\<close>

lemma send_all_offers:
  "channel_ok c \<Longrightarrow> ring_limit (ch_ring c) = limit \<Longrightarrow> \<forall>s \<in> set outs. channel_text s \<Longrightarrow>
    channel_msgs (send_all outs c) = fold (offer limit) outs (channel_msgs c)"
proof (induction outs arbitrary: c)
  case (Cons doc outs)
  obtain c1 b where e: "channel_put c doc = (c1, b)" by force
  have ok: "channel_text doc" using Cons.prems(3) by simp
  have "channel_ok c1" "ring_limit (ch_ring c1) = limit"
    using channel_lines.enq_inv [OF Cons.prems(1) ok] channel_lines.enq_limit [of c doc] e Cons.prems(2) by simp_all
  moreover have "offer limit doc (channel_msgs c) = channel_msgs c1"
    using channel_lines.enq_refines [OF Cons.prems(1) ok e] Cons.prems(2) by (simp add: offer_def)
  ultimately show ?case using Cons.IH [of c1] Cons.prems(3) e by (simp add: send_all_def)
qed (simp add: send_all_def)

lemma round_linked:
  assumes "handle_ok fh" "fh_worker fh = Some a" "worker_round env h feature None fh = Some (fh', outs)"
    and "calm feature (channel_msgs (fh_in fh))" "\<forall>s \<in> set outs. channel_text s"
  shows "handle_ok fh' \<and> linked_by env h fh fh' [Emitted outs]"
proof -
  have chans: "channel_ok (fh_in fh)" "channel_ok (fh_out fh)" "ring_limit (ch_ring (fh_out fh)) = ffi_ring_bytes"
    using assms(1) by (simp_all add: handle_ok_def)
  from worker_round_running [OF assms(2,3)] obtain a' cin r where
    t: "ffi_tick env h feature (fh_in fh) (fst (run_timeout env a)) = Some (a', cin, r)" and
    fh': "fh_in fh' = cin" "fh_out fh' = send_all outs (fh_out fh)" and
    sent: "(\<exists>x. r = Ticked x) \<and> fh_worker fh' = Some a' \<and> outs = drop (length (an_out a)) (an_out a') \<or>
     (\<exists>p. r = Panicked p)"
    by metis
  have "feature \<longrightarrow> \<not> list_ex panic_line (channel_msgs (fh_in fh))"
    using assms(4) by (auto simp: calm_def list_ex_iff panic_line_def)
  then obtain x where x: "r = Ticked x" "tick env h (channel_msgs (fh_in fh)) (fst (run_timeout env a)) = Some (a', x)"
      "channel_msgs cin = (if is_ok x then [] else channel_msgs (fh_in fh))"
    using ffi_tick_plain [OF chans(1) _ t] by auto
  have out: "an_out a' = an_out a @ outs" using tick_out [OF x(2)] sent x(1) by auto
  have "linked_by env h fh fh' [Emitted outs]"
    unfolding linked_by_def using assms(2) x sent out fh' send_all_offers [OF chans(2,3) assms(5)]
    by (intro exI [of _ a] exI [of _ a'] exI [of _ "[channel_msgs (fh_in fh)]"]) auto
  then show ?thesis using worker_round_ok [OF assms(3,1,5)] by blast
qed

lemma session_linked:
  assumes "ffi_session env h feature p calls pr = Some (pr', log)"
    and "handle_ok fh" "fh_worker fh = Some a" "pr_handles pr p = Some fh" "calm feature (channel_msgs (fh_in fh))"
    and "\<forall>t. Send_text t \<in> set calls \<longrightarrow> length t + 4 < 2 ^ 32 \<and> calm feature (turtle_lines (lines_of t))"
    and "\<forall>s \<in> set (emitted_of log). channel_text s"
  shows "\<exists>fh'. pr_handles pr' p = Some fh' \<and> handle_ok fh' \<and> linked_by env h fh fh' log"
  using assms
proof (induction calls arbitrary: pr fh a log)
  case Nil
  then show ?case using linked_refl by auto
next
  case (Cons call calls)
  obtain pr1 ev log2 where c: "session_call env h feature p call pr = Some (pr1, ev)"
      "ffi_session env h feature p calls pr1 = Some (pr', log2)" "log = ev # log2"
    using Cons.prems(1) by (auto simp: bind_eq_Some_conv)
  have "\<exists>fh1. pr_handles pr1 p = Some fh1 \<and> handle_ok fh1 \<and> linked_by env h fh fh1 [ev] \<and>
      (\<forall>(t, rc) \<in> set (sends_of [ev]). Send_text t \<in> set (call # calls))"
  proof (cases call)
    case (Send_text t)
    then show ?thesis
      using c(1) send_linked [OF Cons.prems(2,3) _ Cons.prems(4), of t] Cons.prems(6) by (auto split: prod.splits)
  next
    case Drain_out
    then show ?thesis using c(1) drain_linked [OF Cons.prems(2-4)] by auto
  next
    case Worker_round
    then obtain fh1 outs where r: "worker_round env h feature None fh = Some (fh1, outs)" "pr1 = put_handle p fh1 pr"
        "ev = Emitted outs"
      using c(1) Cons.prems(4) by (auto simp: at_handle_def)
    then show ?thesis
      using round_linked [OF Cons.prems(2,3) r(1) Cons.prems(5)] Cons.prems(7) c(3) by (auto simp: put_handle_def)
  qed
  then obtain fh1 where fh1: "pr_handles pr1 p = Some fh1" "handle_ok fh1" "linked_by env h fh fh1 [ev]"
      "\<forall>(t, rc) \<in> set (sends_of [ev]). Send_text t \<in> set (call # calls)" by blast
  obtain a1 where a1: "fh_worker fh1 = Some a1" using fh1(3) by (auto simp: linked_by_def)
  have "calm feature (channel_msgs (fh_in fh1))"
    by (rule linked_calm [OF fh1(3) Cons.prems(5)]) (use fh1(4) Cons.prems(6) in fastforce)
  moreover have "\<forall>s \<in> set (emitted_of log2). channel_text s" using Cons.prems(7) c(3) by (cases ev) simp_all
  ultimately obtain fh' where "pr_handles pr' p = Some fh'" "handle_ok fh'" "linked_by env h fh1 fh' log2"
    using Cons.IH [OF c(2) fh1(2) a1 fh1(1)] Cons.prems(6) by auto
  then show ?case using linked_trans [OF fh1(3)] c(3) by fastforce
qed

section \<open>Property\<close>

text \<open>
  C7: a session over the C interface in which no tick panics and no line for the debug panic is sent is a
  run of the loop.  Whatever an application sends and drains and whenever the worker makes its rounds, the
  context is where ticks take it that read the lines queued before and then the lines accepted, in order,
  up to those still queued; a call that answers 0 has queued every line of its text and one that answers -3
  some first ones.  The documents go through a queue of 1 MiB: each one that the ticks emit waits behind the
  others if it fits at that moment and is lost otherwise, and each drain gives all that wait, in order.  So
  the documents drained, followed by those that wait, are those that waited before and those that
  the ticks emitted, in their order, and all of them if together they fit the ring.
\<close>

theorem ffi_session_is_the_loop:
  assumes "ffi_reachable env h feature pr" "pr_handles pr p = Some fh" "fh_worker fh = Some a"
    and "ffi_session env h feature p calls pr = Some (pr', log)"
    and "\<forall>t. Send_text t \<in> set calls \<longrightarrow> length t + 4 < 2 ^ 32" "\<forall>s \<in> set (emitted_of log). channel_text s"
    and "\<forall>l \<in> set (channel_msgs (fh_in fh)). \<not> (feature \<and> contains ''antenna:DebugPanic'' l)"
    and "\<forall>t. Send_text t \<in> set calls \<longrightarrow>
      (\<forall>l \<in> set (turtle_lines (lines_of t)). \<not> (feature \<and> contains ''antenna:DebugPanic'' l))"
  shows "\<exists>fh' a' lss read came. pr_handles pr' p = Some fh' \<and> fh_worker fh' = Some a' \<and>
    ticks env h lss a = Some (a', read) \<and>
    read @ channel_msgs (fh_in fh') = channel_msgs (fh_in fh) @ concat came \<and>
    list_all2 accepted_of (sends_of log) came \<and>
    an_out a' = an_out a @ emitted_of log \<and>
    out_queue (2 ^ 20) log (channel_msgs (fh_out fh)) = Some (channel_msgs (fh_out fh')) \<and>
    subseq (drained_of log @ channel_msgs (fh_out fh')) (channel_msgs (fh_out fh) @ emitted_of log) \<and>
    (sum_list (map (\<lambda>s. 4 + length s) (channel_msgs (fh_out fh) @ emitted_of log)) \<le> 2 ^ 20 \<longrightarrow>
       drained_of log @ channel_msgs (fh_out fh') = channel_msgs (fh_out fh) @ emitted_of log)"
proof -
  have ok: "handle_ok fh" using ffi_reachable_ok [OF assms(1)] assms(2) by (simp add: process_ok_def)
  have "calm feature (channel_msgs (fh_in fh))" using assms(7) by (simp add: calm_def)
  moreover have "\<forall>t. Send_text t \<in> set calls \<longrightarrow> length t + 4 < 2 ^ 32 \<and> calm feature (turtle_lines (lines_of t))"
    using assms(5,8) by (simp add: calm_def)
  ultimately obtain fh' where fh': "pr_handles pr' p = Some fh'" "linked_by env h fh fh' log"
    using session_linked [OF assms(4) ok assms(3,2) _ _ assms(6)] by blast
  then have q: "out_queue (2 ^ 20) log (channel_msgs (fh_out fh)) = Some (channel_msgs (fh_out fh'))"
    by (auto simp: linked_by_def ffi_ring_bytes_def)
  from fh' q out_queue_subseq [OF q] show ?thesis
    unfolding linked_by_def using assms(3) by auto
qed

text \<open>A comment is sent, a round is made and the answer to the request of the theme is drained.\<close>

lemma sample_comment_tick:
  assumes "new_with_ttl no_rows sample_host ''d'' (Some ''me'') None None None 0 = Inr a"
  obtains a' where "tick no_rows sample_host [''# hi''] (fst (run_timeout no_rows a)) = Some (a', Inr ())"
    "drop (length (an_out a)) (an_out a') = [sample_answer]"
proof -
  have "case new_with_ttl no_rows sample_host ''d'' (Some ''me'') None None None 0 of
      Inl _ \<Rightarrow> False | Inr a \<Rightarrow>
        (case tick no_rows sample_host [''# hi''] (fst (run_timeout no_rows a)) of
           None \<Rightarrow> False
         | Some (a', r) \<Rightarrow> drop (length (an_out a)) (an_out a') = [sample_answer] \<and> is_ok r)"
    by code_simp
  then show thesis using that assms by (auto split: option.splits simp: is_ok_iff)
qed

lemma sample_send:
  assumes "handle_ok fh" "fh_worker fh = Some a" "channel_msgs (fh_in fh) = []" "pr_handles pr 1 = Some fh"
  obtains c where "antenna_send (Some 1) (Some ''# hi'') (length ''# hi'') pr = (put_handle 1 (fh\<lparr>fh_in := c\<rparr>) pr, 0)"
    "channel_msgs c = [''# hi'']" "channel_ok c" "ring_limit (ch_ring c) = ffi_ring_bytes"
proof -
  have u: "from_utf8 ''# hi'' = Some ''# hi''" by (simp add: from_utf8_def bv_def)
  have l: "turtle_lines (lines_of ''# hi'') = [''# hi'']" by code_simp
  obtain c rc where c: "push_turtle_lines channel_put ''# hi'' (fh_in fh) = (c, rc)" by force
  from send_lines_ok [OF assms(1) u _ c] obtain n where n: "channel_ok c" "ring_limit (ch_ring c) = ffi_ring_bytes"
      "channel_msgs c = take n [''# hi'']" "rc = 0 \<and> n = 1 \<or> rc = -3 \<and> n < 1 \<and>
        ffi_ring_bytes < channel_lines.held c + (4 + length ([''# hi''] ! n))"
    unfolding l using assms(3) by auto
  then have "rc = 0" "n = 1" by (auto simp: channel_lines.held_def ffi_ring_bytes_def)
  moreover have "\<not> fh_poisoned fh" using assms(1,2) by (simp add: handle_ok_def)
  ultimately show thesis
    using that [of c] n c u assms(4) by (simp add: antenna_send_def at_handle_def raw_slice_def)
qed

theorem ffi_session_is_the_loop_witness:
  "\<exists>pr' fh' a'. ffi_session no_rows sample_host True 1 [Send_text ''# hi'', Worker_round, Drain_out] sample_process =
      Some (pr', [Sent ''# hi'' 0, Emitted [sample_answer], Drained [sample_answer]]) \<and>
    pr_handles pr' 1 = Some fh' \<and> fh_worker fh' = Some a' \<and> channel_msgs (fh_out fh') = []"
proof -
  obtain fh a where fh: "pr_handles sample_process = [1 \<mapsto> fh]" "fh_worker fh = Some a" "channel_msgs (fh_in fh) = []"
      "channel_msgs (fh_out fh) = []"
      and r: "ffi_reachable no_rows sample_host True sample_process"
      and a: "new_with_ttl no_rows sample_host ''d'' (Some ''me'') None None None 0 = Inr a"
    by (rule sample_handle)
  have p: "pr_handles sample_process 1 = Some fh" using fh(1) by simp
  have ok: "handle_ok fh" using ffi_reachable_ok [OF r] p by (simp add: process_ok_def)
  obtain c where c: "antenna_send (Some 1) (Some ''# hi'') (length ''# hi'') sample_process = (put_handle 1 (fh\<lparr>fh_in := c\<rparr>) sample_process, 0)"
      "channel_msgs c = [''# hi'']" "channel_ok c" "ring_limit (ch_ring c) = ffi_ring_bytes"
    by (rule sample_send [OF ok fh(2,3) p])
  define fh1 where "fh1 = fh\<lparr>fh_in := c\<rparr>"
  obtain e where e: "drain channel_recv c = Some (e, [''# hi''])" using drain_channel [OF c(3)] c(2) by metis
  have l: "turtle_lines (lines_of ''# hi'') = [''# hi'']" by code_simp
  have quiet: "debug_panic_in True [''# hi''] = ([''# hi''], False)" "\<not> contains ''antenna:DebugPanic'' ''# hi''" by code_simp+
  obtain a' where "tick no_rows sample_host [''# hi''] (fst (run_timeout no_rows a)) = Some (a', Inr ())"
      "drop (length (an_out a)) (an_out a') = [sample_answer]" by (rule sample_comment_tick [OF a])
  then have w: "worker_round no_rows sample_host True None fh1 =
      Some (fh1\<lparr>fh_in := e, fh_account := an_account a', fh_out := send_all [sample_answer] (fh_out fh), fh_worker := Some a'\<rparr>,
        [sample_answer])"
    using e fh(2) quiet by (simp add: worker_round_def ffi_tick_def Let_def fh1_def)
  have out: "channel_ok (fh_out fh)" "ring_limit (ch_ring (fh_out fh)) = ffi_ring_bytes" using ok by (simp_all add: handle_ok_def)
  have "channel_ok (send_all [sample_answer] (fh_out fh)) \<and> channel_msgs (send_all [sample_answer] (fh_out fh)) = [sample_answer]"
    using send_all_kept [OF out(1), of "[sample_answer]"] sample_answer_text out(2) fh(4)
    by (simp add: channel_lines.held_def ffi_ring_bytes_def sample_answer_def)
  then obtain o' where "drain channel_recv (send_all [sample_answer] (fh_out fh)) = Some (o', [sample_answer])" "channel_msgs o' = []"
    using drain_channel [of "send_all [sample_answer] (fh_out fh)"] by metis
  then have "\<exists>pr'. ffi_session no_rows sample_host True 1 [Send_text ''# hi'', Worker_round, Drain_out] sample_process =
      Some (pr', [Sent ''# hi'' 0, Emitted [sample_answer], Drained [sample_answer]])"
    using c(1) w by (simp add: fh1_def at_handle_def put_handle_def antenna_drain_def)
  then obtain pr' where s: "ffi_session no_rows sample_host True 1 [Send_text ''# hi'', Worker_round, Drain_out] sample_process =
      Some (pr', [Sent ''# hi'' 0, Emitted [sample_answer], Drained [sample_answer]])" by blast
  from ffi_session_is_the_loop [OF r p fh(2) s]
  obtain fh' a' lss read came where "pr_handles pr' 1 = Some fh'" "fh_worker fh' = Some a'"
      "subseq ([sample_answer] @ channel_msgs (fh_out fh')) (channel_msgs (fh_out fh) @ [sample_answer])"
    using sample_answer_text fh(3) l quiet(2) by auto
  then show ?thesis using s fh(4) by (auto dest: list_emb_length)
qed

end
