(* ===== verification/Unit_Tests.thy ===== *)
theory Unit_Tests
  imports Dispatch Antenna Llm Logging Ffi
begin

text \<open>
  The unit tests of the repository that need no third-party code, on the model: each test is a definition with
  the assertions of the function of the same name under \<^verbatim>\<open>src/\<close>, and the lemmas evaluate them.
  They are not properties of the program; they show that the definitions compute what the
  authors of the code expect on their own examples.
\<close>

section \<open>Types and directives (\<^verbatim>\<open>dispatch.rs\<close>)\<close>

definition test_extract_type_prefixed_sp :: bool where
  "test_extract_type_prefixed_sp \<longleftrightarrow>
     (extract_rdf_type (''[] a sp:Select ; sp:text '' @ quoted ''SELECT ?s WHERE { ?s ?p ?o }'' @ '' .'')
       = Some ''http://spinrdf.org/sp#Select'')"

definition test_extract_type_prefixed_carrier :: bool where
  "test_extract_type_prefixed_carrier \<longleftrightarrow>
     (extract_rdf_type ''[] a carrier:GetId .'' = Some ''http://resonator.network/v2/carrier#GetId'')"

definition test_extract_type_full_uri :: bool where
  "test_extract_type_full_uri \<longleftrightarrow>
     (extract_rdf_type (''[] a <http://example.org/Foo> ; rdfs:label '' @ quoted ''bar'' @ '' .'')
       = Some ''http://example.org/Foo'')"

definition test_extract_type_antenna :: bool where
  "test_extract_type_antenna \<longleftrightarrow>
     (extract_rdf_type (''[] a antenna:Bookmark ; rdfs:label '' @ quoted ''test'' @ '' .'')
       = Some ''http://resonator.network/v2/antenna#Bookmark'')"

definition test_extract_type_none_for_no_type :: bool where
  "test_extract_type_none_for_no_type \<longleftrightarrow>
     (extract_rdf_type (''[] rdfs:label '' @ quoted ''foo'' @ '' .'') = None)"

definition test_strip_directives_passthrough_when_no_prefix :: bool where
  "test_strip_directives_passthrough_when_no_prefix \<longleftrightarrow>
     (strip_leading_directives (''[] a sp:Select ; sp:text '' @ quoted ''ASK { ?s ?p ?o }'' @ '' .'')
       = (''[] a sp:Select ; sp:text '' @ quoted ''ASK { ?s ?p ?o }'' @ '' .''))"

definition test_strip_directives_drops_inline_prefix :: bool where
  "test_strip_directives_drops_inline_prefix \<longleftrightarrow>
     (strip_leading_directives (''@prefix sp: <http://spinrdf.org/sp#> . [] a sp:Select ; sp:text ''
       @ quoted ''ASK { ?s ?p ?o }'' @ '' .'')
         = (''[] a sp:Select ; sp:text '' @ quoted ''ASK { ?s ?p ?o }'' @ '' .''))"

definition test_strip_directives_drops_chained_prefixes :: bool where
  "test_strip_directives_drops_chained_prefixes \<longleftrightarrow>
     (strip_leading_directives ''@prefix sp: <http://spinrdf.org/sp#> . @prefix antenna: <http://resonator.network/v2/antenna#> . [] a antenna:Bookmark .'' = ''[] a antenna:Bookmark .'')"

definition test_strip_directives_handles_base :: bool where
  "test_strip_directives_handles_base \<longleftrightarrow>
     (strip_leading_directives ''@base <http://example.org/> . [] a sp:Select .'' = ''[] a sp:Select .'')"

definition test_strip_directives_directives_only_returns_empty :: bool where
  "test_strip_directives_directives_only_returns_empty \<longleftrightarrow>
     (strip_leading_directives ''@prefix sp: <http://spinrdf.org/sp#> .'' = [])"

definition test_strip_directives_dot_inside_iri_does_not_terminate :: bool where
  "test_strip_directives_dot_inside_iri_does_not_terminate \<longleftrightarrow>
     (strip_leading_directives ''@prefix v2: <http://example.org/v2.0/ns#> . [] a v2:Foo .'' = ''[] a v2:Foo .'')"

definition test_extract_type_none_for_comment :: bool where
  "test_extract_type_none_for_comment \<longleftrightarrow>
     (extract_rdf_type ''# this is a comment'' = None)"

definition test_extract_type_none_for_unknown_prefix :: bool where
  "test_extract_type_none_for_unknown_prefix \<longleftrightarrow>
     (extract_rdf_type ''[] a custom:Foo .'' = None)"

lemma tests_types_and_directives:
  "test_extract_type_prefixed_sp"
  "test_extract_type_prefixed_carrier"
  "test_extract_type_full_uri"
  "test_extract_type_antenna"
  "test_extract_type_none_for_no_type"
  "test_strip_directives_passthrough_when_no_prefix"
  "test_strip_directives_drops_inline_prefix"
  "test_strip_directives_drops_chained_prefixes"
  "test_strip_directives_handles_base"
  "test_strip_directives_directives_only_returns_empty"
  "test_strip_directives_dot_inside_iri_does_not_terminate"
  "test_extract_type_none_for_comment"
  "test_extract_type_none_for_unknown_prefix"
  by code_simp+

section \<open>Properties and escapes (\<^verbatim>\<open>dispatch.rs\<close>)\<close>

definition test_extract_property_quoted :: bool where
  "test_extract_property_quoted \<longleftrightarrow>
     (extract_property (''[] a sp:Select ; sp:text '' @ quoted ''SELECT ?s WHERE { ?s ?p ?o }''
       @ '' .'') ''sp:text'' = Some ''SELECT ?s WHERE { ?s ?p ?o }'')"

definition test_extract_property_uri_value :: bool where
  "test_extract_property_uri_value \<longleftrightarrow>
     (extract_property (''[] a carrier:SendMsg ; carrier:contactUri '' @ quoted ''abc123''
       @ '' ; carrier:text '' @ quoted ''hi'' @ '' .'') ''carrier:contactUri'' = Some ''abc123'')"

definition test_extract_property_escaped_quotes :: bool where
  "test_extract_property_escaped_quotes \<longleftrightarrow>
     (extract_property (''[] a antenna:Error ; antenna:message '' @ [quote] @ ''say '' @ [backslash, quote]
       @ ''hello'' @ [backslash, quote, quote] @ '' .'') ''antenna:message''
         = Some (''say '' @ [backslash, quote] @ ''hello'' @ [backslash, quote]))"

definition test_extract_property_missing :: bool where
  "test_extract_property_missing \<longleftrightarrow>
     (extract_property ''[] a sp:Select .'' ''sp:text'' = None)"

definition test_extract_property_boolean :: bool where
  "test_extract_property_boolean \<longleftrightarrow>
     (extract_property ''[] a sp:AskResult ; sp:boolean true .'' ''sp:boolean'' = Some ''true'')"

definition test_extract_property_multibyte_literal :: bool where
  "test_extract_property_multibyte_literal \<longleftrightarrow>
     (extract_property (''[] a carrier:SendReaction ; carrier:reaction ''
       @ [quote, CHR 0xF0, CHR 0x9F, CHR 0x91, CHR 0x8D, quote] @ '' .'') ''carrier:reaction''
         = Some [CHR 0xF0, CHR 0x9F, CHR 0x91, CHR 0x8D])"

definition test_set_account_config_fields_parse :: bool where
  "test_set_account_config_fields_parse \<longleftrightarrow>
     (let line = (''[] a carrier:SetAccountConfig ; carrier:account '' @ quoted ''acc1''
       @ '' ; carrier:proxyEnabled '' @ quoted ''true'' @ '' ; carrier:proxyServer ''
         @ quoted ''dhtproxy.jami.net'' @ '' ; carrier:bootstrap '' @ quoted ''bootstrap.jami.net'' @ '' .'') in
     extract_property line ''carrier:account'' = Some ''acc1'' \<and>
     extract_property line ''carrier:proxyServer'' = Some ''dhtproxy.jami.net'' \<and>
     extract_property line ''carrier:bootstrap'' = Some ''bootstrap.jami.net'' \<and>
     extract_property line ''carrier:turnServer'' = None \<and>
     map_option (\<lambda>v. v = ''true'') (extract_property line ''carrier:proxyEnabled'') = Some True)"

definition test_set_account_config_preset_detected :: bool where
  "test_set_account_config_preset_detected \<longleftrightarrow>
     (extract_property (''[] a carrier:SetAccountConfig ; carrier:account '' @ quoted ''acc1''
       @ '' ; carrier:preset '' @ quoted ''resonator'' @ '' .'') ''carrier:preset'' = Some ''resonator'')"

definition test_turtle_escape_basic :: bool where
  "test_turtle_escape_basic \<longleftrightarrow>
     (dispatch_escape ''hello'' = ''hello'')"

definition test_turtle_escape_quotes_and_newlines :: bool where
  "test_turtle_escape_quotes_and_newlines \<longleftrightarrow>
     (dispatch_escape (''say '' @ [quote] @ ''hi'' @ [quote, newline] @ ''newline'')
       = (''say '' @ [backslash, quote] @ ''hi'' @ [backslash, quote, backslash] @ ''nnewline''))"

definition test_turtle_escape_backslash :: bool where
  "test_turtle_escape_backslash \<longleftrightarrow>
     (dispatch_escape (''a'' @ [backslash] @ ''b'') = (''a'' @ [backslash, backslash] @ ''b''))"

definition test_turtle_escape_carriage_return :: bool where
  "test_turtle_escape_carriage_return \<longleftrightarrow>
     (dispatch_escape (''a'' @ [creturn] @ ''b'') = (''a'' @ [backslash] @ ''rb''))"

lemma tests_properties_and_escapes:
  "test_extract_property_quoted"
  "test_extract_property_uri_value"
  "test_extract_property_escaped_quotes"
  "test_extract_property_missing"
  "test_extract_property_boolean"
  "test_extract_property_multibyte_literal"
  "test_set_account_config_fields_parse"
  "test_set_account_config_preset_detected"
  "test_turtle_escape_basic"
  "test_turtle_escape_quotes_and_newlines"
  "test_turtle_escape_backslash"
  "test_turtle_escape_carriage_return"
  by code_simp+

section \<open>JSON (\<^verbatim>\<open>llm.rs\<close>)\<close>

definition test_json_escape_simple :: bool where
  "test_json_escape_simple \<longleftrightarrow>
     (json_escape ''hello'' = (quoted ''hello''))"

definition test_json_escape_quotes_and_backslash :: bool where
  "test_json_escape_quotes_and_backslash \<longleftrightarrow>
     (json_escape (''say '' @ quoted ''hi'')
       = ([quote] @ ''say '' @ [backslash, quote] @ ''hi'' @ [backslash, quote, quote]) \<and>
     json_escape (''a'' @ [backslash] @ ''b'') = ([quote] @ ''a'' @ [backslash, backslash] @ ''b'' @ [quote]))"

definition test_json_escape_newlines_tabs :: bool where
  "test_json_escape_newlines_tabs \<longleftrightarrow>
     (json_escape (''a'' @ [newline] @ ''b'' @ [tab] @ ''c'')
       = ([quote] @ ''a'' @ [backslash] @ ''nb'' @ [backslash] @ ''tc'' @ [quote]))"

definition test_json_escape_control_chars :: bool where
  "test_json_escape_control_chars \<longleftrightarrow>
     (json_escape [CHR 0x01] = ([quote, backslash] @ ''u0001'' @ [quote]))"

definition test_parse_json_string_basic :: bool where
  "test_parse_json_string_basic \<longleftrightarrow>
     (parse_json_string (quoted ''hello'') = Inr ''hello'')"

definition test_parse_json_string_escapes :: bool where
  "test_parse_json_string_escapes \<longleftrightarrow>
     (parse_json_string ([quote] @ ''a'' @ [backslash, quote] @ ''b'' @ [backslash, backslash] @ ''c''
       @ [backslash] @ ''n'' @ [quote]) = Inr (''a'' @ [quote] @ ''b'' @ [backslash] @ ''c'' @ [newline]))"

definition test_parse_json_string_unicode_escape :: bool where
  "test_parse_json_string_unicode_escape \<longleftrightarrow>
     (parse_json_string ([quote, backslash] @ ''u0041'' @ [quote]) = Inr ''A'')"

definition test_parse_json_string_unterminated :: bool where
  "test_parse_json_string_unterminated \<longleftrightarrow>
     (\<not> is_ok (parse_json_string ([quote] @ ''hello'')))"

definition test_parse_json_string_not_a_string :: bool where
  "test_parse_json_string_not_a_string \<longleftrightarrow>
     (\<not> is_ok (parse_json_string ''42''))"

definition test_extract_json_field_basic :: bool where
  "test_extract_json_field_basic \<longleftrightarrow>
     (extract_json_field (''{'' @ quoted ''response'' @ '':'' @ quoted ''hello world'' @ '',''
       @ quoted ''done'' @ '':true}'') ''response'' = Inr ''hello world'')"

definition test_extract_json_field_with_escapes :: bool where
  "test_extract_json_field_with_escapes \<longleftrightarrow>
     (extract_json_field (''{'' @ quoted ''response'' @ '':'' @ [quote] @ ''line1'' @ [backslash] @ ''nline2''
       @ [quote] @ ''}'') ''response'' = Inr (''line1'' @ [newline] @ ''line2''))"

definition test_extract_json_field_missing :: bool where
  "test_extract_json_field_missing \<longleftrightarrow>
     (\<not> is_ok (extract_json_field (''{'' @ quoted ''other'' @ '':'' @ quoted ''val'' @ ''}'') ''response''))"

definition test_extract_json_field_not_string :: bool where
  "test_extract_json_field_not_string \<longleftrightarrow>
     (\<not> is_ok (extract_json_field (''{'' @ quoted ''count'' @ '':42}'') ''count''))"

definition test_extract_nested_content_openai :: bool where
  "test_extract_nested_content_openai \<longleftrightarrow>
     (extract_nested_content (''{'' @ quoted ''choices'' @ '':[{'' @ quoted ''message'' @ '':{''
       @ quoted ''content'' @ '':'' @ quoted ''hello'' @ ''}}]}'') = Inr ''hello'')"

text \<open>The limit \<open>u32::MAX\<close> of the escape is not for unary numbers, so this one is evaluated in two steps.\<close>

lemma test_unicode_escape: "test_parse_json_string_unicode_escape"
proof -
  have "take_chars 4 (''0041'' @ [quote]) = (''0041'', [quote])" "digits_val 16 0 ''0041'' = Some 65"
    and a: "char_of (65 :: nat) = CHR ''A''" by code_simp+
  then have "json_escape_seq (''u0041'' @ [quote]) = (''A'', [quote])"
    by (simp add: json_escape_seq_def parse_uint_def is_scalar_def encode_utf8_def char_names a)
  then show ?thesis
    by (simp add: test_parse_json_string_unicode_escape_def parse_json_string_def starts_with_def char_names)
qed

lemma tests_json:
  "test_json_escape_simple"
  "test_json_escape_quotes_and_backslash"
  "test_json_escape_newlines_tabs"
  "test_json_escape_control_chars"
  "test_parse_json_string_basic"
  "test_parse_json_string_escapes"
  "test_parse_json_string_unterminated"
  "test_parse_json_string_not_a_string"
  "test_extract_json_field_basic"
  "test_extract_json_field_with_escapes"
  "test_extract_json_field_missing"
  "test_extract_json_field_not_string"
  "test_extract_nested_content_openai"
  by code_simp+

section \<open>Completions, prompts and backends (\<^verbatim>\<open>llm.rs\<close>)\<close>

definition test_extract_turtle_completion_triple_quoted :: bool where
  "test_extract_turtle_completion_triple_quoted \<longleftrightarrow>
     (extract_turtle_completion (''_:resp a antenna:LlmResponse ; antenna:completion '' @ [quote, quote, quote]
       @ ''[] a res:Foo .'' @ [quote, quote, quote] @ '' .'') = Inr ''[] a res:Foo .'')"

definition test_extract_turtle_completion_single_quoted :: bool where
  "test_extract_turtle_completion_single_quoted \<longleftrightarrow>
     (extract_turtle_completion (''_:resp a antenna:LlmResponse ; antenna:completion '' @ quoted ''hello'' @ '' .'')
       = Inr ''hello'')"

definition test_extract_turtle_completion_missing :: bool where
  "test_extract_turtle_completion_missing \<longleftrightarrow>
     (\<not> is_ok (extract_turtle_completion ''_:resp a antenna:LlmResponse .''))"

definition test_turtle_escape_triple_quote :: bool where
  "test_turtle_escape_triple_quote \<longleftrightarrow>
     (long_literal (''hello'' @ [newline] @ ''world'')
       = ([quote, quote, quote] @ ''hello'' @ [newline] @ ''world'' @ [quote, quote, quote]))"

definition test_turtle_escape_preserves_content :: bool where
  "test_turtle_escape_preserves_content \<longleftrightarrow>
     (long_literal ''simple'' = ([quote, quote, quote] @ ''simple'' @ [quote, quote, quote]))"

definition test_build_prompt_format :: bool where
  "test_build_prompt_format \<longleftrightarrow>
     (let result = build_prompt ''[] a :A .'' ''[] a :B .'' ''@prefix : <http://x/> .'' in
     contains ''Graph A:'' result \<and>
     contains ''Graph B:'' result \<and>
     contains ''[] a :A .'' result \<and>
     contains ''[] a :B .'' result \<and>
     contains ''@prefix : <http://x/> .'' result)"

definition test_create_backend_unknown_type :: "bool \<Rightarrow> bool" where
  "test_create_backend_unknown_type llm_http \<longleftrightarrow>
     (\<not> is_ok (create_backend llm_http ''unknown'' [] [] False))"

definition test_create_backend_platform_without_channels :: "bool \<Rightarrow> bool" where
  "test_create_backend_platform_without_channels llm_http \<longleftrightarrow>
     (\<not> is_ok (create_backend llm_http ''platform'' [] [] False))"

definition test_create_backend_ollama :: bool where
  "test_create_backend_ollama \<longleftrightarrow>
     (is_ok (create_backend True ''ollama'' ''http://localhost:11434'' ''test'' False))"

definition test_create_backend_http :: bool where
  "test_create_backend_http \<longleftrightarrow>
     (is_ok (create_backend True ''http'' ''http://localhost:8080/v1'' ''test'' False))"

definition test_create_backend_http_disabled_without_feature :: bool where
  "test_create_backend_http_disabled_without_feature \<longleftrightarrow>
     (\<not> is_ok (create_backend False ''ollama'' ''http://localhost:11434'' ''test'' False) \<and>
     \<not> is_ok (create_backend False ''http'' ''http://localhost:8080/v1'' ''test'' False))"

lemma tests_completions_prompts_and_backends:
  "test_extract_turtle_completion_triple_quoted"
  "test_extract_turtle_completion_single_quoted"
  "test_extract_turtle_completion_missing"
  "test_turtle_escape_triple_quote"
  "test_turtle_escape_preserves_content"
  "test_build_prompt_format"
  "test_create_backend_unknown_type llm_http"
  "test_create_backend_platform_without_channels llm_http"
  "test_create_backend_ollama"
  "test_create_backend_http"
  "test_create_backend_http_disabled_without_feature"
  by code_simp+

section \<open>Log lines (\<^verbatim>\<open>logging.rs\<close>)\<close>

definition test_iso8601_epoch :: bool where
  "test_iso8601_epoch \<longleftrightarrow>
     (iso8601_millis 0 0 = ''1970-01-01T00:00:00.000Z'')"

definition test_iso8601_known_instant :: bool where
  "test_iso8601_known_instant \<longleftrightarrow>
     (iso8601_millis 86400 100 = ''1970-01-02T00:00:00.100Z'')"

definition test_parse_tags_empty_returns_none :: bool where
  "test_parse_tags_empty_returns_none \<longleftrightarrow>
     (parse_allowed_tags [] = None \<and>
     parse_allowed_tags ''   '' = None)"

definition test_parse_tags_one :: bool where
  "test_parse_tags_one \<longleftrightarrow>
     (parse_allowed_tags ''JAMI'' = Some {''JAMI''})"

definition test_parse_tags_many_with_whitespace :: bool where
  "test_parse_tags_many_with_whitespace \<longleftrightarrow>
     (parse_allowed_tags '' JAMI, SHIM,  WS '' = Some {''JAMI'', ''SHIM'', ''WS''})"

definition test_parse_tags_skips_empty_tokens :: bool where
  "test_parse_tags_skips_empty_tokens \<longleftrightarrow>
     (parse_allowed_tags ''JAMI,,SHIM,'' = Some {''JAMI'', ''SHIM''})"

definition test_known_tags_count :: bool where
  "test_known_tags_count \<longleftrightarrow>
     (length known_tags = 11)"

lemma tests_log_lines:
  "test_iso8601_epoch"
  "test_iso8601_known_instant"
  "test_parse_tags_empty_returns_none"
  "test_parse_tags_one"
  "test_parse_tags_many_with_whitespace"
  "test_parse_tags_skips_empty_tokens"
  "test_known_tags_count"
  by code_simp+

section \<open>Levels of the messages about channels (\<^verbatim>\<open>dag.rs\<close>)\<close>

definition test_log_channel_broadcast_clock_iri_is_trace :: bool where
  "test_log_channel_broadcast_clock_iri_is_trace \<longleftrightarrow>
     (log_channel_broadcast antenna_clock_iri = (Level_trace, ''CHANNEL''))"

definition test_log_channel_broadcast_non_clock_iri_is_debug :: bool where
  "test_log_channel_broadcast_non_clock_iri_is_debug \<longleftrightarrow>
     (log_channel_broadcast ''http://resonator.network/v2/antenna#beforeInsert'' = (Level_debug, ''CHANNEL''))"

definition test_log_script_inbox_recv_clock_iri_is_trace :: bool where
  "test_log_script_inbox_recv_clock_iri_is_trace \<longleftrightarrow>
     (log_script_inbox_recv antenna_clock_iri = (Level_trace, ''SCRIPT''))"

definition test_log_script_inbox_recv_non_clock_iri_is_debug :: bool where
  "test_log_script_inbox_recv_non_clock_iri_is_debug \<longleftrightarrow>
     (log_script_inbox_recv ''http://resonator.network/v2/antenna#beforeInsert'' = (Level_debug, ''SCRIPT''))"

lemma tests_levels_of_the_messages_about_channels:
  "test_log_channel_broadcast_clock_iri_is_trace"
  "test_log_channel_broadcast_non_clock_iri_is_debug"
  "test_log_script_inbox_recv_clock_iri_is_trace"
  "test_log_script_inbox_recv_non_clock_iri_is_debug"
  by code_simp+

section \<open>The builder (\<^verbatim>\<open>lib.rs\<close>)\<close>

definition test_builder_chains_all_options :: bool where
  "test_builder_chains_all_options \<longleftrightarrow>
     (let b = builder_seed ''seed.ttl'' (builder_pipeline ''pipeline.ttl'' (builder_store_path ''/tmp/store'' (builder_account ''abc123'' (builder_new ''/tmp/jami-data'')))) in
     b_data_dir b = ''/tmp/jami-data'' \<and>
     b_account_id b = Some ''abc123'' \<and>
     b_store_path b = Some ''/tmp/store'' \<and>
     b_pipeline_path b = Some ''pipeline.ttl'' \<and>
     b_seed_path b = Some ''seed.ttl'')"

definition test_builder_defaults_are_none :: bool where
  "test_builder_defaults_are_none \<longleftrightarrow>
     (let b = builder_new ''/tmp/jami-data'' in
     b_account_id b = None \<and>
     b_store_path b = None \<and>
     b_pipeline_path b = None \<and>
     b_seed_path b = None)"

lemma tests_the_builder:
  "test_builder_chains_all_options"
  "test_builder_defaults_are_none"
  by code_simp+

section \<open>Lines of a payload (\<^verbatim>\<open>ffi.rs\<close>)\<close>

definition collect :: "str \<Rightarrow> str list \<times> int" where
  "collect input = push_turtle_lines (\<lambda>out line. (out @ [line], True)) input []"

definition test_single_statement_passes_through_unchanged :: bool where
  "test_single_statement_passes_through_unchanged \<longleftrightarrow>
     (collect (''[] a sp:Ask ; sp:text '' @ quoted ''ASK { ?s ?p ?o }'' @ '' .'')
       = ([(''[] a sp:Ask ; sp:text '' @ quoted ''ASK { ?s ?p ?o }'' @ '' .'')], 0))"

definition test_theme_picker_payload_splits_into_two_dispatches :: bool where
  "test_theme_picker_payload_splits_into_two_dispatches \<longleftrightarrow>
     (let out = collect (''@prefix sp: <http://spinrdf.org/sp#> .'' @ [newline]
       @ ''@prefix design: <http://resonator.network/v2/design#> .'' @ [newline]
         @ ''[] a sp:Modify ; sp:text '' @ quoted ''DELETE { } INSERT { } WHERE { }'' @ '' .'' @ [newline]
           @ ''[] a design:ResolveActiveTheme .'' @ [newline]) in
     snd out = 0 \<and>
     length (fst out) = 4 \<and>
     contains ''sp:Modify'' (fst out ! 2) \<and>
     contains ''design:ResolveActiveTheme'' (fst out ! 3))"

definition test_empty_and_whitespace_lines_are_skipped :: bool where
  "test_empty_and_whitespace_lines_are_skipped \<longleftrightarrow>
     (collect ([newline] @ ''  '' @ [newline] @ ''[] a foo:Bar .'' @ [newline, newline])
       = ([''[] a foo:Bar .''], 0))"

definition test_push_failure_returns_minus_three_and_stops :: bool where
  "test_push_failure_returns_minus_three_and_stops \<longleftrightarrow>
     (push_turtle_lines (\<lambda>count _. (count + 1, count + 1 < 2)) (''a'' @ [newline] @ ''b'' @ [newline]
       @ ''c'' @ [newline]) (0 :: nat) = (2, -3))"

lemma tests_lines_of_a_payload:
  "test_single_statement_passes_through_unchanged"
  "test_theme_picker_payload_splits_into_two_dispatches"
  "test_empty_and_whitespace_lines_are_skipped"
  "test_push_failure_returns_minus_three_and_stops"
  by code_simp+

section \<open>The statement of a restored contact (\<^verbatim>\<open>carrier.rs\<close>)\<close>

text \<open>The event of the tests: zeroed, then its buffers filled; \<open>None\<close> leaves the display name zeroed.\<close>

definition copy_into :: "str \<Rightarrow> str \<Rightarrow> str" where
  "copy_into dst src =
     (let n = min (length src) (length dst - 1) in (take n src @ drop n dst)[n := nul])"

definition zeroed_event :: carrier_event where
  "zeroed_event = \<lparr>ev_timestamp = 0, ev_account_id = replicate 64 nul,
     ev_data = ContactRestored (replicate 128 nul) (replicate 128 nul) False\<rparr>"

definition restored :: "str \<Rightarrow> str option \<Rightarrow> bool \<Rightarrow> carrier_event" where
  "restored uri name blocked = zeroed_event\<lparr>ev_timestamp := 1748000000000,
     ev_account_id := copy_into (ev_account_id zeroed_event) ''c314a87070bc4c74'',
     ev_data := ContactRestored (copy_into (replicate 128 nul) uri)
       (case name of None \<Rightarrow> replicate 128 nul | Some n \<Rightarrow> copy_into (replicate 128 nul) n) blocked\<rparr>"

text \<open>\<open>line.matches(k).count()\<close>\<close>

definition matches_count :: "str \<Rightarrow> str \<Rightarrow> nat" where
  "matches_count k s = (length s - length (replace_str k [] s)) div length k"

definition test_contact_restored_emits_full_predicate_set :: bool where
  "test_contact_restored_emits_full_predicate_set \<longleftrightarrow>
     (case event_to_turtle (restored ''4748d985a10c8e84990f592a0ec0232efb733293'' (Some ''bob'') False) of None \<Rightarrow> False | Some line \<Rightarrow>
       contains ''[] a carrier:ContactRestored'' line \<and>
       contains (''carrier:account '' @ quoted ''c314a87070bc4c74'') line \<and>
       contains (''carrier:contactUri '' @ quoted ''4748d985a10c8e84990f592a0ec0232efb733293'') line \<and>
       contains (''carrier:displayName '' @ quoted ''bob'') line \<and>
       contains (''carrier:blocked '' @ quoted ''false'') line \<and>
       starts_with (rev '' .'') (rev line))"

definition test_contact_restored_banned_serializes_blocked_true :: bool where
  "test_contact_restored_banned_serializes_blocked_true \<longleftrightarrow>
     (case event_to_turtle (restored ''4748d985a10c8e84990f592a0ec0232efb733293'' None True) of None \<Rightarrow> False | Some line \<Rightarrow>
       contains (''carrier:blocked '' @ quoted ''true'') line \<and>
       matches_count ''carrier:blocked'' line = 1)"

definition test_contact_restored_empty_display_name_still_serializes_predicate :: bool where
  "test_contact_restored_empty_display_name_still_serializes_predicate \<longleftrightarrow>
     (case event_to_turtle (restored ''51a5757140adc1aaa511ac55597cf53883489157'' None False) of None \<Rightarrow> False | Some line \<Rightarrow>
       contains (''carrier:displayName '' @ [quote, quote]) line \<and>
       matches_count ''carrier:displayName'' line = 1)"

definition test_contact_restored_escapes_display_name :: bool where
  "test_contact_restored_escapes_display_name \<longleftrightarrow>
     (case event_to_turtle (restored ''deadbeefdeadbeefdeadbeefdeadbeefdeadbeef'' (Some (''Bob ''
       @ quoted ''The'' @ '' Builder'')) False) of None \<Rightarrow> False | Some line \<Rightarrow>
       contains (''carrier:displayName '' @ [quote] @ ''Bob '' @ [backslash, quote] @ ''The''
         @ [backslash, quote] @ '' Builder'' @ [quote]) line)"

lemma tests_the_statement_of_a_restored_contact:
  "test_contact_restored_emits_full_predicate_set"
  "test_contact_restored_banned_serializes_blocked_true"
  "test_contact_restored_empty_display_name_still_serializes_predicate"
  "test_contact_restored_escapes_display_name"
  by code_simp+

section \<open>Requests to the store (\<^verbatim>\<open>dispatch.rs\<close>)\<close>

text \<open>
  These run on every store: where the outcome depends on it, the lemma supposes the answer that the store of the
  test gives.  The messages are those of the output, which is empty at first.
\<close>

definition spin_messages :: "('s, 'c) env \<Rightarrow> str \<Rightarrow> str \<Rightarrow> ('s, 'c) world \<Rightarrow> str list" where
  "spin_messages env line class w = w_out (handle_spin env line (sp_ns @ class) (w\<lparr>w_out := []\<rparr>))"

definition test_handle_spin_ask_true :: "('s, 'c) env \<Rightarrow> ('s, 'c) world \<Rightarrow> bool" where
  "test_handle_spin_ask_true env w \<longleftrightarrow>
     (let msgs = spin_messages env (''[] a sp:Ask ; sp:text '' @ quoted ''ASK { <urn:x> a <urn:Foo> }''
       @ '' .'') ''Ask'' w
      in length msgs = 1 \<and> contains ''true'' (msgs ! 0))"

definition test_handle_spin_ask_false :: "('s, 'c) env \<Rightarrow> ('s, 'c) world \<Rightarrow> bool" where
  "test_handle_spin_ask_false env w \<longleftrightarrow>
     (let msgs = spin_messages env (''[] a sp:Ask ; sp:text '' @ quoted ''ASK { <urn:x> a <urn:Nothing> }''
       @ '' .'') ''Ask'' w
      in length msgs = 1 \<and> contains ''false'' (msgs ! 0))"

definition test_handle_spin_missing_sp_text :: "('s, 'c) env \<Rightarrow> ('s, 'c) world \<Rightarrow> bool" where
  "test_handle_spin_missing_sp_text env w \<longleftrightarrow>
     (let msgs = spin_messages env ''[] a sp:Select .'' ''Select'' w
      in length msgs = 1 \<and> contains ''Missing sp:text'' (msgs ! 0))"

definition test_handle_spin_unknown_type :: "('s, 'c) env \<Rightarrow> ('s, 'c) world \<Rightarrow> bool" where
  "test_handle_spin_unknown_type env w \<longleftrightarrow>
     (let msgs = spin_messages env (''[] a sp:Bogus ; sp:text '' @ quoted ''SELECT 1'' @ '' .'') ''Bogus'' w
      in length msgs = 1 \<and> contains ''Unknown SPIN type'' (msgs ! 0))"

definition test_handle_spin_sparql_syntax_error :: "('s, 'c) env \<Rightarrow> ('s, 'c) world \<Rightarrow> bool" where
  "test_handle_spin_sparql_syntax_error env w \<longleftrightarrow>
     (let msgs = spin_messages env (''[] a sp:Select ; sp:text '' @ quoted ''NOT VALID SPARQL !!!''
       @ '' .'') ''Select'' w
      in length msgs = 1 \<and> contains ''antenna:Error'' (msgs ! 0))"

definition test_insert_with_dag_invalid_turtle :: "('s, 'c) env \<Rightarrow> ('s, 'c) world \<Rightarrow> bool" where
  "test_insert_with_dag_invalid_turtle env w \<longleftrightarrow>
     w_out (insert_with_dag env ''this is not valid turtle'' (w\<lparr>w_out := []\<rparr>)) = []"

lemma spin_texts:
  "spin_text (''[] a sp:Ask ; sp:text '' @ quoted ''ASK { <urn:x> a <urn:Foo> }'' @ '' .'')
    = Some ''ASK { <urn:x> a <urn:Foo> }''"
  "spin_text (''[] a sp:Ask ; sp:text '' @ quoted ''ASK { <urn:x> a <urn:Nothing> }'' @ '' .'') =
    Some ''ASK { <urn:x> a <urn:Nothing> }''"
  "spin_text ''[] a sp:Select .'' = None"
  "spin_text (''[] a sp:Bogus ; sp:text '' @ quoted ''SELECT 1'' @ '' .'') = Some ''SELECT 1''"
  "spin_text (''[] a sp:Select ; sp:text '' @ quoted ''NOT VALID SPARQL !!!'' @ '' .'')
    = Some ''NOT VALID SPARQL !!!''"
  by code_simp+

lemma spin_contents:
  "contains ''true'' ''[] a sp:AskResult ; sp:boolean true .''" "contains ''false'' ''[] a sp:AskResult ; sp:boolean false .''"
  "contains ''Missing sp:text'' (antenna_error (''Missing sp:text in '' @ ''Select''))"
  "contains ''Unknown SPIN type'' (antenna_error (''Unknown SPIN type: '' @ ''Bogus''))"
  "contains ''antenna:Error'' (antenna_error x)"
proof -
  show "contains ''true'' ''[] a sp:AskResult ; sp:boolean true .''" "contains ''false'' ''[] a sp:AskResult ; sp:boolean false .''"
    "contains ''Missing sp:text'' (antenna_error (''Missing sp:text in '' @ ''Select''))"
    "contains ''Unknown SPIN type'' (antenna_error (''Unknown SPIN type: '' @ ''Bogus''))"
    by code_simp+
  have "antenna_error x = ''[] a '' @ ''antenna:Error'' @ '' ; antenna:message '' @ quoted x @ '' .''"
    by (simp add: antenna_error_def)
  then show "contains ''antenna:Error'' (antenna_error x)" unfolding contains_iff by blast
qed

lemma spin_messages_Some:
  "spin_text line = Some q \<Longrightarrow> spin_messages env line class w =
    w_out (if class = ''Select'' then spin_select env q (w\<lparr>w_out := []\<rparr>)
      else if class = ''Ask'' then spin_ask env q (w\<lparr>w_out := []\<rparr>)
      else if class = ''Construct'' then spin_construct env q (w\<lparr>w_out := []\<rparr>)
      else if class \<in> {''InsertData'', ''DeleteData'', ''Modify''} then spin_update env q (w\<lparr>w_out := []\<rparr>)
      else say (antenna_error (''Unknown SPIN type: '' @ class)) (w\<lparr>w_out := []\<rparr>))"
  by (simp add: spin_messages_def handle_spin_def)

lemma spin_messages_None:
  "spin_text line = None \<Longrightarrow> spin_messages env line class w
    = [antenna_error (''Missing sp:text in '' @ class)]"
  by (simp add: spin_messages_def handle_spin_def say_def)

lemma spin_message_tests:
  "test_handle_spin_missing_sp_text env w" "test_handle_spin_unknown_type env w"
  unfolding test_handle_spin_missing_sp_text_def test_handle_spin_unknown_type_def spin_messages_None [OF spin_texts(3)]
    spin_messages_Some [OF spin_texts(4)]
  using spin_contents(3,4) by (simp_all add: say_def)

lemma spin_ask_tests:
  "store_ask (e_ox env) (w_store w) ''ASK { <urn:x> a <urn:Foo> }''
    = Inr True \<Longrightarrow> test_handle_spin_ask_true env w"
  "store_ask (e_ox env) (w_store w) ''ASK { <urn:x> a <urn:Nothing> }''
    = Inr False \<Longrightarrow> test_handle_spin_ask_false env w"
  unfolding test_handle_spin_ask_true_def test_handle_spin_ask_false_def spin_messages_Some [OF spin_texts(1)]
    spin_messages_Some [OF spin_texts(2)]
  using spin_contents(1,2) by (simp_all add: spin_ask_def say_def)

lemma spin_error_tests:
  "store_query (e_ox env) (w_store w) ''NOT VALID SPARQL !!!''
    = Inl e \<Longrightarrow> test_handle_spin_sparql_syntax_error env w"
  "insert_turtle (e_ox env) (w_store w) ''this is not valid turtle''
    = (s, Inl e) \<Longrightarrow> test_insert_with_dag_invalid_turtle env w"
  unfolding test_handle_spin_sparql_syntax_error_def test_insert_with_dag_invalid_turtle_def spin_messages_Some [OF spin_texts(5)]
  using spin_contents(5) by (simp_all add: spin_select_def sparql_failed_def say_def insert_with_dag_def)

section \<open>Signed lists (\<^verbatim>\<open>blocklist.rs\<close>)\<close>

text \<open>The lemmas suppose of the decoder and of the signature scheme what the tests rely on.\<close>

definition test_valid_list_parses_entries :: "crypto \<Rightarrow> str \<Rightarrow> str \<Rightarrow> byte list \<Rightarrow> bool" where
  "test_valid_list_parses_entries cr p s pk \<longleftrightarrow>
     verify_signed_blocklist cr p s pk = Inr [''identity-aaa'', ''identity-bbb'', ''identity-ccc'']"

definition rejected_with :: "str \<Rightarrow> str + str list \<Rightarrow> bool" where
  "rejected_with word r = (case r of Inl err \<Rightarrow> contains word err | Inr _ \<Rightarrow> False)"

definition test_wrong_key_is_rejected :: "crypto \<Rightarrow> str \<Rightarrow> str \<Rightarrow> bool" where
  "test_wrong_key_is_rejected cr p s \<longleftrightarrow>
     rejected_with ''does not verify'' (verify_signed_blocklist cr p s blocklist_pubkey)"

definition test_garbage_base64_is_rejected :: "crypto \<Rightarrow> bool" where
  "test_garbage_base64_is_rejected cr \<longleftrightarrow>
     rejected_with ''base64'' (verify_signed_blocklist cr ''!!not-base64!!'' ''also-bad'' blocklist_pubkey)"

definition valid_list :: str where
  "valid_list = ''# header'' @ newline # ''identity-aaa'' @ newline # ''identity-bbb'' @
     newline # newline # ''identity-ccc'' @ [newline]"

lemma valid_list_test:
  assumes "base64_decode cr (trim p) = Some valid_list" "base64_decode cr (trim s) = Some sig" "length sig = 64"
    and "ed25519_key_ok cr pk" "ed25519_verify cr pk valid_list sig"
  shows "test_valid_list_parses_entries cr p s pk"
proof -
  have "from_utf8 valid_list = Some valid_list"
    "parse_entries valid_list = [''identity-aaa'', ''identity-bbb'', ''identity-ccc'']"
    by code_simp+
  then show ?thesis
    unfolding test_valid_list_parses_entries_def verify_signed_blocklist_def assms(1,2) need_def require_def
    using assms(3-5) by simp
qed

lemma rejected_list_tests:
  "base64_decode cr (trim p) = Some payload \<Longrightarrow> base64_decode cr (trim s)
    = Some sig \<Longrightarrow> length sig = 64 \<Longrightarrow>
    ed25519_key_ok cr blocklist_pubkey \<Longrightarrow> \<not> ed25519_verify cr blocklist_pubkey payload sig \<Longrightarrow>
    test_wrong_key_is_rejected cr p s"
  "base64_decode cr ''!!not-base64!!'' = None \<Longrightarrow> test_garbage_base64_is_rejected cr"
proof -
  have c: "contains ''does not verify'' ''blocklist signature does not verify''"
    "contains ''base64'' ''blocklist payload is not valid base64''" "trim ''!!not-base64!!'' = ''!!not-base64!!''"
    by code_simp+
  show "base64_decode cr (trim p) = Some payload \<Longrightarrow> base64_decode cr (trim s)
    = Some sig \<Longrightarrow> length sig = 64 \<Longrightarrow>
    ed25519_key_ok cr blocklist_pubkey \<Longrightarrow> \<not> ed25519_verify cr blocklist_pubkey payload sig \<Longrightarrow>
    test_wrong_key_is_rejected cr p s"
    using c(1) by (simp add: test_wrong_key_is_rejected_def rejected_with_def verify_signed_blocklist_def need_def require_def)
  show "base64_decode cr ''!!not-base64!!'' = None \<Longrightarrow> test_garbage_base64_is_rejected cr"
    unfolding test_garbage_base64_is_rejected_def verify_signed_blocklist_def c(3)
    using c(2) by (simp add: rejected_with_def need_def)
qed

end
