(* ===== verification/Spec2Isabelle.thy ===== *)
theory Spec2Isabelle
  imports Prelude Utf8 Channel Ring_Threads Turtle_Text Calendar Carrier_Event Carrier_Client Rdf_Store Dag Turtle_Record Theme Blocklist Dispatch Antenna Llm Semantic_Router Ffi Script_Vm Ws Web_Session Text_Safety Logging Program Build_Script Trusted_Boot Ffi_Session Unit_Tests
begin

text \<open>
  A model of antenna, a runtime that takes Turtle statements line by line, gives them to a SPARQL store, to a
  peer-to-peer library (libcarrier, on Jami) and to a graph of scripts, and emits Turtle.

  \<^bold>\<open>The program.\<close>  An application writes lines to an input and reads documents from an output; the two are pipes, a
  WebSocket or a pair of ring buffers behind a C interface.  \<^verbatim>\<open>AntennaContext::tick\<close> runs one round:
  the work of the first tick, a clock message to the scripts, one iteration of the library and the events it has
  queued, the lines of the input, the queries and the emits of the scripts.  A line is dispatched by the class
  after \<^verbatim>\<open>a\<close>: SPIN classes become SPARQL requests, commands of the \<^verbatim>\<open>carrier:\<close> vocabulary calls into the
  library, requests of \<^verbatim>\<open>design:\<close> the resolution of themes, subscriptions of \<^verbatim>\<open>antenna:\<close> signed blocklists,
  and anything else is given to the scripts and inserted into the store.  Each script node and each
  router with a language model runs in a thread of its own and is connected to the main thread by ring
  buffers.

  \<^bold>\<open>Theories and sources\<close> (paths below \<^verbatim>\<open>src/\<close>).
  \<^item> Prelude, Utf8, Utf8_Cut: Rust's strings as lists of UTF-8 bytes, the functions of the standard library on
    them, and where they may be cut.
  \<^item> Channel (\<^verbatim>\<open>channel.rs\<close>): clocks with their system calls, the ring buffer on 32-bit counters and a byte
    array, channels with back-off, pipes.  Its locales \<open>message_fifo\<close>, \<open>bounded_fifo\<close> and \<open>unbounded_fifo\<close> are the
    contract of a message queue, interpreted by the ring, by the channel and by the queues of the standard library.
    Ring_Threads takes the ring apart into the single loads, stores and bytes of a writer and a reader.
  \<^item> Turtle_Text, Turtle_Record, Text_Safety (\<^verbatim>\<open>dispatch.rs\<close>, \<^verbatim>\<open>carrier.rs\<close>, \<^verbatim>\<open>ffi.rs\<close>): finding classes and
    properties in a line, escaping (locale \<open>literal_escape\<close>, with an interpretation for each of the three
    routines), a reader of the statements the program writes, and that all texts stay well-formed UTF-8.
  \<^item> Calendar, Logging (\<^verbatim>\<open>carrier.rs\<close>, \<^verbatim>\<open>logging.rs\<close>): dates, log lines, the filter by tags.
  \<^item> Carrier_Event, Carrier_Client (\<^verbatim>\<open>carrier.rs\<close>): the events of the library and their statements; the client, whose
    every method is one call of a function that stands for the library.
  \<^item> Rdf_Store (\<^verbatim>\<open>store.rs\<close>), Theme (\<^verbatim>\<open>theme.rs\<close>), Blocklist (\<^verbatim>\<open>blocklist.rs\<close>): the wrapper of the store, the
    resolution of themes along their parents, the check of signed lists.
  \<^item> Dag, Semantic_Router (\<^verbatim>\<open>dag.rs\<close>): loading and wiring the script graph, broadcast, pumps, the rounds of node
    and router threads.  Script_Vm (\<^verbatim>\<open>script_vm.rs\<close>): the host of QuickJS in a state monad, with every
    value, string and context that is taken and given back.  Llm (\<^verbatim>\<open>llm.rs\<close>): the language model backends.
  \<^item> Dispatch (\<^verbatim>\<open>dispatch.rs\<close>), Antenna (\<^verbatim>\<open>lib.rs\<close>): the routing of a line and every handler; the context, its
    set-up, its tick and its loop.  Trusted_Boot follows a store through installations of a pipeline, ticks and
    starts, up to the scripts that are loaded from it.
  \<^item> Ffi and Ffi_Session (\<^verbatim>\<open>ffi.rs\<close>), Ws and Web_Session (\<^verbatim>\<open>ws.rs\<close>), Program (\<^verbatim>\<open>main.rs\<close>): the C interface with its handles and worker, call by
    call and over whole sessions, the WebSocket server with its threads, alone and with the runtime behind it, the command line program and its loop on standard input.
  \<^item> Build_Script (\<^verbatim>\<open>../build.rs\<close>): what is linked for which target.
  \<^item> Unit_Tests: the repository's own unit tests that need no third-party code, evaluated on these definitions.

  \<^bold>\<open>How the model relates to the code.\<close>  A struct is a record, an enum a datatype; \<^verbatim>\<open>u32\<close> counters and lengths are
  words of their width, times and counts that cannot wrap are numbers.  A \<^verbatim>\<open>Result\<close> is a sum with the error on
  the left, an \<^verbatim>\<open>Option\<close> an option.  Operations return the changed state; what is sent to the output is a list in
  the state.  A function that may not return is \<open>partial_function (option)\<close>, with \<open>None\<close> for not
  returning; the same \<open>None\<close> stands for a panic that only a debug build has.  What the C interface does
  when a tick panics is modelled for every panic, which is then an input of the round (\<open>crash\<close>).  The input of a
  tick is the finite list of the lines it reads; an input that goes on without end is modelled for standard
  input only (\<open>pipe_tick\<close>).  Threads are operations that may come in any order: the calls of the C interface are
  atomic, so that concurrent calls of \<^verbatim>\<open>antenna_create\<close> are not represented; the rounds of nodes, routers and of
  the worker of the C interface are atomic with respect to the calls; a round of the loop that serves a WebSocket
  client (\<open>ws_serve\<close>) is one step, while the accepting thread and the forwarder take single channel operations
  as steps; and the ring takes single memory accesses.

  \<^bold>\<open>Parameters.\<close>  Code that is not in the repository is an argument: the store (a record of Oxigraph's
  operations), the carrier library (a function of its state and a call), the cryptography of the blocklists, HTTP
  and the completion of prompts, the parser that checks the answers of a model, QuickJS, tungstenite and the
  sockets (their answers are inputs), the filter of \<^verbatim>\<open>tracing\<close>, the file system and the tools of the build.  The
  order of hash maps, the clocks and the threads come from a record of the host.  Where a property needs
  something of them it is a named hypothesis (\<open>graph_laws\<close>; \<open>finite_parents\<close>, that the themes to be reached from the
  active one are among finitely many, as a store is finite; and that a query of a named graph finds only what that
  graph holds), with a concrete instance in its witness.

  \<^bold>\<open>Bounds and fuel.\<close>  There is no fuel: loops that end have measures, and the loops that may not (a queue that
  never runs dry, the walk along the parents of themes, the loop of the program) are partial functions whose
  results are proved to exist where they do.  The ring needs a capacity that divides \<open>2 ^ 32\<close>; the program uses
  powers of two only.  Messages are shorter than \<open>2 ^ 32 - 4\<close> bytes, as their length is sent as four bytes.

  \<^bold>\<open>What the lemmas show.\<close>  Per component: functional behaviour on every branch (the table of carrier commands, the
  codes of the C interface), invariants (wiring of the graph, one live handle, one start, latches of routers),
  refinement (ring to bounded list, threads to atomic operations, sessions over the C interface to ticks), round trips (events,
  answers, literals, JSON), safety (signatures, scripts from the trusted pipeline only, resources of QuickJS, order of documents, linked
  archives), termination (ticks, theme chains) and liveness, among these several that show a defect: no
  node is woken on Linux, standard input blocks the loop until it ends, a document may be lost on a
  reconnect.

  \<^bold>\<open>Not modelled.\<close>  The declarations of foreign functions and the C shim (they hold no logic), the data files
  (Turtle and SPARQL texts whose meaning is the store's), benchmarks, examples and the tests that need a store or
  QuickJS; the text of most log
  messages; the parsing of command line arguments, of HTTP and of WebSocket frames, which is third-party code; weak
  memory beyond the acquire and release pairs of the ring.
\<close>

section \<open>The transports agree on the framing of texts\<close>

lemma push_lines_mpsc: "push_lines mpsc_send ls q = (q @ turtle_lines ls, 0)"
  by (induction ls arbitrary: q) (simp_all add: Let_def mpsc_send_def)

text \<open>
  A text arrives as the same lines whether it comes through the C interface or as a WebSocket
  message: both queue the trimmed lines that are not empty, in order, and drop none.
\<close>

theorem framing_agrees:
  "push_turtle_lines mpsc_send t q = (q @ fst (read_frames [Read_text t]), 0)"
  by (simp add: push_turtle_lines_def push_lines_mpsc)

end
